(* ===== verification/Lcsas_Prelude.thy ===== *)
theory Lcsas_Prelude
  imports Main "HOL-Library.Word"
begin

unbundle bit_operations_syntax

text \<open>
  Shared material of the development: the byte and result types of the model, sequencing of
  fallible computations (an exception of the source is the \<open>Inl\<close> of a sum), conversions
  between integers and digit lists (Python's \<open>int.from_bytes\<close>, \<open>int.to_bytes\<close> and the
  base-1024 word indices are instances), and the generic facts on lists and bits that the
  component theories use.
\<close>

named_theorems result_simps \<open>unfolding of sequencing on the sum type of results\<close>
named_theorems digit_simps \<open>lengths and round trips of digit expansions\<close>

section \<open>Types\<close>

type_synonym byte = "8 word"
type_synonym bytes = "byte list"
type_synonym ('e, 'a) result = "'e + 'a"

section \<open>Results: exceptions as values\<close>

text \<open>Sequencing: an exception stops the computation.\<close>

definition rbind :: "('e, 'a) result \<Rightarrow> ('a \<Rightarrow> ('e, 'b) result) \<Rightarrow> ('e, 'b) result" where
  "rbind m f = (case m of Inl e \<Rightarrow> Inl e | Inr a \<Rightarrow> f a)"

lemma rbind_Inl [simp, result_simps]: "rbind (Inl e) f = Inl e"
  by (simp add: rbind_def)

lemma rbind_Inr [simp, result_simps]: "rbind (Inr a) f = f a"
  by (simp add: rbind_def)

lemma rbind_eq_Inr: "rbind m f = Inr b \<longleftrightarrow> (\<exists>a. m = Inr a \<and> f a = Inr b)"
  by (cases m) auto

lemma rbind_eq_InrE:
  assumes "rbind m f = Inr b" obtains a where "m = Inr a" "f a = Inr b"
  using assms by (auto simp: rbind_eq_Inr)

text \<open>\<open>guard e b\<close>: raise \<open>e\<close> when the condition \<open>b\<close> holds, as \<open>if b: raise e\<close> does.\<close>

definition raise_if :: "bool \<Rightarrow> 'e \<Rightarrow> ('e, unit) result" where
  "raise_if b e = (if b then Inl e else Inr ())"

lemma raise_if_simps [simp, result_simps]:
  "raise_if True e = Inl e" "raise_if False e = Inr ()"
  by (simp_all add: raise_if_def)

lemma raise_if_eq_Inr [simp]: "raise_if b e = Inr u \<longleftrightarrow> \<not> b"
  by (simp add: raise_if_def)

text \<open>A list comprehension whose element expression may raise: the first exception wins.\<close>

fun rmap :: "('a \<Rightarrow> ('e, 'b) result) \<Rightarrow> 'a list \<Rightarrow> ('e, 'b list) result" where
  "rmap f [] = Inr []"
| "rmap f (x # xs) = rbind (f x) (\<lambda>y. rbind (rmap f xs) (\<lambda>ys. Inr (y # ys)))"

lemma rmap_Inr_map:
  assumes "\<And>x. x \<in> set xs \<Longrightarrow> f x = Inr (g x)"
  shows "rmap f xs = Inr (map g xs)"
  using assms by (induction xs) auto

lemma rmap_length: "rmap f xs = Inr ys \<Longrightarrow> length ys = length xs"
  by (induction xs arbitrary: ys) (auto simp: rbind_eq_Inr)

lemma rmap_nth:
  "rmap f xs = Inr ys \<Longrightarrow> i < length xs \<Longrightarrow> f (xs ! i) = Inr (ys ! i)"
  by (induction xs arbitrary: ys i) (auto simp: rbind_eq_Inr nth_Cons split: nat.splits)

lemma rmap_append:
  "rmap f (xs @ ys) = rbind (rmap f xs) (\<lambda>as. rbind (rmap f ys) (\<lambda>bs. Inr (as @ bs)))"
proof (induction xs)
  case Nil
  show ?case by (cases "rmap f ys") auto
next
  case (Cons x xs)
  show ?case
    by (cases "f x"; cases "rmap f xs"; cases "rmap f ys") (use Cons in auto)
qed

text \<open>A loop over a list that threads a state and may raise.\<close>

fun rfold :: "('a \<Rightarrow> 's \<Rightarrow> ('e, 's) result) \<Rightarrow> 'a list \<Rightarrow> 's \<Rightarrow> ('e, 's) result" where
  "rfold f [] s = Inr s"
| "rfold f (x # xs) s = rbind (f x s) (rfold f xs)"

lemma rfold_append: "rfold f (xs @ ys) s = rbind (rfold f xs s) (rfold f ys)"
proof (induction xs arbitrary: s)
  case Nil
  show ?case by simp
next
  case (Cons x xs)
  show ?case by (cases "f x s") (simp_all add: Cons)
qed

lemma rfold_invariant:
  assumes "rfold f xs s = Inr t" "P s"
    and "\<And>x s t. x \<in> set xs \<Longrightarrow> P s \<Longrightarrow> f x s = Inr t \<Longrightarrow> P t"
  shows "P t"
  using assms
proof (induction xs arbitrary: s)
  case Nil
  then show ?case by simp
next
  case (Cons x xs)
  from Cons.prems(1) obtain u where u: "f x s = Inr u" "rfold f xs u = Inr t"
    by (auto elim: rbind_eq_InrE)
  have "P u" using Cons.prems u by auto
  then show ?case using Cons.prems(3) by (intro Cons.IH [OF u(2)]) auto
qed

section \<open>Digit expansions\<close>

text \<open>
  \<open>digits_be b n v\<close> are the \<open>n\<close> least significant base-\<open>b\<close> digits of \<open>v\<close>, most significant
  first; \<open>undigits_be b ds\<close> reads digits back, as the loop \<open>value = value * b + d\<close> does.
\<close>

definition digits_be :: "nat \<Rightarrow> nat \<Rightarrow> nat \<Rightarrow> nat list" where
  "digits_be b n v = map (\<lambda>i. v div b ^ i mod b) (rev [0..<n])"

definition undigits_be :: "nat \<Rightarrow> nat list \<Rightarrow> nat" where
  "undigits_be b ds = foldl (\<lambda>value d. value * b + d) 0 ds"

lemma length_digits_be [simp, digit_simps]: "length (digits_be b n v) = n"
  by (simp add: digits_be_def)

lemma digits_be_0 [simp]: "digits_be b 0 v = []"
  by (simp add: digits_be_def)

lemma digits_be_Suc: "digits_be b (Suc n) v = digits_be b n (v div b) @ [v mod b]"
proof -
  have "rev [0..<Suc n] = map Suc (rev [0..<n]) @ [0]"
    by (metis map_Suc_upt rev.simps(2) rev_map upt_conv_Cons zero_less_Suc)
  then show ?thesis
    by (simp add: digits_be_def div_mult2_eq)
qed

lemma undigits_be_Nil [simp]: "undigits_be b [] = 0"
  by (simp add: undigits_be_def)

lemma undigits_be_snoc [simp]: "undigits_be b (ds @ [d]) = undigits_be b ds * b + d"
  by (simp add: undigits_be_def)

lemma undigits_digits_be [digit_simps]:
  "undigits_be b (digits_be b n v) = v mod b ^ n"
proof (induction n arbitrary: v)
  case 0
  show ?case by simp
next
  case (Suc n)
  have "undigits_be b (digits_be b (Suc n) v) = (v div b) mod b ^ n * b + v mod b"
    by (simp add: digits_be_Suc Suc)
  then show ?case
    by (simp add: mod_mult2_eq mult.commute)
qed

lemma undigits_be_less:
  "\<forall>d \<in> set ds. d < b \<Longrightarrow> undigits_be b ds < b ^ length ds"
proof (induction ds rule: rev_induct)
  case Nil
  show ?case by simp
next
  case (snoc d ds)
  then have IH: "undigits_be b ds < b ^ length ds" and d: "d < b" by auto
  have "undigits_be b ds * b + d < Suc (undigits_be b ds) * b" using d by simp
  also have "\<dots> \<le> b ^ length ds * b" using IH by (intro mult_le_mono1) simp
  finally show ?case by (simp add: mult.commute)
qed

lemma digits_undigits_be [digit_simps]:
  "\<forall>d \<in> set ds. d < b \<Longrightarrow> digits_be b (length ds) (undigits_be b ds) = ds"
proof (induction ds rule: rev_induct)
  case Nil
  show ?case by simp
next
  case (snoc d ds)
  then have "0 < b" by auto
  with snoc show ?case by (simp add: digits_be_Suc)
qed

lemma digits_be_less: "0 < b \<Longrightarrow> d \<in> set (digits_be b n v) \<Longrightarrow> d < b"
  by (auto simp: digits_be_def)

text \<open>\<open>int.from_bytes(bs, "big")\<close> and \<open>v.to_bytes(n, "big")\<close>; the latter raises OverflowError
  (here \<open>None\<close>) when the value does not fit.\<close>

definition int_from_bytes_be :: "bytes \<Rightarrow> nat" where
  "int_from_bytes_be bs = undigits_be 256 (map unat bs)"

definition int_to_bytes_be :: "nat \<Rightarrow> nat \<Rightarrow> bytes option" where
  "int_to_bytes_be v n = (if v < 256 ^ n then Some (map of_nat (digits_be 256 n v)) else None)"

lemma unat_byte_less [simp]: "unat (b :: byte) < 256"
  using unsigned_less [of b, where 'a = nat] by simp

lemma unat_of_nat_byte: "d < 256 \<Longrightarrow> unat (of_nat d :: byte) = d"
  by (simp add: unat_of_nat)

lemma int_from_bytes_be_less: "int_from_bytes_be bs < 256 ^ length bs"
  using undigits_be_less [of "map unat bs" 256] by (auto simp: int_from_bytes_be_def)

lemma int_to_from_bytes_be [simp]:
  "int_to_bytes_be (int_from_bytes_be bs) (length bs) = Some bs"
proof -
  have "digits_be 256 (length bs) (undigits_be 256 (map unat bs)) = map unat bs"
    using digits_undigits_be [of "map unat bs" 256] by auto
  then have "map of_nat (digits_be 256 (length bs) (int_from_bytes_be bs)) = bs"
    by (simp add: int_from_bytes_be_def comp_def)
  with int_from_bytes_be_less [of bs] show ?thesis
    by (simp add: int_to_bytes_be_def)
qed

lemma int_from_to_bytes_be:
  assumes "v < 256 ^ n"
  shows "int_from_bytes_be (map of_nat (digits_be 256 n v)) = v"
proof -
  have "map unat (map of_nat (digits_be 256 n v) :: bytes) = digits_be 256 n v"
    by (auto simp: comp_def unat_of_nat_byte digits_be_less intro!: map_idI)
  then show ?thesis
    using assms by (simp add: int_from_bytes_be_def undigits_digits_be)
qed

section \<open>Bits\<close>

named_theorems xor_ac \<open>exclusive or as an abelian group of exponent two\<close>

lemma xor_self_left [simp]: "a XOR (a XOR b) = (b :: 'a :: semiring_bit_operations)"
  by (simp flip: xor.assoc)

lemmas [xor_ac] = xor.assoc xor.commute xor.left_commute

lemma xor_less_exp: "a < 2 ^ n \<Longrightarrow> b < 2 ^ n \<Longrightarrow> a XOR b < (2 ^ n :: nat)"
  by (metis take_bit_nat_eq_self take_bit_nat_less_exp take_bit_xor)

lemma drop_bit_and_1: "drop_bit i (b::nat) AND 1 \<noteq> 0 \<longleftrightarrow> bit b i"
  by (simp add: and_one_eq bit_iff_odd drop_bit_eq_div odd_iff_mod_2_eq_one)

lemma and_1023: "x AND 1023 = take_bit 10 (x::nat)"
proof -
  have "(1023 :: nat) = mask 10" by (simp add: mask_eq_exp_minus_1)
  then show ?thesis by (simp only: take_bit_eq_mask)
qed

lemma and_1023_less: "x AND 1023 < (1024 :: nat)"
  using take_bit_nat_less_exp [of 10 x] by (simp add: and_1023)

section \<open>Lists\<close>

text \<open>A closed check over an interval of numerals, evaluated by the simplifier, as a fact.\<close>

lemma list_all_uptD: "list_all P [m..<n] \<Longrightarrow> m \<le> k \<Longrightarrow> k < n \<Longrightarrow> P k"
  by (simp add: list_all_iff)

text \<open>\<open>chunks n xs\<close> cuts a list into pieces of length \<open>n\<close>, the last one possibly shorter.\<close>

function chunks :: "nat \<Rightarrow> 'a list \<Rightarrow> 'a list list" where
  "chunks n xs = (if n = 0 \<or> xs = [] then [] else take n xs # chunks n (drop n xs))"
  by pat_completeness auto
termination by (relation "measure (\<lambda>(n, xs). length xs)") auto

declare chunks.simps [simp del]

lemma concat_chunks: "0 < n \<Longrightarrow> concat (chunks n xs) = xs"
  by (induction n xs rule: chunks.induct) (subst chunks.simps, simp)

lemma chunks_Nil [simp]: "chunks n [] = []"
  by (simp add: chunks.simps)

lemma set_chunks: "0 < n \<Longrightarrow> (\<Union>b \<in> set (chunks n xs). set b) = set xs"
  using concat_chunks [of n xs] by (metis set_concat)

lemma chunk_size: "b \<in> set (chunks n xs) \<Longrightarrow> 0 < length b \<and> length b \<le> n"
  by (induction n xs rule: chunks.induct) (subst (asm) (2) chunks.simps, auto split: if_splits)

text \<open>A loop over chunks whose body distributes over concatenation is the loop over the list.\<close>

lemma foldl_chunks:
  assumes "0 < n" "\<And>a xs ys. f a (xs @ ys) = f (f a xs) ys" "\<And>a. f a [] = a"
  shows "foldl f a (chunks n xs) = f a xs"
proof -
  have "foldl f a bs = f a (concat bs)" for a bs
    by (induction bs arbitrary: a) (simp_all add: assms(2,3))
  then show ?thesis by (simp add: concat_chunks [OF assms(1)])
qed

lemma map_nth_upt_id: "n = length xs \<Longrightarrow> map (\<lambda>i. xs ! i) [0..<n] = xs"
  by (simp add: map_nth)

lemma foldl_map_commute: "foldl f a (map g xs) = foldl (\<lambda>a x. f a (g x)) a xs"
  by (induction xs arbitrary: a) auto

lemma distinct_map_subseq_set:
  "distinct (map f xs) \<Longrightarrow> x \<in> set xs \<Longrightarrow> y \<in> set xs \<Longrightarrow> f x = f y \<Longrightarrow> x = y"
  by (induction xs) (auto simp: image_iff)

end
