(* ===== verification/Field_Interpolation.thy ===== *)
theory Field_Interpolation
  imports Lcsas_Prelude
begin

text \<open>
  Lagrange interpolation over an arbitrary field, on point lists. The two facts the secret
  sharing rests on: the interpolant of \<open>n\<close> points is a polynomial function of degree below
  \<open>n\<close> through these points, and two such functions that agree on \<open>n\<close> distinct points are
  equal. Polynomials are coefficient lists, least significant coefficient first.
\<close>

section \<open>Polynomial functions\<close>

fun peval :: "'a::field list \<Rightarrow> 'a \<Rightarrow> 'a" where
  "peval [] x = 0"
| "peval (c # cs) x = c + x * peval cs x"

definition polyfun :: "nat \<Rightarrow> ('a::field \<Rightarrow> 'a) \<Rightarrow> bool" where
  "polyfun n f \<longleftrightarrow> (\<exists>cs. length cs \<le> n \<and> (\<forall>x. f x = peval cs x))"

lemma polyfunI: "length cs \<le> n \<Longrightarrow> (\<And>x. f x = peval cs x) \<Longrightarrow> polyfun n f"
  by (auto simp: polyfun_def)

lemma polyfun_mono: "polyfun n f \<Longrightarrow> n \<le> m \<Longrightarrow> polyfun m f"
  unfolding polyfun_def by (meson le_trans)

lemma polyfun_const: "polyfun (Suc n) (\<lambda>_. c)"
  by (rule polyfunI [where cs = "[c]"]) auto

lemma polyfun_zero: "polyfun n (\<lambda>_. 0)"
  by (rule polyfunI [where cs = "[]"]) auto

lemma peval_add:
  "\<exists>es. length es = max (length cs) (length ds) \<and>
     (\<forall>x::'a::field. peval es x = peval cs x + peval ds x)"
proof (induction cs arbitrary: ds)
  case Nil
  show ?case by (intro exI [of _ ds]) simp
next
  case (Cons c cs)
  show ?case
  proof (cases ds)
    case Nil
    then show ?thesis by (intro exI [of _ "c # cs"]) simp
  next
    case (Cons d ds')
    obtain es where "length es = max (length cs) (length ds')"
      and "\<forall>x. peval es x = peval cs x + peval ds' x"
      using Cons.IH [of ds'] by blast
    with Cons show ?thesis
      by (intro exI [of _ "(c + d) # es"]) (simp add: algebra_simps)
  qed
qed

lemma polyfun_add:
  assumes "polyfun n f" "polyfun n g" shows "polyfun n (\<lambda>x. f x + g x)"
proof -
  obtain cs ds where cs: "length cs \<le> n" "\<And>x. f x = peval cs x"
    and ds: "length ds \<le> n" "\<And>x. g x = peval ds x"
    using assms by (auto simp: polyfun_def)
  obtain es where "length es = max (length cs) (length ds)"
    and "\<forall>x. peval es x = peval cs x + peval ds x"
    using peval_add by blast
  with cs ds show ?thesis by (intro polyfunI [where cs = es]) auto
qed

lemma peval_smult:
  "peval (map ((*) c) cs) x = c * peval cs (x::'a::field)"
  by (induction cs) (auto simp: algebra_simps)

lemma polyfun_smult: "polyfun n f \<Longrightarrow> polyfun n (\<lambda>x. c * f x)"
  unfolding polyfun_def by (metis peval_smult length_map)

lemma polyfun_diff:
  assumes "polyfun n f" "polyfun n g" shows "polyfun n (\<lambda>x. f x - g x)"
  using polyfun_add [OF assms(1) polyfun_smult [OF assms(2), of "-1"]] by simp

lemma polyfun_shift: "polyfun n f \<Longrightarrow> polyfun (Suc n) (\<lambda>x. x * f x)"
  unfolding polyfun_def by (metis Suc_le_mono add_0 length_Cons peval.simps(2))

lemma polyfun_linear_mult:
  assumes "polyfun n f" shows "polyfun (Suc n) (\<lambda>x. (x - a) * f x)"
proof -
  have "polyfun (Suc n) (\<lambda>x. x * f x - a * f x)"
    by (intro polyfun_diff polyfun_shift polyfun_smult assms polyfun_mono [OF assms]) simp
  then show ?thesis by (simp add: algebra_simps)
qed

lemma polyfun_sum_list:
  "(\<And>p. p \<in> set ps \<Longrightarrow> polyfun n (F p)) \<Longrightarrow> polyfun n (\<lambda>x. \<Sum>p\<leftarrow>ps. F p x)"
  by (induction ps) (auto intro: polyfun_zero polyfun_add)

lemma polyfun_prod_list:
  "polyfun (Suc (length as)) (\<lambda>x. \<Prod>a\<leftarrow>as. c a * (x - g a))"
proof (induction as)
  case Nil
  show ?case by (simp add: polyfun_const)
next
  case (Cons a as)
  have "polyfun (Suc (length (a # as))) (\<lambda>x. c a * ((x - g a) * (\<Prod>a\<leftarrow>as. c a * (x - g a))))"
    using polyfun_smult [OF polyfun_linear_mult [OF Cons]] by simp
  then show ?case by (simp add: mult.assoc)
qed

section \<open>Uniqueness\<close>

text \<open>Synthetic division by \<open>x - a\<close>.\<close>

lemma peval_divide:
  "\<exists>q. length q = length cs - 1 \<and>
     (\<forall>x::'a::field. peval cs x = peval cs a + (x - a) * peval q x)"
proof (induction cs)
  case Nil
  show ?case by simp
next
  case (Cons c cs)
  then obtain q where len: "length q = length cs - 1"
    and q: "\<And>x. peval cs x = peval cs a + (x - a) * peval q x"
    by blast
  show ?case
  proof (cases cs)
    case Nil
    then show ?thesis by simp
  next
    case (Cons d ds)
    have "peval (c # cs) x =
        peval (c # cs) a + (x - a) * peval (peval cs a # q) x" for x
      by (simp add: q [of x] algebra_simps)
    moreover have "length (peval cs a # q) = length (c # cs) - 1"
      using len Cons by simp
    ultimately show ?thesis by blast
  qed
qed

lemma polyfun_root_factor:
  assumes "polyfun (Suc n) f" "f a = 0"
  shows "\<exists>q. polyfun n q \<and> (\<forall>x. f x = (x - a) * q x)"
proof -
  obtain cs where cs: "length cs \<le> Suc n" "\<And>x. f x = peval cs x"
    using assms(1) by (auto simp: polyfun_def)
  obtain q where "length q = length cs - 1"
    and "\<And>x. peval cs x = peval cs a + (x - a) * peval q x"
    using peval_divide [of cs a] by blast
  moreover from this cs(1) have "polyfun n (peval q)"
    by (intro polyfunI [where cs = q]) auto
  moreover have "peval cs a = 0" using cs(2) assms(2) by metis
  ultimately show ?thesis using cs(2) by (metis add_0)
qed

lemma polyfun_zero_if_roots:
  assumes "polyfun (length as) f" "distinct as" "\<And>a. a \<in> set as \<Longrightarrow> f a = 0"
  shows "f x = 0"
  using assms
proof (induction as arbitrary: f)
  case Nil
  then show ?case by (auto simp: polyfun_def)
next
  case (Cons a as)
  obtain q where q: "polyfun (length as) q" "\<And>x. f x = (x - a) * q x"
    using polyfun_root_factor [of "length as" f a] Cons.prems by auto
  have "q b = 0" if "b \<in> set as" for b
    using Cons.prems(2) Cons.prems(3) [of b] q(2) [of b] that by auto
  then have "q x = 0" using Cons.IH [OF q(1)] Cons.prems(2) by simp
  then show ?case by (simp add: q(2))
qed

lemma polyfun_unique:
  assumes "polyfun (length as) f" "polyfun (length as) g" "distinct as"
    and "\<And>a. a \<in> set as \<Longrightarrow> f a = g a"
  shows "f x = g x"
proof -
  have "f x - g x = 0"
    using polyfun_zero_if_roots [where f = "\<lambda>x. f x - g x" and as = as and x = x]
    by (simp add: assms polyfun_diff)
  then show ?thesis by simp
qed

section \<open>The Lagrange interpolant\<close>

definition lagrange :: "('a::field \<times> 'a) list \<Rightarrow> 'a \<Rightarrow> 'a" where
  "lagrange pts x =
     (\<Sum>p\<leftarrow>pts. snd p *
        (\<Prod>q\<leftarrow>filter (\<lambda>q. fst q \<noteq> fst p) pts. inverse (fst p - fst q) * (x - fst q)))"

lemma length_filter_other:
  "distinct (map f xs) \<Longrightarrow> p \<in> set xs \<Longrightarrow> Suc (length (filter (\<lambda>q. f q \<noteq> f p) xs)) = length xs"
proof (induction xs)
  case Nil
  then show ?case by simp
next
  case (Cons y ys)
  show ?case
  proof (cases "y = p")
    case True
    with Cons.prems have "\<forall>q \<in> set ys. f q \<noteq> f p" by (auto simp: image_iff)
    then have "filter (\<lambda>q. f q \<noteq> f p) ys = ys" by simp
    with True show ?thesis by simp
  next
    case False
    with Cons.prems have "p \<in> set ys" "f y \<noteq> f p" by force+
    with Cons show ?thesis by simp
  qed
qed

lemma polyfun_lagrange:
  assumes "distinct (map fst pts)" shows "polyfun (length pts) (lagrange pts)"
proof -
  have "polyfun (length pts) (\<lambda>x. snd p *
      (\<Prod>q\<leftarrow>filter (\<lambda>q. fst q \<noteq> fst p) pts. inverse (fst p - fst q) * (x - fst q)))"
    if p: "p \<in> set pts" for p
  proof -
    let ?qs = "filter (\<lambda>q. fst q \<noteq> fst p) pts"
    have "polyfun (Suc (length ?qs)) (\<lambda>x. \<Prod>q\<leftarrow>?qs. inverse (fst p - fst q) * (x - fst q))"
      by (rule polyfun_prod_list)
    then show ?thesis
      by (simp add: length_filter_other [OF assms p] polyfun_smult)
  qed
  then show ?thesis
    unfolding lagrange_def by (rule polyfun_sum_list)
qed

lemma prod_list_all_one: "\<forall>x \<in> set xs. x = 1 \<Longrightarrow> prod_list xs = (1 :: 'a::monoid_mult)"
  by (induction xs) auto

lemma sum_list_single:
  assumes "distinct (map fst ps)" "p \<in> set ps" "\<And>q. q \<in> set ps \<Longrightarrow> fst q \<noteq> fst p \<Longrightarrow> F q = 0"
  shows "(\<Sum>q\<leftarrow>ps. F q) = (F p :: 'a::comm_monoid_add)"
  using assms
proof (induction ps)
  case Nil
  then show ?case by simp
next
  case (Cons r rs)
  show ?case
  proof (cases "r = p")
    case True
    with Cons.prems have "\<forall>q \<in> set rs. F q = 0" by (auto simp: image_iff)
    then have "(\<Sum>q\<leftarrow>rs. F q) = 0" by (induction rs) auto
    with True show ?thesis by simp
  next
    case False
    with Cons.prems have "p \<in> set rs" by simp
    moreover from this Cons.prems(1) have "fst r \<noteq> fst p" by force
    ultimately show ?thesis using Cons by simp
  qed
qed

lemma lagrange_at_point:
  assumes "distinct (map fst pts)" "p \<in> set pts"
  shows "lagrange pts (fst p) = snd p"
proof -
  let ?F = "\<lambda>r. snd r *
      (\<Prod>q\<leftarrow>filter (\<lambda>q. fst q \<noteq> fst r) pts. inverse (fst r - fst q) * (fst p - fst q))"
  have zero: "?F r = 0" if "r \<in> set pts" "fst r \<noteq> fst p" for r
  proof -
    have "p \<in> set (filter (\<lambda>q. fst q \<noteq> fst r) pts)"
      using assms(2) that by simp
    then have "0 \<in> set (map (\<lambda>q. inverse (fst r - fst q) * (fst p - fst q))
                    (filter (\<lambda>q. fst q \<noteq> fst r) pts))"
      by (metis (no_types, lifting) diff_self image_eqI list.set_map mult_zero_right)
    then show ?thesis by (simp add: prod_list_zero_iff)
  qed
  have "lagrange pts (fst p) = ?F p"
    unfolding lagrange_def by (rule sum_list_single [OF assms]) (rule zero)
  also have "(\<Prod>q\<leftarrow>filter (\<lambda>q. fst q \<noteq> fst p) pts. inverse (fst p - fst q) * (fst p - fst q)) = 1"
    by (rule prod_list_all_one) auto
  finally show ?thesis by simp
qed

text \<open>Any \<open>n\<close> points of a polynomial function of degree below \<open>n\<close> determine it.\<close>

lemma lagrange_recovers:
  assumes "polyfun (length pts) f" "distinct (map fst pts)" "\<And>p. p \<in> set pts \<Longrightarrow> snd p = f (fst p)"
  shows "lagrange pts x = f x"
proof -
  have "lagrange pts a = f a" if "a \<in> set (map fst pts)" for a
  proof -
    from that obtain p where "p \<in> set pts" "a = fst p" by auto
    with lagrange_at_point [OF assms(2)] assms(3) show ?thesis by simp
  qed
  then show ?thesis
    using polyfun_unique [of "map fst pts" "lagrange pts" f x] polyfun_lagrange [OF assms(2)]
      assms(1,2) by simp
qed

end
