(* ===== verification/Gf256.thy ===== *)
theory Gf256
  imports Field_Interpolation
begin

unbundle bit_operations_syntax

text \<open>
  The Rijndael field GF(256) as \<open>keyshare/slip39.py\<close> computes in it: the exponential and
  logarithm tables are built by the loop of \<open>_precompute_exp_log\<close>, addition is exclusive or
  and multiplication adds logarithms modulo 255. The type \<open>gf256\<close> is a copy of the byte type
  on which these operations are shown to form a \<open>field\<close>, so that the library's algebra and
  the interpolation theory apply to the tables the code uses.
\<close>

section \<open>The tables of the source\<close>

definition next_poly :: "nat \<Rightarrow> nat" where
  "next_poly poly =
     (let p = push_bit 1 poly XOR poly in if p AND 0x100 \<noteq> 0 then p XOR 0x11B else p)"

definition precompute_step :: "nat \<Rightarrow> nat list \<times> nat list \<times> nat \<Rightarrow> nat list \<times> nat list \<times> nat" where
  "precompute_step i st =
     (case st of (exp, log, poly) \<Rightarrow> (exp[i := poly], log[poly := i], next_poly poly))"

definition precompute_exp_log :: "nat list \<times> nat list" where
  "precompute_exp_log =
     (case fold precompute_step [0..<255] (replicate 255 0, replicate 256 0, 1) of
        (exp, log, _) \<Rightarrow> (exp, log))"

definition EXP_TABLE :: "nat list" where
  "EXP_TABLE = fst precompute_exp_log"

definition LOG_TABLE :: "nat list" where
  "LOG_TABLE = snd precompute_exp_log"

lemma precompute_step_eq:
  "precompute_step i (exp, log, poly) = (exp[i := poly], log[poly := i], next_poly poly)"
  by (simp add: precompute_step_def)

section \<open>Powers of the generator\<close>

text \<open>The loop variable after \<open>i\<close> iterations.\<close>

definition gpow :: "nat \<Rightarrow> nat" where
  "gpow i = (next_poly ^^ i) 1"

lemma gpow_0 [simp]: "gpow 0 = 1"
  by (simp add: gpow_def)

lemma gpow_Suc: "gpow (Suc i) = next_poly (gpow i)"
  by (simp add: gpow_def)

lemma funpow_numeral_unfold: "(f ^^ numeral k) x = (f ^^ pred_numeral k) (f x)"
  by (simp add: numeral_eq_Suc funpow_swap1)

text \<open>The same step on bytes, where it is linear over exclusive or.\<close>

definition gstep :: "byte \<Rightarrow> byte" where
  "gstep w = push_bit 1 w XOR w XOR (if bit w 7 then 0x1B else 0)"

lemma gstep_xor: "gstep (a XOR b) = gstep a XOR gstep b"
  by (auto simp: gstep_def bit_xor_iff push_bit_xor xor.assoc xor.left_commute xor.commute)

lemma gstep_0 [simp]: "gstep 0 = 0"
  by (simp add: gstep_def)

lemma funpow_gstep_xor: "(gstep ^^ n) (a XOR b) = (gstep ^^ n) a XOR (gstep ^^ n) b"
  by (induction n) (simp_all add: gstep_xor)

lemma funpow_gstep_0 [simp]: "(gstep ^^ n) 0 = 0"
  by (induction n) simp_all

text \<open>The step of the loop agrees with the step on bytes: a check of the 256 values.\<close>

lemma next_poly_table:
  "list_all (\<lambda>p. next_poly p < 256 \<and> of_nat (next_poly p) = gstep (of_nat p)) [2..<256]"
  by (simp add: next_poly_def gstep_def upt_rec_numeral)

lemma next_poly_0: "next_poly 0 = 0" and next_poly_1: "next_poly 1 = 3"
  by (simp_all add: next_poly_def)

lemma next_poly_byte:
  assumes "p < 256" shows "next_poly p < 256 \<and> of_nat (next_poly p) = gstep (of_nat p)"
proof -
  consider "p = 0" | "p = 1" | "2 \<le> p" by linarith
  then show ?thesis
  proof cases
    case 3
    then show ?thesis using list_all_uptD [OF next_poly_table] assms by blast
  qed (simp_all add: next_poly_0 next_poly_1 [simplified] gstep_def)
qed

lemmas next_poly_less = next_poly_byte [THEN conjunct1]
lemmas of_nat_next_poly = next_poly_byte [THEN conjunct2]

lemma gpow_less: "gpow i < 256"
  by (induction i) (simp_all add: gpow_Suc next_poly_less)

lemma of_nat_gpow: "of_nat (gpow i) = (gstep ^^ i) 1"
  by (induction i) (simp_all add: gpow_Suc of_nat_next_poly gpow_less)

lemma gpow_255: "gpow 255 = 1"
  by (simp add: gpow_def next_poly_def funpow_numeral_unfold)

lemma funpow_gstep_255: "(gstep ^^ 255) 1 = 1"
  using of_nat_gpow [of 255] by (simp add: gpow_255)

lemma gpow_maximal_divisors: "gpow 85 \<noteq> 1" "gpow 51 \<noteq> 1" "gpow 15 \<noteq> 1"
  by (simp_all add: gpow_def next_poly_def funpow_numeral_unfold)

text \<open>The generator has order 255: its period divides 255 and no maximal proper divisor.\<close>

lemma funpow_period_mult: "(f ^^ n) x = x \<Longrightarrow> (f ^^ (n * k)) x = x"
  by (induction k) (simp_all add: funpow_add)

lemma funpow_period_gcd:
  assumes "(f ^^ m) x = x" "(f ^^ n) x = x" "m \<noteq> 0"
  shows "(f ^^ gcd m n) x = x"
proof -
  obtain a b where ab: "m * a = n * b + gcd m n"
    using bezout_nat [OF assms(3), of n] by blast
  have "x = (f ^^ (m * a)) x"
    using funpow_period_mult [OF assms(1)] by simp
  also have "m * a = gcd m n + n * b" using ab by simp
  also have "(f ^^ (gcd m n + n * b)) x = (f ^^ gcd m n) ((f ^^ (n * b)) x)"
    by (simp add: funpow_add)
  finally show ?thesis
    using funpow_period_mult [OF assms(2)] by simp
qed

lemma proper_divisor_255:
  assumes "g dvd (255 :: nat)" "g < 255" shows "g dvd 85 \<or> g dvd 51 \<or> g dvd 15"
proof -
  have "list_all (\<lambda>g. 255 mod g = 0 \<longrightarrow> 85 mod g = 0 \<or> 51 mod g = 0 \<or> 15 mod g = (0 :: nat)) [2..<255]"
    by simp
  from list_all_uptD [OF this, of g] assms show ?thesis
    by (cases "2 \<le> g") (auto simp: dvd_eq_mod_eq_0 not_le less_2_cases_iff)
qed

lemma gstep_order:
  assumes "0 < d" "d < 255" shows "(gstep ^^ d) 1 \<noteq> 1"
proof
  assume d: "(gstep ^^ d) 1 = 1"
  let ?g = "gcd d 255"
  have g: "(gstep ^^ ?g) 1 = 1"
    using funpow_period_gcd [OF d funpow_gstep_255] assms by simp
  have "?g < 255" using assms gcd_le1_nat [of d 255] by linarith
  then have "?g dvd 85 \<or> ?g dvd 51 \<or> ?g dvd 15"
    by (intro proper_divisor_255) auto
  moreover have "(gstep ^^ m) 1 = 1" if "?g dvd m" for m
    using funpow_period_mult [OF g] that by (metis dvd_def)
  ultimately have "gpow 85 = 1 \<or> gpow 51 = 1 \<or> gpow 15 = 1"
    using gpow_less of_nat_gpow by (metis unat_1 unat_of_nat_byte)
  then show False using gpow_maximal_divisors by blast
qed

lemma funpow_gstep_mod: "(gstep ^^ (n mod 255)) 1 = (gstep ^^ n) 1"
proof -
  have "(gstep ^^ n) 1 = (gstep ^^ (n mod 255 + 255 * (n div 255))) 1" by simp
  also have "\<dots> = (gstep ^^ (n mod 255)) 1"
    unfolding funpow_add comp_def by (simp add: funpow_period_mult [OF funpow_gstep_255])
  finally show ?thesis ..
qed

lemma funpow_gstep_inj:
  assumes "i < 255" "j < 255" "(gstep ^^ i) 1 = (gstep ^^ j) 1" shows "i = j"
  using assms
proof (induction i j rule: linorder_wlog)
  case (le i j)
  have "(gstep ^^ (255 - i + i)) 1 = (gstep ^^ (255 - i + j)) 1"
    unfolding funpow_add comp_def using le by simp
  also have "255 - i + j = (j - i) + 255" using le by simp
  also have "(gstep ^^ \<dots>) 1 = (gstep ^^ (j - i)) 1"
    unfolding funpow_add comp_def funpow_gstep_255 ..
  also have "255 - i + i = 255" using le by simp
  finally have "(gstep ^^ (j - i)) 1 = 1"
    unfolding funpow_gstep_255 ..
  with gstep_order [of "j - i"] le show ?case by fastforce
next
  case (sym i j)
  then show ?case by simp
qed

lemma gpow_inj: "i < 255 \<Longrightarrow> j < 255 \<Longrightarrow> gpow i = gpow j \<Longrightarrow> i = j"
  using funpow_gstep_inj of_nat_gpow by metis

lemma gpow_nonzero: "gpow i \<noteq> 0"
proof
  assume "gpow i = 0"
  then have "(gstep ^^ (i mod 255)) 1 = 0"
    using of_nat_gpow [of i] by (simp add: funpow_gstep_mod)
  then have "(gstep ^^ (255 - i mod 255 + i mod 255)) 1 = 0"
    unfolding funpow_add comp_def by simp
  then show False using funpow_gstep_255 by simp
qed

section \<open>The tables hold powers and logarithms\<close>

lemma fold_precompute:
  assumes "k \<le> 255"
  shows "\<exists>lg. fold precompute_step [0..<k] (replicate 255 0, replicate 256 0, 1) =
           (map gpow [0..<k] @ replicate (255 - k) 0, lg, gpow k) \<and>
         length lg = 256 \<and> lg ! 0 = 0 \<and> (\<forall>j < k. lg ! gpow j = j)"
  using assms
proof (induction k)
  case 0
  show ?case by simp
next
  case (Suc k)
  then obtain lg where fold: "fold precompute_step [0..<k] (replicate 255 0, replicate 256 0, 1) =
        (map gpow [0..<k] @ replicate (255 - k) 0, lg, gpow k)"
    and lg: "length lg = 256" "lg ! 0 = 0" "\<forall>j < k. lg ! gpow j = j"
    by auto
  have upd: "(map gpow [0..<k] @ replicate (255 - k) 0)[k := gpow k] =
      map gpow [0..<Suc k] @ replicate (255 - Suc k) 0"
  proof -
    have "replicate (255 - k) (0::nat) = 0 # replicate (255 - Suc k) 0"
      using Suc.prems by (simp add: Suc_diff_le flip: replicate_Suc)
    then show ?thesis by (simp add: list_update_append)
  qed
  have "lg[gpow k := k] ! gpow j = j" if "j < Suc k" for j
    using that lg Suc.prems gpow_inj [of j k] gpow_less [of k]
    by (cases "j = k") (auto simp: nth_list_update)
  moreover have "lg[gpow k := k] ! 0 = 0"
    using lg gpow_nonzero [of k] by (simp add: nth_list_update)
  ultimately show ?case
    using fold upd lg by (auto simp: precompute_step_eq gpow_Suc)
qed

lemma EXP_TABLE_eq: "EXP_TABLE = map gpow [0..<255]"
  and LOG_TABLE_props: "length LOG_TABLE = 256" "LOG_TABLE ! 0 = 0"
    "\<And>j. j < 255 \<Longrightarrow> LOG_TABLE ! gpow j = j"
  using fold_precompute [of 255]
  by (auto simp: EXP_TABLE_def LOG_TABLE_def precompute_exp_log_def)

lemma gpow_surj:
  assumes "b \<noteq> 0" "b < 256" shows "\<exists>j < 255. gpow j = b"
proof -
  have inj: "inj_on gpow {0..<255}"
    by (rule inj_onI) (simp add: gpow_inj)
  have "gpow ` {0..<255} \<subseteq> {1..<256}"
    using gpow_less gpow_nonzero by (auto simp: Suc_le_eq)
  moreover have "card (gpow ` {0..<255}) = card {1..<256::nat}"
    by (simp add: card_image [OF inj])
  ultimately have "gpow ` {0..<255} = {1..<256}"
    by (intro card_subset_eq) auto
  then have "b \<in> gpow ` {0..<255}" using assms by auto
  then show ?thesis by auto
qed

text \<open>Table lookups at a byte and at an exponent.\<close>

definition blog :: "byte \<Rightarrow> nat" where
  "blog b = LOG_TABLE ! unat b"

definition bexp :: "nat \<Rightarrow> byte" where
  "bexp i = of_nat (EXP_TABLE ! i)"

lemma bexp_eq: "i < 255 \<Longrightarrow> bexp i = (gstep ^^ i) 1"
  by (simp add: bexp_def EXP_TABLE_eq of_nat_gpow)

lemma bexp_mod: "bexp (i mod 255) = (gstep ^^ i) 1"
  by (simp add: bexp_eq funpow_gstep_mod)

lemma bexp_nonzero: "i < 255 \<Longrightarrow> bexp i \<noteq> 0"
  using gpow_nonzero gpow_less
  by (metis bexp_eq of_nat_gpow unat_0 unat_of_nat_byte)

lemma blog_0 [simp]: "blog 0 = 0"
  by (simp add: blog_def LOG_TABLE_props)

lemma blog_bexp: "i < 255 \<Longrightarrow> blog (bexp i) = i"
  using LOG_TABLE_props(3) [of i] gpow_less [of i]
  by (simp add: blog_def bexp_def EXP_TABLE_eq unat_of_nat_byte)

lemma byte_power:
  assumes "b \<noteq> 0" shows "blog b < 255 \<and> bexp (blog b) = b"
proof -
  obtain j where j: "j < 255" "gpow j = unat b"
    using gpow_surj [of "unat b"] assms by (auto simp: unat_eq_0)
  then have "b = bexp j" by (simp add: bexp_eq flip: of_nat_gpow)
  with j blog_bexp show ?thesis by simp
qed

lemmas blog_less = byte_power [THEN conjunct1]
lemmas bexp_blog = byte_power [THEN conjunct2]

section \<open>Multiplication\<close>

text \<open>The product as the source forms it: sum of logarithms modulo 255, zero apart.\<close>

definition byte_mul :: "byte \<Rightarrow> byte \<Rightarrow> byte" where
  "byte_mul a b = (if a = 0 \<or> b = 0 then 0 else bexp ((blog a + blog b) mod 255))"

definition byte_inv :: "byte \<Rightarrow> byte" where
  "byte_inv a = (if a = 0 then 0 else bexp ((255 - blog a) mod 255))"

lemma byte_mul_0 [simp]: "byte_mul 0 b = 0" "byte_mul a 0 = 0"
  by (simp_all add: byte_mul_def)

lemma byte_mul_commute: "byte_mul a b = byte_mul b a"
  by (simp add: byte_mul_def add.commute)

lemma byte_mul_nonzero: "a \<noteq> 0 \<Longrightarrow> b \<noteq> 0 \<Longrightarrow> byte_mul a b \<noteq> 0"
  by (simp add: byte_mul_def bexp_nonzero)

lemma blog_byte_mul:
  "a \<noteq> 0 \<Longrightarrow> b \<noteq> 0 \<Longrightarrow> blog (byte_mul a b) = (blog a + blog b) mod 255"
  by (simp add: byte_mul_def blog_bexp)

lemma byte_mul_assoc: "byte_mul (byte_mul a b) c = byte_mul a (byte_mul b c)"
proof (cases "a = 0 \<or> b = 0 \<or> c = 0")
  case True
  then show ?thesis by auto
next
  case False
  then have "byte_mul (byte_mul a b) c = bexp ((blog a + blog b + blog c) mod 255)"
    and "byte_mul a (byte_mul b c) = bexp ((blog a + blog b + blog c) mod 255)"
    using byte_mul_def [of "byte_mul a b" c] byte_mul_def [of a "byte_mul b c"]
    by (simp_all add: byte_mul_nonzero blog_byte_mul mod_simps add.assoc)
  then show ?thesis by simp
qed

text \<open>Multiplication by a fixed non-zero byte iterates the linear step.\<close>

lemma byte_mul_funpow:
  assumes "a \<noteq> 0" shows "byte_mul a b = (gstep ^^ blog a) b"
proof (cases "b = 0")
  case True
  then show ?thesis by simp
next
  case False
  then have "(gstep ^^ blog a) b = (gstep ^^ blog a) ((gstep ^^ blog b) 1)"
    using bexp_blog [OF False] blog_less [OF False] by (simp add: bexp_eq)
  also have "\<dots> = bexp ((blog a + blog b) mod 255)"
    by (simp add: bexp_mod funpow_add)
  finally show ?thesis using assms False by (simp add: byte_mul_def)
qed

lemma byte_mul_xor: "byte_mul a (b XOR c) = byte_mul a b XOR byte_mul a c"
  by (cases "a = 0") (simp_all add: byte_mul_funpow funpow_gstep_xor)

lemma blog_1 [simp]: "blog 1 = 0"
  using blog_bexp [of 0] by (simp add: bexp_eq)

lemma byte_mul_1: "byte_mul 1 b = b"
  by (simp add: byte_mul_funpow)

lemma byte_mul_inv: "a \<noteq> 0 \<Longrightarrow> byte_mul (byte_inv a) a = 1"
proof -
  assume a: "a \<noteq> 0"
  let ?i = "(255 - blog a) mod 255"
  have "byte_mul (byte_inv a) a = bexp ((?i + blog a) mod 255)"
    using a by (simp add: byte_inv_def byte_mul_def bexp_nonzero blog_bexp)
  also have "(?i + blog a) mod 255 = 0"
    using blog_less [OF a] by (simp add: mod_simps)
  finally show ?thesis by (simp add: bexp_eq)
qed

lemma blog_byte_inv: "a \<noteq> 0 \<Longrightarrow> blog (byte_inv a) = (255 - blog a) mod 255"
  by (simp add: byte_inv_def blog_bexp)

lemma byte_inv_nonzero: "a \<noteq> 0 \<Longrightarrow> byte_inv a \<noteq> 0"
  by (simp add: byte_inv_def bexp_nonzero)

section \<open>The field\<close>

typedef gf256 = "UNIV :: byte set"
  morphisms byte_of_gf gf_of_byte ..

setup_lifting type_definition_gf256

instantiation gf256 :: field
begin

lift_definition zero_gf256 :: gf256 is "0 :: byte" .
lift_definition one_gf256 :: gf256 is "1 :: byte" .
lift_definition plus_gf256 :: "gf256 \<Rightarrow> gf256 \<Rightarrow> gf256" is "(XOR)" .
lift_definition minus_gf256 :: "gf256 \<Rightarrow> gf256 \<Rightarrow> gf256" is "(XOR)" .
lift_definition uminus_gf256 :: "gf256 \<Rightarrow> gf256" is "\<lambda>b :: byte. b" .
lift_definition times_gf256 :: "gf256 \<Rightarrow> gf256 \<Rightarrow> gf256" is byte_mul .
lift_definition inverse_gf256 :: "gf256 \<Rightarrow> gf256" is byte_inv .
lift_definition divide_gf256 :: "gf256 \<Rightarrow> gf256 \<Rightarrow> gf256"
  is "\<lambda>a b. byte_mul a (byte_inv b)" .

instance
proof
  fix a b c :: gf256
  show "a + b + c = a + (b + c)" by transfer (simp add: xor.assoc)
  show "a + b = b + a" by transfer (simp add: xor.commute)
  show "0 + a = a" by transfer simp
  show "- a + a = 0" by transfer simp
  show "a - b = a + - b" by transfer simp
  show "a * b * c = a * (b * c)" by transfer (rule byte_mul_assoc)
  show "a * b = b * a" by transfer (rule byte_mul_commute)
  show "1 * a = a" by transfer (rule byte_mul_1)
  show "(a + b) * c = a * c + b * c"
    by transfer (metis byte_mul_commute byte_mul_xor)
  show "(0 :: gf256) \<noteq> 1" by transfer simp
  show "a \<noteq> 0 \<Longrightarrow> inverse a * a = 1" by transfer (rule byte_mul_inv)
  show "a div b = a * inverse b" by transfer simp
  show "inverse (0 :: gf256) = 0" by transfer (simp add: byte_inv_def)
qed

end

lemma gf_of_byte_inject [simp]: "gf_of_byte a = gf_of_byte b \<longleftrightarrow> a = b"
  by (simp add: gf_of_byte_inject)

lemma gf_of_byte_byte_of_gf [simp]: "gf_of_byte (byte_of_gf x) = x"
  by (rule byte_of_gf_inverse)

lemma byte_of_gf_gf_of_byte [simp]: "byte_of_gf (gf_of_byte b) = b"
  by (simp add: gf_of_byte_inverse)

lemma gf_of_byte_eq_0 [simp]: "gf_of_byte b = 0 \<longleftrightarrow> b = 0"
  by (simp add: zero_gf256_def)

lemma gf_of_byte_xor: "gf_of_byte (a XOR b) = gf_of_byte a + gf_of_byte b"
  by (simp add: plus_gf256.abs_eq)

lemma gf_minus_eq_plus: "(a :: gf256) - b = a + b"
  by transfer simp

lemma gf_of_byte_mul: "gf_of_byte (byte_mul a b) = gf_of_byte a * gf_of_byte b"
  by (simp add: times_gf256.abs_eq)

lemma gf_of_byte_inv: "gf_of_byte (byte_inv a) = inverse (gf_of_byte a)"
  by (simp add: inverse_gf256.abs_eq)

text \<open>Adding logarithms multiplies: the form the interpolation code uses.\<close>

definition glog :: "gf256 \<Rightarrow> nat" where
  "glog x = blog (byte_of_gf x)"

definition gexp :: "int \<Rightarrow> gf256" where
  "gexp i = gf_of_byte (bexp (nat (i mod 255)))"

lemma gexp_glog: "x \<noteq> 0 \<Longrightarrow> gexp (int (glog x)) = x"
proof -
  assume "x \<noteq> 0"
  then have b: "byte_of_gf x \<noteq> 0" by (metis byte_of_gf_inverse gf_of_byte_eq_0)
  then have "int (glog x) mod 255 = int (glog x)"
    using blog_less [OF b] by (simp add: glog_def)
  then show ?thesis
    using bexp_blog [OF b] by (simp add: gexp_def glog_def)
qed

lemma gexp_add: "gexp (i + j) = gexp i * gexp j"
proof -
  let ?a = "nat (i mod 255)" and ?b = "nat (j mod 255)"
  have "nat ((i + j) mod 255) = (?a + ?b) mod 255"
    by (metis (no_types) mod_add_eq nat_add_distrib nat_mod_distrib nat_numeral
        pos_mod_sign zero_less_numeral zero_le_numeral add_nonneg_nonneg)
  moreover have "?a < 255" "?b < 255" by simp_all
  ultimately show ?thesis
    by (simp add: gexp_def gf_of_byte_mul [symmetric] byte_mul_def bexp_nonzero blog_bexp)
qed

lemma gexp_0 [simp]: "gexp 0 = 1"
  by (simp add: gexp_def bexp_eq one_gf256_def)

lemma gexp_minus: "gexp (- i) = inverse (gexp i)"
  using gexp_add [of i "- i"] by (simp add: inverse_unique)

lemma gexp_sum_list: "gexp (\<Sum>x\<leftarrow>xs. f x) = (\<Prod>x\<leftarrow>xs. gexp (f x))"
  by (induction xs) (simp_all add: gexp_add)

end
