(* ===== verification/Sha256.thy ===== *)
theory Sha256
  imports Lcsas_Prelude
begin

unbundle bit_operations_syntax

text \<open>
  The functions of Python's standard library that the sources call for hashing:
  \<open>hashlib.sha256\<close> (FIPS 180-4), \<open>hmac\<close> over it (RFC 2104) and \<open>hashlib.pbkdf2_hmac\<close>
  (RFC 8018), as executable definitions on byte lists. The development uses of them that they
  are functions with results of a fixed length.
\<close>

type_synonym word32 = "32 word"

section \<open>SHA-256\<close>

definition SHA256_K :: "word32 list" where
  "SHA256_K =
     [0x428a2f98, 0x71374491, 0xb5c0fbcf, 0xe9b5dba5, 0x3956c25b, 0x59f111f1, 0x923f82a4, 0xab1c5ed5,
      0xd807aa98, 0x12835b01, 0x243185be, 0x550c7dc3, 0x72be5d74, 0x80deb1fe, 0x9bdc06a7, 0xc19bf174,
      0xe49b69c1, 0xefbe4786, 0x0fc19dc6, 0x240ca1cc, 0x2de92c6f, 0x4a7484aa, 0x5cb0a9dc, 0x76f988da,
      0x983e5152, 0xa831c66d, 0xb00327c8, 0xbf597fc7, 0xc6e00bf3, 0xd5a79147, 0x06ca6351, 0x14292967,
      0x27b70a85, 0x2e1b2138, 0x4d2c6dfc, 0x53380d13, 0x650a7354, 0x766a0abb, 0x81c2c92e, 0x92722c85,
      0xa2bfe8a1, 0xa81a664b, 0xc24b8b70, 0xc76c51a3, 0xd192e819, 0xd6990624, 0xf40e3585, 0x106aa070,
      0x19a4c116, 0x1e376c08, 0x2748774c, 0x34b0bcb5, 0x391c0cb3, 0x4ed8aa4a, 0x5b9cca4f, 0x682e6ff3,
      0x748f82ee, 0x78a5636f, 0x84c87814, 0x8cc70208, 0x90befffa, 0xa4506ceb, 0xbef9a3f7, 0xc67178f2]"

definition SHA256_H0 :: "word32 list" where
  "SHA256_H0 =
     [0x6a09e667, 0xbb67ae85, 0x3c6ef372, 0xa54ff53a, 0x510e527f, 0x9b05688c, 0x1f83d9ab, 0x5be0cd19]"

definition small_sigma0 :: "word32 \<Rightarrow> word32" where
  "small_sigma0 x = word_rotr 7 x XOR word_rotr 18 x XOR drop_bit 3 x"

definition small_sigma1 :: "word32 \<Rightarrow> word32" where
  "small_sigma1 x = word_rotr 17 x XOR word_rotr 19 x XOR drop_bit 10 x"

definition big_sigma0 :: "word32 \<Rightarrow> word32" where
  "big_sigma0 x = word_rotr 2 x XOR word_rotr 13 x XOR word_rotr 22 x"

definition big_sigma1 :: "word32 \<Rightarrow> word32" where
  "big_sigma1 x = word_rotr 6 x XOR word_rotr 11 x XOR word_rotr 25 x"

definition sha_schedule :: "word32 list \<Rightarrow> word32 list" where
  "sha_schedule ws =
     fold (\<lambda>t w. w @ [small_sigma1 (w ! (t - 2)) + w ! (t - 7) + small_sigma0 (w ! (t - 15)) + w ! (t - 16)])
       [16..<64] ws"

fun sha_round :: "word32 \<times> word32 \<Rightarrow> word32 list \<Rightarrow> word32 list" where
  "sha_round (k, w) [a, b, c, d, e, f, g, h] =
     (let t1 = h + big_sigma1 e + ((e AND f) XOR (NOT e AND g)) + k + w;
          t2 = big_sigma0 a + ((a AND b) XOR (a AND c) XOR (b AND c))
      in [t1 + t2, a, b, c, d + t1, e, f, g])"
| "sha_round _ st = st"

definition sha_compress :: "word32 list \<Rightarrow> word32 list \<Rightarrow> word32 list" where
  "sha_compress block hs =
     map2 (+) hs (fold sha_round (zip SHA256_K (sha_schedule block)) hs)"

definition word32_of_bytes :: "bytes \<Rightarrow> word32" where
  "word32_of_bytes bs = of_nat (int_from_bytes_be bs)"

definition bytes_of_word32 :: "word32 \<Rightarrow> bytes" where
  "bytes_of_word32 w = map (\<lambda>i. ucast (drop_bit (8 * i) w)) [3, 2, 1, 0]"

definition sha_pad :: "bytes \<Rightarrow> bytes" where
  "sha_pad m =
     m @ [0x80] @ replicate ((119 - length m mod 64) mod 64) 0 @
     map of_nat (digits_be 256 8 (8 * length m))"

definition sha256 :: "bytes \<Rightarrow> bytes" where
  "sha256 m =
     concat (map bytes_of_word32
       (foldl (\<lambda>hs block. sha_compress (map word32_of_bytes (chunks 4 block)) hs)
          SHA256_H0 (chunks 64 (sha_pad m))))"

lemma length_sha_round [simp]: "length (sha_round kw st) = length st"
  by (induction kw st rule: sha_round.induct) (auto simp: Let_def)

lemma length_fold_sha_round: "length (fold sha_round kws st) = length st"
  by (induction kws arbitrary: st) auto

lemma length_sha_compress: "length (sha_compress block hs) = length hs"
  by (simp add: sha_compress_def length_fold_sha_round)

lemma length_bytes_of_word32 [simp]: "length (bytes_of_word32 w) = 4"
  by (simp add: bytes_of_word32_def)

lemma length_foldl_compress:
  "length (foldl (\<lambda>hs block. sha_compress (f block) hs) hs blocks) = length hs"
  by (induction blocks arbitrary: hs) (simp_all add: length_sha_compress)

lemma length_concat_const: "(\<And>x. x \<in> set xs \<Longrightarrow> length (f x) = k) \<Longrightarrow> length (concat (map f xs)) = k * length xs"
  by (induction xs) auto

lemma length_sha256 [simp]: "length (sha256 m) = 32"
  by (simp add: sha256_def length_concat_const [where k = 4] length_foldl_compress SHA256_H0_def)

section \<open>HMAC and PBKDF2\<close>

definition hmac_sha256 :: "bytes \<Rightarrow> bytes \<Rightarrow> bytes" where
  "hmac_sha256 key msg =
     (let k = (if length key > 64 then sha256 key else key);
          k = k @ replicate (64 - length k) 0
      in sha256 (map (\<lambda>b. b XOR 0x5C) k @ sha256 (map (\<lambda>b. b XOR 0x36) k @ msg)))"

lemma length_hmac_sha256 [simp]: "length (hmac_sha256 key msg) = 32"
  by (simp add: hmac_sha256_def Let_def)

text \<open>One block of PBKDF2: the exclusive or of the iterated MACs.\<close>

fun pbkdf2_iterate :: "bytes \<Rightarrow> nat \<Rightarrow> bytes \<Rightarrow> bytes \<Rightarrow> bytes" where
  "pbkdf2_iterate pw 0 u acc = acc"
| "pbkdf2_iterate pw (Suc n) u acc =
     (let u' = hmac_sha256 pw u in pbkdf2_iterate pw n u' (map2 (XOR) acc u'))"

definition pbkdf2_block :: "bytes \<Rightarrow> bytes \<Rightarrow> nat \<Rightarrow> nat \<Rightarrow> bytes" where
  "pbkdf2_block pw salt iterations i =
     (let u = hmac_sha256 pw (salt @ map of_nat (digits_be 256 4 i))
      in pbkdf2_iterate pw (iterations - 1) u u)"

definition pbkdf2_hmac_sha256 :: "bytes \<Rightarrow> bytes \<Rightarrow> nat \<Rightarrow> nat \<Rightarrow> bytes" where
  "pbkdf2_hmac_sha256 pw salt iterations dklen =
     take dklen (concat (map (pbkdf2_block pw salt iterations) [1..<Suc ((dklen + 31) div 32)]))"

lemma length_pbkdf2_iterate: "length acc = 32 \<Longrightarrow> length (pbkdf2_iterate pw n u acc) = 32"
  by (induction pw n u acc rule: pbkdf2_iterate.induct) (simp_all add: Let_def)

lemma length_pbkdf2_block: "length (pbkdf2_block pw salt iterations i) = 32"
  by (simp add: pbkdf2_block_def Let_def length_pbkdf2_iterate)

lemma length_pbkdf2_hmac_sha256 [simp]:
  "length (pbkdf2_hmac_sha256 pw salt iterations dklen) = dklen"
proof -
  have "dklen \<le> 32 * ((dklen + 31) div 32)"
    using div_mult_mod_eq [of "dklen + 31" 32] mod_less_divisor [of 32 "dklen + 31"] by linarith
  then show ?thesis
    by (simp add: pbkdf2_hmac_sha256_def length_concat_const [where k = 32] length_pbkdf2_block)
qed

end
