(* ===== verification/Py_Text.thy ===== *)
theory Py_Text
  imports Lcsas_Prelude
begin

text \<open>
  The string operations of Python the sources use, on \<open>string\<close> (a \<open>char list\<close>): a character
  stands for the code point of the same number, so the model covers text of the code points
  0--255; the SLIP-0039 words, labels, names and catalog columns are ASCII.
\<close>

section \<open>Character classes\<close>

definition code :: "char \<Rightarrow> nat" where
  "code c = of_char c"

text \<open>\<open>str.isspace\<close> on the code points 0--255.\<close>

definition is_space :: "char \<Rightarrow> bool" where
  "is_space c \<longleftrightarrow> (9 \<le> code c \<and> code c \<le> 13) \<or> (28 \<le> code c \<and> code c \<le> 32) \<or>
     code c = 133 \<or> code c = 160"

text \<open>\<open>str.lower\<close> on the code points 0--255.\<close>

definition lower_char :: "char \<Rightarrow> char" where
  "lower_char c =
     (if (65 \<le> code c \<and> code c \<le> 90) \<or> (192 \<le> code c \<and> code c \<le> 222 \<and> code c \<noteq> 215)
      then char_of (code c + 32) else c)"

definition py_lower :: "string \<Rightarrow> string" where
  "py_lower s = map lower_char s"

section \<open>Splitting and joining\<close>

text \<open>\<open>s.split()\<close>: maximal runs without white space.\<close>

fun split_ws :: "string \<Rightarrow> string \<Rightarrow> string list" where
  "split_ws cur [] = (if cur = [] then [] else [rev cur])"
| "split_ws cur (c # cs) =
     (if is_space c then (if cur = [] then split_ws [] cs else rev cur # split_ws [] cs)
      else split_ws (c # cur) cs)"

definition py_split :: "string \<Rightarrow> string list" where
  "py_split s = split_ws [] s"

text \<open>\<open>sep.join(parts)\<close>.\<close>

fun py_join :: "string \<Rightarrow> string list \<Rightarrow> string" where
  "py_join sep [] = []"
| "py_join sep [w] = w"
| "py_join sep (w # ws) = w @ sep @ py_join sep ws"

text \<open>\<open>s.split(sep)\<close> for a one-character separator.\<close>

fun split_char :: "char \<Rightarrow> string \<Rightarrow> string \<Rightarrow> string list" where
  "split_char sep cur [] = [rev cur]"
| "split_char sep cur (c # cs) =
     (if c = sep then rev cur # split_char sep [] cs else split_char sep (c # cur) cs)"

definition py_split_on :: "char \<Rightarrow> string \<Rightarrow> string list" where
  "py_split_on sep s = split_char sep [] s"

text \<open>\<open>s.splitlines()\<close>: line boundaries are those of the code points 0--255, and a carriage
  return followed by a line feed is one boundary.\<close>

definition is_line_end :: "char \<Rightarrow> bool" where
  "is_line_end c \<longleftrightarrow> (10 \<le> code c \<and> code c \<le> 13) \<or> (28 \<le> code c \<and> code c \<le> 30) \<or> code c = 133"

fun splitlines_aux :: "string \<Rightarrow> string \<Rightarrow> string list" where
  "splitlines_aux cur [] = (if cur = [] then [] else [rev cur])"
| "splitlines_aux cur [c] = (if is_line_end c then [rev cur] else [rev (c # cur)])"
| "splitlines_aux cur (c # d # cs) =
     (if code c = 13 \<and> code d = 10 then rev cur # splitlines_aux [] cs
      else if is_line_end c then rev cur # splitlines_aux [] (d # cs)
      else splitlines_aux (c # cur) (d # cs))"

definition py_splitlines :: "string \<Rightarrow> string list" where
  "py_splitlines s = splitlines_aux [] s"

text \<open>\<open>s.strip()\<close> and \<open>s.startswith(p)\<close>.\<close>

definition py_strip :: "string \<Rightarrow> string" where
  "py_strip s = rev (dropWhile is_space (rev (dropWhile is_space s)))"

definition starts_with :: "string \<Rightarrow> string \<Rightarrow> bool" where
  "starts_with s p \<longleftrightarrow> take (length p) s = p"

text \<open>\<open>sub in s\<close>.\<close>

fun contains_sub :: "string \<Rightarrow> string \<Rightarrow> bool" where
  "contains_sub sub [] = (sub = [])"
| "contains_sub sub (c # cs) = (starts_with (c # cs) sub \<or> contains_sub sub cs)"

section \<open>Facts\<close>

definition lower_letters :: "string \<Rightarrow> bool" where
  "lower_letters w \<longleftrightarrow> list_all (\<lambda>c. 97 \<le> code c \<and> code c \<le> 122) w"

lemma lower_letters_lower: "lower_letters w \<Longrightarrow> py_lower w = w"
  by (induction w) (auto simp: lower_letters_def py_lower_def lower_char_def)

lemma is_space_blank [simp]: "is_space CHR '' ''"
  by (simp add: is_space_def code_def)

lemma split_ws_word:
  "\<forall>c \<in> set w. \<not> is_space c \<Longrightarrow> split_ws cur (w @ s) = split_ws (rev w @ cur) s"
  by (induction w arbitrary: cur) auto

definition plain_word :: "string \<Rightarrow> bool" where
  "plain_word w \<longleftrightarrow> w \<noteq> [] \<and> list_all (\<lambda>c. \<not> is_space c) w"

lemma lower_letters_plain: "lower_letters w \<Longrightarrow> w \<noteq> [] \<Longrightarrow> plain_word w"
  by (auto simp: lower_letters_def plain_word_def list_all_iff is_space_def)

lemma py_split_join:
  assumes "\<And>w. w \<in> set ws \<Longrightarrow> plain_word w"
  shows "py_split (py_join '' '' ws) = ws"
  using assms
proof (induction ws)
  case Nil
  show ?case by (simp add: py_split_def)
next
  case (Cons w ws)
  from Cons.prems [of w] have w: "w \<noteq> []" "\<forall>c \<in> set w. \<not> is_space c"
    by (auto simp: plain_word_def list_all_iff)
  show ?case
  proof (cases ws)
    case Nil
    then show ?thesis using w split_ws_word [OF w(2), of "[]" "[]"] by (simp add: py_split_def)
  next
    case (Cons v vs)
    have "py_split (py_join '' '' (w # ws)) = split_ws (rev w) ('' '' @ py_join '' '' ws)"
      using Cons split_ws_word [OF w(2), of "[]"] by (simp add: py_split_def)
    also have "\<dots> = w # py_split (py_join '' '' ws)"
      using w(1) by (simp add: py_split_def)
    finally show ?thesis using Cons.IH Cons.prems by simp
  qed
qed

lemma split_ws_plain:
  assumes "x \<in> set (split_ws cur s)" "list_all (\<lambda>c. \<not> is_space c) cur"
  shows "plain_word x"
  using assms
proof (induction cur s rule: split_ws.induct)
  case (1 cur)
  then show ?case by (simp add: plain_word_def split: if_splits)
next
  case (2 cur c cs)
  show ?case
  proof (cases "is_space c")
    case True
    with 2 show ?thesis by (auto simp: plain_word_def split: if_splits)
  next
    case False
    with 2 show ?thesis by simp
  qed
qed

lemma py_split_plain: "x \<in> set (py_split s) \<Longrightarrow> plain_word x"
  using split_ws_plain [of x "[]" s] by (simp add: py_split_def)

end
