(* ===== verification/Rs1024.thy ===== *)
theory Rs1024
  imports Lcsas_Prelude
begin

unbundle bit_operations_syntax

text \<open>
  The RS1024 checksum of \<open>keyshare/slip39.py\<close>: the loop over 10-bit words with its generator
  constants, creation and verification. The step is linear over exclusive or; from that follow
  that a created checksum verifies and that every change confined to three consecutive words is
  detected.
\<close>

section \<open>The source\<close>

definition CHECKSUM_LENGTH_WORDS :: nat where
  "CHECKSUM_LENGTH_WORDS = 3"

definition RS1024_GEN :: "nat list" where
  "RS1024_GEN =
     [0xE0E040, 0x1C1C080, 0x3838100, 0x7070200, 0xE0E0009,
      0x1C0C2412, 0x38086C24, 0x3090FC48, 0x21B1F890, 0x3F3F120]"

definition rs1024_step :: "nat \<Rightarrow> nat \<Rightarrow> nat" where
  "rs1024_step chk v =
     (let b = drop_bit 20 chk; chk = push_bit 10 (chk AND 0xFFFFF) XOR v
      in fold (\<lambda>i chk. chk XOR (if drop_bit i b AND 1 \<noteq> 0 then RS1024_GEN ! i else 0)) [0..<10] chk)"

definition rs1024_polymod :: "nat list \<Rightarrow> nat" where
  "rs1024_polymod values = foldl rs1024_step 1 values"

definition rs1024_create_checksum :: "nat list \<Rightarrow> bytes \<Rightarrow> nat list" where
  "rs1024_create_checksum data customization =
     (let vs = map unat customization @ data @ replicate CHECKSUM_LENGTH_WORDS 0;
          polymod = rs1024_polymod vs XOR 1
      in map (\<lambda>i. drop_bit (10 * i) polymod AND 1023) (rev [0..<CHECKSUM_LENGTH_WORDS]))"

definition rs1024_verify_checksum :: "nat list \<Rightarrow> bytes \<Rightarrow> bool" where
  "rs1024_verify_checksum data customization \<longleftrightarrow>
     rs1024_polymod (map unat customization @ data) = 1"

section \<open>Linearity\<close>

text \<open>The contribution of the ten bits shifted out, and the step on a zero word.\<close>

definition rs_gen :: "nat \<Rightarrow> nat" where
  "rs_gen b = fold (\<lambda>i chk. chk XOR (if bit b i then RS1024_GEN ! i else 0)) [0..<10] 0"

definition rs_shift :: "nat \<Rightarrow> nat" where
  "rs_shift chk = push_bit 10 (take_bit 20 chk) XOR rs_gen (drop_bit 20 chk)"

lemma fold_xor_acc:
  "fold (\<lambda>i chk. chk XOR f i) xs (c :: nat) = c XOR fold (\<lambda>i chk. chk XOR f i) xs 0"
proof (induction xs arbitrary: c)
  case Nil
  show ?case by simp
next
  case (Cons x xs)
  show ?case
    by (simp add: Cons [of "c XOR f x"] Cons [of "f x"] xor.assoc)
qed

lemma mask_20: "x AND 0xFFFFF = take_bit 20 (x::nat)"
proof -
  have "(0xFFFFF :: nat) = mask 20" by (simp add: mask_eq_exp_minus_1)
  then show ?thesis by (simp only: take_bit_eq_mask)
qed

lemma rs1024_step_eq: "rs1024_step chk v = rs_shift chk XOR v"
proof -
  have "rs1024_step chk v =
      fold (\<lambda>i chk'. chk' XOR (if bit (drop_bit 20 chk) i then RS1024_GEN ! i else 0)) [0..<10]
        (push_bit 10 (take_bit 20 chk) XOR v)"
    unfolding rs1024_step_def Let_def drop_bit_and_1 mask_20 ..
  also have "\<dots> = (push_bit 10 (take_bit 20 chk) XOR v) XOR rs_gen (drop_bit 20 chk)"
    unfolding rs_gen_def by (rule fold_xor_acc)
  finally show ?thesis
    by (simp add: rs_shift_def xor_ac)
qed

lemma rs_gen_xor: "rs_gen (a XOR b) = rs_gen a XOR rs_gen b"
proof -
  have "fold (\<lambda>i chk. chk XOR (if bit (a XOR b) i then RS1024_GEN ! i else 0)) xs 0 =
      fold (\<lambda>i chk. chk XOR (if bit a i then RS1024_GEN ! i else 0)) xs 0 XOR
      fold (\<lambda>i chk. chk XOR (if bit b i then RS1024_GEN ! i else 0)) xs 0" for xs
  proof (induction xs rule: rev_induct)
    case Nil
    show ?case by simp
  next
    case (snoc x xs)
    then show ?case
      by (auto simp: bit_xor_iff xor_ac xor_self_left)
  qed
  then show ?thesis by (simp only: rs_gen_def)
qed

lemma rs_gen_0 [simp]: "rs_gen 0 = 0"
  using rs_gen_xor [of 0 0] by simp

lemma rs_shift_xor: "rs_shift (a XOR b) = rs_shift a XOR rs_shift b"
  by (simp add: rs_shift_def rs_gen_xor drop_bit_xor push_bit_xor take_bit_xor
      xor_ac)

lemma rs_shift_0 [simp]: "rs_shift 0 = 0"
  by (simp add: rs_shift_def)

lemma rs_shift_small: "x < 2 ^ 20 \<Longrightarrow> rs_shift x = push_bit 10 x"
  by (simp add: rs_shift_def drop_bit_eq_div take_bit_nat_eq_self)

lemma funpow_rs_shift_xor: "(rs_shift ^^ n) (a XOR b) = (rs_shift ^^ n) a XOR (rs_shift ^^ n) b"
  by (induction n) (simp_all add: rs_shift_xor)

lemma funpow_rs_shift_0 [simp]: "(rs_shift ^^ n) 0 = 0"
  by (induction n) simp_all

lemma foldl_rs1024_step:
  "foldl rs1024_step (a XOR b) vs = foldl rs1024_step a vs XOR (rs_shift ^^ length vs) b"
proof (induction vs arbitrary: a b)
  case Nil
  show ?case by simp
next
  case (Cons v vs)
  have "rs1024_step (a XOR b) v = rs1024_step a v XOR rs_shift b"
    by (simp add: rs1024_step_eq rs_shift_xor xor_ac)
  then show ?case by (simp add: Cons funpow_swap1)
qed

section \<open>Bounds\<close>

lemma RS1024_GEN_less: "i < 10 \<Longrightarrow> RS1024_GEN ! i < 2 ^ 30"
proof -
  assume "i < 10"
  moreover have "list_all (\<lambda>g. g < 2 ^ 30) RS1024_GEN" "length RS1024_GEN = 10"
    by (simp_all add: RS1024_GEN_def)
  ultimately show ?thesis by (simp only: list_all_length)
qed

lemma rs_gen_less: "rs_gen b < 2 ^ 30"
proof -
  have "fold (\<lambda>i chk. chk XOR (if bit b i then RS1024_GEN ! i else 0)) xs 0 < 2 ^ 30"
    if "\<forall>i \<in> set xs. i < 10" for xs
    using that
  proof (induction xs rule: rev_induct)
    case Nil
    show ?case by simp
  next
    case (snoc x xs)
    then show ?case
      using RS1024_GEN_less [of x] by (auto intro!: xor_less_exp [of _ 30, simplified])
  qed
  then show ?thesis by (simp add: rs_gen_def)
qed

lemma rs_shift_less: "rs_shift chk < 2 ^ 30"
proof -
  have "push_bit 10 (take_bit 20 chk) < 2 ^ 30"
    using take_bit_nat_less_exp [of 20 chk] by (simp add: push_bit_eq_mult)
  then show ?thesis unfolding rs_shift_def by (intro xor_less_exp rs_gen_less)
qed

section \<open>Created checksums verify\<close>

lemma split_30_bits:
  assumes "q < (2::nat) ^ 30"
  shows "push_bit 20 (drop_bit 20 q AND 1023) XOR push_bit 10 (drop_bit 10 q AND 1023) XOR
      (drop_bit 0 q AND 1023) = q"
proof -
  have "n < 30" if "bit q n" for n
    using assms that by (metis bit_take_bit_iff take_bit_nat_eq_self)
  then have "n - 20 < 10" if "bit q n" for n
    using that by fastforce
  then show ?thesis
    by (intro bit_eqI)
      (auto simp: and_1023 bit_xor_iff bit_push_bit_iff bit_take_bit_iff bit_drop_bit_eq not_le)
qed

lemma foldl_three_words:
  assumes "c0 < 1024" "c1 < 1024"
  shows "foldl rs1024_step c [c0, c1, c2] =
    foldl rs1024_step c [0, 0, 0] XOR (push_bit 20 c0 XOR push_bit 10 c1 XOR c2)"
proof -
  have "push_bit 10 c0 < 2 ^ 20" using assms(1) by (simp add: push_bit_eq_mult)
  with assms have "rs_shift (rs_shift c0) = push_bit 20 c0" "rs_shift c1 = push_bit 10 c1"
    by (simp_all add: rs_shift_small)
  then show ?thesis
    by (simp add: rs1024_step_eq rs_shift_xor xor_ac)
qed

lemma rs1024_create_length [simp]: "length (rs1024_create_checksum data cs) = 3"
  by (simp add: rs1024_create_checksum_def CHECKSUM_LENGTH_WORDS_def Let_def)

lemma rs1024_create_less: "c \<in> set (rs1024_create_checksum data cs) \<Longrightarrow> c < 1024"
  by (auto simp: rs1024_create_checksum_def Let_def and_1023_less)

lemma rs1024_create_verifies:
  "rs1024_verify_checksum (data @ rs1024_create_checksum data cs) cs"
proof -
  let ?c = "foldl rs1024_step 1 (map unat cs @ data)"
  define p where "p = foldl rs1024_step ?c [0, 0, 0]"
  have "p < 2 ^ 30"
    unfolding p_def foldl.simps rs1024_step_eq xor.right_neutral by (rule rs_shift_less)
  then have q: "p XOR 1 < 2 ^ 30" by (intro xor_less_exp) simp_all
  have create: "rs1024_create_checksum data cs =
      [drop_bit 20 (p XOR 1) AND 1023, drop_bit 10 (p XOR 1) AND 1023, drop_bit 0 (p XOR 1) AND 1023]"
    by (simp add: rs1024_create_checksum_def CHECKSUM_LENGTH_WORDS_def rs1024_polymod_def Let_def
        numeral_eq_Suc p_def)
  have "rs1024_polymod (map unat cs @ data @ rs1024_create_checksum data cs) = p XOR (p XOR 1)"
    unfolding create rs1024_polymod_def append_assoc [symmetric] foldl_append
    unfolding foldl_three_words [OF and_1023_less and_1023_less] split_30_bits [OF q]
    by (simp add: p_def)
  then show ?thesis
    by (simp add: rs1024_verify_checksum_def flip: xor.assoc)
qed

section \<open>Detection of changed words\<close>

text \<open>The ten generator constants are independent in their low ten bits.\<close>

lemma rs_gen_bits:
  "bit (rs_gen b) 0 = bit b 4" "bit (rs_gen b) 1 = bit b 5" "bit (rs_gen b) 2 = bit b 6"
  "bit (rs_gen b) 3 = (bit b 4 \<noteq> bit b 7)" "bit (rs_gen b) 4 = (bit b 5 \<noteq> bit b 8)"
  "bit (rs_gen b) 5 = (bit b 6 \<noteq> bit b 9)" "bit (rs_gen b) 6 = (bit b 0 \<noteq> bit b 7)"
  "bit (rs_gen b) 7 = (bit b 1 \<noteq> bit b 8)" "bit (rs_gen b) 8 = (bit b 2 \<noteq> bit b 9)"
  "bit (rs_gen b) 9 = bit b 3"
proof -
  have upt: "[0..<10] = [0, 1, 2, 3, 4, 5, 6, 7, 8, 9::nat]" by (simp add: upt_rec)
  show "bit (rs_gen b) 0 = bit b 4" "bit (rs_gen b) 1 = bit b 5" "bit (rs_gen b) 2 = bit b 6"
    "bit (rs_gen b) 3 = (bit b 4 \<noteq> bit b 7)" "bit (rs_gen b) 4 = (bit b 5 \<noteq> bit b 8)"
    "bit (rs_gen b) 5 = (bit b 6 \<noteq> bit b 9)" "bit (rs_gen b) 6 = (bit b 0 \<noteq> bit b 7)"
    "bit (rs_gen b) 7 = (bit b 1 \<noteq> bit b 8)" "bit (rs_gen b) 8 = (bit b 2 \<noteq> bit b 9)"
    "bit (rs_gen b) 9 = bit b 3"
    unfolding rs_gen_def upt RS1024_GEN_def by (simp_all add: bit_xor_iff)
qed

lemma rs_shift_eq_0:
  assumes "x < 2 ^ 30" "rs_shift x = 0" shows "x = 0"
proof -
  define b where "b = drop_bit 20 x"
  have low: "\<not> bit (rs_gen b) n" if "n < 10" for n
  proof -
    have "\<not> bit (push_bit 10 (take_bit 20 x)) n" using that by (simp add: bit_push_bit_iff)
    moreover have "\<not> bit (push_bit 10 (take_bit 20 x) XOR rs_gen b) n"
      using assms(2) by (simp add: rs_shift_def b_def)
    ultimately show ?thesis by (simp add: bit_xor_iff)
  qed
  have "\<not> bit b n" if "n < 10" for n
  proof -
    have "list_all (\<lambda>n. \<not> bit b n) [0, 1, 2, 3, 4, 5, 6, 7, 8, 9]"
      using low [of 0] low [of 1] low [of 2] low [of 3] low [of 4] low [of 5] low [of 6]
        low [of 7] low [of 8] low [of 9] by (simp add: rs_gen_bits [simplified])
    moreover have "n \<in> set [0, 1, 2, 3, 4, 5, 6, 7, 8, 9]" using that by auto
    ultimately show ?thesis unfolding list_all_iff by blast
  qed
  moreover have "b < 2 ^ 10" using assms(1) by (simp add: b_def drop_bit_eq_div)
  then have "b = take_bit 10 b" by (simp add: take_bit_nat_eq_self)
  ultimately have b: "b = 0"
    by (metis bit_0_eq bit_eqI bit_take_bit_iff bot_apply bot_bool_def)
  then have "x < 2 ^ 20"
    by (metis b_def drop_bit_eq_div div_eq_0_iff power_not_zero zero_neq_numeral)
  then show ?thesis
    using assms(2) by (simp add: rs_shift_small push_bit_eq_mult)
qed

lemma funpow_rs_shift_eq_0:
  "x < 2 ^ 30 \<Longrightarrow> (rs_shift ^^ n) x = 0 \<Longrightarrow> x = 0"
proof (induction n arbitrary: x)
  case 0
  then show ?case by simp
next
  case (Suc n)
  then have "rs_shift x = 0"
    using rs_shift_less by (simp add: funpow_swap1)
  with Suc.prems(1) show ?case by (rule rs_shift_eq_0)
qed

text \<open>The state after a block of at most three words, as the state after zero words plus the
  block read as one number.\<close>

lemma push_bit_10_xor:
  assumes "b < 1024" shows "push_bit 10 a XOR b = a * 1024 + (b :: nat)"
proof -
  have "push_bit 10 a XOR take_bit 10 b = push_bit 10 a + take_bit 10 b"
    by (intro disjunctive_xor_eq_or [THEN trans] disjunctive_add_eq_or [symmetric] bit_eqI)
      (auto simp: bit_and_iff bit_push_bit_iff bit_take_bit_iff)
  then show ?thesis using assms by (simp add: take_bit_nat_eq_self push_bit_eq_mult)
qed

lemma foldl_block:
  assumes "\<forall>w \<in> set ws. w < 1024" "length ws \<le> 3"
  shows "foldl rs1024_step c ws =
    foldl rs1024_step c (replicate (length ws) 0) XOR undigits_be 1024 ws"
  using assms
proof (induction ws rule: rev_induct)
  case Nil
  show ?case by simp
next
  case (snoc w ws)
  let ?z = "foldl rs1024_step c (replicate (length ws) 0)" and ?u = "undigits_be 1024 ws"
  have "?u < 1024 ^ length ws" using snoc.prems by (intro undigits_be_less) simp
  also have "\<dots> \<le> 1024 ^ 2" using snoc.prems by (intro power_increasing) auto
  finally have u: "rs_shift ?u = push_bit 10 ?u" by (intro rs_shift_small) simp
  have IH: "foldl rs1024_step c ws = ?z XOR ?u" using snoc by simp
  have "foldl rs1024_step c (ws @ [w]) = rs1024_step (foldl rs1024_step c ws) w" by simp
  also have "\<dots> = rs_shift ?z XOR (push_bit 10 ?u XOR w)"
    unfolding IH rs1024_step_eq [of "?z XOR ?u"] rs_shift_xor u xor.assoc ..
  also have "push_bit 10 ?u XOR w = undigits_be 1024 (ws @ [w])"
    using snoc.prems by (simp add: push_bit_10_xor)
  also have "rs_shift ?z = foldl rs1024_step c (replicate (length (ws @ [w])) 0)"
  proof -
    have "replicate (length (ws @ [w])) (0::nat) = replicate (length ws) 0 @ [0]"
      by (simp add: replicate_append_same)
    then show ?thesis by (simp only: foldl_append foldl.simps rs1024_step_eq xor.right_neutral)
  qed
  finally show ?case .
qed

lemma undigits_be_inj:
  assumes "\<forall>w \<in> set ws. w < b" "\<forall>w \<in> set vs. w < b" "length ws = length vs"
    and "undigits_be b ws = undigits_be b vs"
  shows "ws = vs"
  using digits_undigits_be [OF assms(1)] digits_undigits_be [OF assms(2)] assms(3,4) by metis

lemma rs1024_detects_block:
  assumes ws: "\<forall>w \<in> set ws. w < 1024" "length ws \<le> 3"
    and vs: "\<forall>v \<in> set vs. v < 1024" "length vs = length ws" "vs \<noteq> ws"
    and ok: "rs1024_verify_checksum (pre @ ws @ post) cs"
  shows "\<not> rs1024_verify_checksum (pre @ vs @ post) cs"
proof
  assume bad: "rs1024_verify_checksum (pre @ vs @ post) cs"
  let ?c = "foldl rs1024_step 1 (map unat cs @ pre)"
  let ?z = "foldl rs1024_step ?c (replicate (length ws) 0)"
  let ?e = "undigits_be 1024 ws XOR undigits_be 1024 vs"
  have state: "foldl rs1024_step ?c ws = ?z XOR undigits_be 1024 ws"
    "foldl rs1024_step ?c vs = ?z XOR undigits_be 1024 vs"
    using foldl_block [of ws ?c] foldl_block [of vs ?c] ws vs by simp_all
  have "foldl rs1024_step ?c vs = foldl rs1024_step ?c ws XOR ?e"
    unfolding state by (simp add: xor_ac)
  then have "rs1024_polymod (map unat cs @ pre @ vs @ post) =
      rs1024_polymod (map unat cs @ pre @ ws @ post) XOR (rs_shift ^^ length post) ?e"
    by (simp add: rs1024_polymod_def foldl_rs1024_step)
  then have "(rs_shift ^^ length post) ?e = 0"
    using ok bad by (simp add: rs1024_verify_checksum_def) (metis xor_self_left xor.right_neutral xor_self_eq)
  moreover have "1024 ^ length ws \<le> (2 ^ 30 :: nat)"
    using power_increasing [of "length ws" 3 "1024 :: nat"] ws(2) by simp
  then have "?e < 2 ^ 30"
    using undigits_be_less [OF ws(1)] undigits_be_less [OF vs(1), unfolded vs(2)]
    by (intro xor_less_exp) linarith+
  ultimately have "?e = 0" by (metis funpow_rs_shift_eq_0)
  then have "undigits_be 1024 ws = undigits_be 1024 vs"
    by (metis xor.right_neutral xor_self_left)
  with undigits_be_inj [of ws 1024 vs] ws vs show False by simp
qed

end
