(* ===== verification/Mnemonic_Words.thy ===== *)
theory Mnemonic_Words
  imports Wordlist Rs1024
begin

unbundle bit_operations_syntax

text \<open>
  Words and numbers of a share in \<open>keyshare/slip39.py\<close>: resolution of a typed token to a
  wordlist index (a full word, or a prefix of at least four letters), the base-1024 expansion of
  integers and its inverse. Also the exceptions of the \<open>keyshare\<close> package, one constructor per
  \<open>raise\<close>.
\<close>

section \<open>Exceptions\<close>

datatype keyshare_error =
    Unknown_word string
  | Share_indices_not_unique
  | Share_values_differ_in_length
  | Threshold_not_positive
  | Threshold_exceeds_count
  | Too_many_shares
  | Invalid_digest
  | Mnemonic_too_short
  | Mnemonic_length_invalid
  | Mnemonic_checksum_invalid "string list"
  | Group_threshold_exceeds_count
  | Mnemonic_padding_invalid
  | Group_parameter_mismatch string
  | Common_parameters_mismatch
  | Share_set_empty
  | Insufficient_groups int
  | Wrong_number_of_groups int nat
  | Too_few_member_shares int nat
  | Mnemonic_list_empty
  | Master_secret_too_short
  | Master_secret_odd_length
  | Passphrase_not_printable
  | Group_threshold_not_positive
  | Group_threshold_exceeds_groups
  | Member_threshold_one_with_many
  | Password_too_long nat
  | Secret_without_length_prefix nat
  | Secret_length_past_end nat nat
  | Incomplete_share_card nat
  | Py_ValueError
  | Py_IndexError
  | Py_OverflowError

section \<open>Constants of the share format\<close>

definition RADIX_BITS :: nat where "RADIX_BITS = 10"
definition RADIX :: nat where "RADIX = 2 ^ RADIX_BITS"
definition ID_LENGTH_BITS :: nat where "ID_LENGTH_BITS = 15"
definition EXTENDABLE_FLAG_LENGTH_BITS :: nat where "EXTENDABLE_FLAG_LENGTH_BITS = 1"
definition ITERATION_EXP_LENGTH_BITS :: nat where "ITERATION_EXP_LENGTH_BITS = 4"

definition bits_to_bytes :: "nat \<Rightarrow> nat" where
  "bits_to_bytes n = (n + 7) div 8"

definition bits_to_words :: "nat \<Rightarrow> nat" where
  "bits_to_words n = (n + RADIX_BITS - 1) div RADIX_BITS"

definition ID_EXP_LENGTH_WORDS :: nat where
  "ID_EXP_LENGTH_WORDS =
     bits_to_words (ID_LENGTH_BITS + EXTENDABLE_FLAG_LENGTH_BITS + ITERATION_EXP_LENGTH_BITS)"

definition METADATA_LENGTH_WORDS :: nat where
  "METADATA_LENGTH_WORDS = ID_EXP_LENGTH_WORDS + 2 + CHECKSUM_LENGTH_WORDS"

definition MIN_STRENGTH_BITS :: nat where "MIN_STRENGTH_BITS = 128"

definition MIN_MNEMONIC_LENGTH_WORDS :: nat where
  "MIN_MNEMONIC_LENGTH_WORDS = METADATA_LENGTH_WORDS + bits_to_words MIN_STRENGTH_BITS"

lemmas share_consts =
  RADIX_BITS_def RADIX_def ID_LENGTH_BITS_def EXTENDABLE_FLAG_LENGTH_BITS_def
  ITERATION_EXP_LENGTH_BITS_def bits_to_words_def ID_EXP_LENGTH_WORDS_def
  METADATA_LENGTH_WORDS_def MIN_STRENGTH_BITS_def MIN_MNEMONIC_LENGTH_WORDS_def
  CHECKSUM_LENGTH_WORDS_def

lemma share_const_values [simp]:
  "ID_EXP_LENGTH_WORDS = 2" "METADATA_LENGTH_WORDS = 7" "MIN_MNEMONIC_LENGTH_WORDS = 20"
  by (simp_all add: share_consts)

section \<open>Words and integers\<close>

definition int_to_word_indices :: "int \<Rightarrow> nat \<Rightarrow> nat list" where
  "int_to_word_indices value len =
     map (\<lambda>i. nat (drop_bit (i * RADIX_BITS) value AND (int RADIX - 1))) (rev [0..<len])"

definition int_from_word_indices :: "nat list \<Rightarrow> nat" where
  "int_from_word_indices indices = foldl (\<lambda>value index. value * RADIX + index) 0 indices"

definition word_index :: "string \<Rightarrow> (keyshare_error, nat) result" where
  "word_index token =
     (let word = py_lower token in
      case WORD_TO_INDEX word of
        Some index \<Rightarrow> Inr index
      | None \<Rightarrow>
          if 4 \<le> length word then
            (case PREFIX4_TO_INDEX (take 4 word) of
               Some index \<Rightarrow>
                 if starts_with (WORDLIST ! index) word then Inr index
                 else Inl (Unknown_word token)
             | None \<Rightarrow> Inl (Unknown_word token))
          else Inl (Unknown_word token))"

definition mnemonic_to_indices :: "string \<Rightarrow> (keyshare_error, nat list) result" where
  "mnemonic_to_indices mnemonic = rmap word_index (py_split mnemonic)"

definition words_from_indices :: "nat list \<Rightarrow> (keyshare_error, string list) result" where
  "words_from_indices indices =
     rmap (\<lambda>i. if i < length WORDLIST then Inr (WORDLIST ! i) else Inl Py_IndexError) indices"

section \<open>Lookups\<close>

lemma str_less_irrefl: "\<not> str_less w w"
  by (induction w) auto

lemma str_less_trans: "str_less u v \<Longrightarrow> str_less v w \<Longrightarrow> str_less u w"
proof (induction u v arbitrary: w rule: str_less.induct)
  case (1 d ds)
  then show ?case by (cases w) auto
next
  case (2 c cs d ds)
  then show ?case by (cases w) (auto intro: less_trans)
next
  case (3 cs)
  then show ?case by (cases cs) auto
qed

lemma str_increasing_distinct: "str_increasing ws \<Longrightarrow> distinct ws"
proof -
  assume "str_increasing ws"
  then have "sorted_wrt str_less ws"
  proof (induction ws rule: str_increasing.induct)
    case (1 w v ws)
    then have "str_less w v" "sorted_wrt str_less (v # ws)" by auto
    then show ?case by (auto intro: str_less_trans)
  qed auto
  then show ?thesis
    by (induction ws) (auto simp: str_less_irrefl)
qed

lemma distinct_prefixes: "distinct (map (take 4) WORDLIST)"
  using WORDLIST_prefixes_increasing by (rule str_increasing_distinct)

lemma distinct_WORDLIST: "distinct WORDLIST"
  using distinct_prefixes by (rule distinct_map [THEN iffD1, THEN conjunct1])

lemma WORDLIST_nth:
  assumes "i < 1024"
  shows "4 \<le> length (WORDLIST ! i)" "lower_letters (WORDLIST ! i)"
    "py_lower (WORDLIST ! i) = WORDLIST ! i" "plain_word (WORDLIST ! i)"
proof -
  show l: "4 \<le> length (WORDLIST ! i)" "lower_letters (WORDLIST ! i)"
    using WORDLIST_letters assms by (simp_all add: list_all_length)
  show "py_lower (WORDLIST ! i) = WORDLIST ! i" using l by (simp add: lower_letters_lower)
  have "WORDLIST ! i \<noteq> []" using l(1) by auto
  then show "plain_word (WORDLIST ! i)" using l by (simp add: lower_letters_plain)
qed

lemma map_of_rev_zip_upt:
  assumes "distinct ks"
  shows "map_of (rev (zip ks [0..<length ks])) k = Some i \<longleftrightarrow> i < length ks \<and> ks ! i = k"
proof -
  have d: "distinct (map fst (rev (zip ks [0..<length ks])))"
    using assms by (simp add: rev_map [symmetric])
  then have "map_of (rev (zip ks [0..<length ks])) k = Some i \<longleftrightarrow> (k, i) \<in> set (zip ks [0..<length ks])"
    by (metis map_of_eq_Some_iff set_rev)
  also have "\<dots> \<longleftrightarrow> i < length ks \<and> ks ! i = k"
    by (auto simp: in_set_zip)
  finally show ?thesis .
qed

lemma WORD_TO_INDEX_iff: "WORD_TO_INDEX w = Some i \<longleftrightarrow> i < 1024 \<and> WORDLIST ! i = w"
  using map_of_rev_zip_upt [OF distinct_WORDLIST] by (simp add: WORD_TO_INDEX_def)

lemma PREFIX4_TO_INDEX_iff: "PREFIX4_TO_INDEX p = Some i \<longleftrightarrow> i < 1024 \<and> take 4 (WORDLIST ! i) = p"
proof -
  have "PREFIX4_TO_INDEX p = Some i \<longleftrightarrow> i < 1024 \<and> map (take 4) WORDLIST ! i = p"
    using map_of_rev_zip_upt [OF distinct_prefixes] by (simp add: PREFIX4_TO_INDEX_def)
  then show ?thesis by (auto simp: nth_map)
qed

lemma starts_with_take4:
  assumes "starts_with s p" "4 \<le> length p" shows "take 4 s = take 4 p"
proof -
  have "take (length p) s = p" using assms(1) by (simp add: starts_with_def)
  then have "take 4 p = take 4 (take (length p) s)" by simp
  also have "\<dots> = take (min 4 (length p)) s" by (rule take_take)
  also have "min 4 (length p) = 4" using assms(2) by simp
  finally show ?thesis by simp
qed

text \<open>A token resolves to the word it abbreviates, and to nothing else.\<close>

lemma word_index_iff:
  "word_index token = Inr i \<longleftrightarrow>
     i < 1024 \<and> 4 \<le> length token \<and> starts_with (WORDLIST ! i) (py_lower token)"
proof -
  let ?w = "py_lower token"
  have len: "length ?w = length token" by (simp add: py_lower_def)
  show ?thesis
  proof (cases "WORD_TO_INDEX ?w")
    case (Some j)
    then have j: "j < 1024" "WORDLIST ! j = ?w" by (simp_all add: WORD_TO_INDEX_iff)
    have lj: "4 \<le> length ?w" using WORDLIST_nth(1) [OF j(1)] unfolding j(2) .
    have "i = j" if "i < 1024" "starts_with (WORDLIST ! i) ?w"
    proof -
      have "take 4 (WORDLIST ! i) = take 4 (WORDLIST ! j)"
        unfolding j(2) by (rule starts_with_take4 [OF that(2) lj])
      then show ?thesis using that(1) j(1) by (metis PREFIX4_TO_INDEX_iff option.inject)
    qed
    moreover have "starts_with (WORDLIST ! j) ?w" "4 \<le> length token"
      using lj len unfolding j(2) by (simp_all add: starts_with_def)
    ultimately show ?thesis using Some j(1) by (auto simp: word_index_def)
  next
    case None
    have pre: "take 4 (WORDLIST ! i) = take 4 ?w"
      if "4 \<le> length token" "starts_with (WORDLIST ! i) ?w" for i
      using starts_with_take4 [OF that(2)] that(1) len by simp
    show ?thesis
    proof (cases "PREFIX4_TO_INDEX (take 4 ?w)")
      case (Some j)
      have "i = j" if "4 \<le> length token" "starts_with (WORDLIST ! i) ?w" "i < 1024"
        using pre [OF that(1,2)] that(3) Some
        by (metis PREFIX4_TO_INDEX_iff option.inject)
      moreover have "j < 1024" using Some by (simp add: PREFIX4_TO_INDEX_iff)
      ultimately show ?thesis using None Some len by (auto simp: word_index_def Let_def split: if_splits)
    next
      case none': None
      have False if "4 \<le> length token" "starts_with (WORDLIST ! i) ?w" "i < 1024"
        using pre [OF that(1,2)] that(3) none' by (metis PREFIX4_TO_INDEX_iff option.distinct(1))
      then show ?thesis using None none' by (auto simp: word_index_def Let_def split: if_splits)
    qed
  qed
qed

lemma word_index_word: "i < 1024 \<Longrightarrow> word_index (WORDLIST ! i) = Inr i"
  by (simp add: word_index_iff WORDLIST_nth starts_with_def)

lemma word_index_Inl: "word_index token = Inl e \<Longrightarrow> e = Unknown_word token"
  by (auto simp: word_index_def Let_def split: option.splits if_splits)

section \<open>Round trips\<close>

lemma words_from_indices_Inr:
  "\<forall>i \<in> set is. i < 1024 \<Longrightarrow> words_from_indices is = Inr (map (\<lambda>i. WORDLIST ! i) is)"
  unfolding words_from_indices_def by (rule rmap_Inr_map) simp

lemma mnemonic_indices_roundtrip:
  assumes "\<forall>i \<in> set is. i < 1024"
  shows "mnemonic_to_indices (py_join '' '' (map (\<lambda>i. WORDLIST ! i) is)) = Inr is"
proof -
  have "py_split (py_join '' '' (map (\<lambda>i. WORDLIST ! i) is)) = map (\<lambda>i. WORDLIST ! i) is"
    by (rule py_split_join) (use assms WORDLIST_nth in auto)
  moreover have "rmap word_index (map (\<lambda>i. WORDLIST ! i) is) = Inr is"
    using assms by (induction "is") (auto simp: word_index_word)
  ultimately show ?thesis by (simp add: mnemonic_to_indices_def)
qed

lemma int_to_word_indices_nonneg:
  assumes "0 \<le> v" shows "int_to_word_indices v n = digits_be 1024 n (nat v)"
proof -
  have "nat (drop_bit (i * 10) v AND 1023) = nat v div 1024 ^ i mod 1024" for i
  proof -
    have am: "x AND 1023 = x mod 1024" for x :: int
      using take_bit_eq_mask [of 10 x] by (simp add: mask_eq_exp_minus_1 take_bit_eq_mod)
    have "drop_bit (i * 10) v = v div 1024 ^ i"
      by (simp add: drop_bit_eq_div mult.commute [of i] power_mult)
    then show ?thesis
      using assms unfolding am by (simp add: nat_mod_distrib nat_div_distrib nat_power_eq pos_imp_zdiv_nonneg_iff)
  qed
  then show ?thesis by (simp add: int_to_word_indices_def digits_be_def RADIX_def RADIX_BITS_def)
qed

lemma int_from_word_indices_eq: "int_from_word_indices is = undigits_be 1024 is"
  by (simp add: int_from_word_indices_def undigits_be_def RADIX_def RADIX_BITS_def)

lemma int_word_indices_roundtrip:
  "0 \<le> v \<Longrightarrow> v < 1024 ^ n \<Longrightarrow> int (int_from_word_indices (int_to_word_indices v n)) = v"
  by (simp add: int_to_word_indices_nonneg int_from_word_indices_eq undigits_digits_be
      nat_less_iff)

lemma length_int_to_word_indices [simp]: "length (int_to_word_indices v n) = n"
  by (simp add: int_to_word_indices_def)

lemma int_to_word_indices_less: "0 \<le> v \<Longrightarrow> i \<in> set (int_to_word_indices v n) \<Longrightarrow> i < 1024"
  by (simp add: int_to_word_indices_nonneg digits_be_less)

end
