(* ===== verification/Shamir.thy ===== *)
theory Shamir
  imports Field_Interpolation Gf256 Sha256 Mnemonic_Words
begin

unbundle bit_operations_syntax

text \<open>
  Shamir secret sharing of \<open>keyshare/slip39.py\<close>: \<open>_interpolate\<close> on the logarithm tables,
  \<open>_create_digest\<close>, \<open>_split_secret\<close> and \<open>_recover_secret\<close>. The x coordinates the module uses
  (0--15, 254, 255) are bytes. The random source \<open>secrets.token_bytes\<close> is a stream of bytes
  that each call consumes from the front.

  The contract of a threshold scheme is the locale \<open>threshold_sharing\<close>; it is interpreted on
  the model's functions at the end, after the interpolation code is shown to evaluate the
  Lagrange polynomial over GF(256).
\<close>

section \<open>Definitions\<close>

record raw_share =
  rs_x :: byte
  rs_data :: bytes

definition MAX_SHARE_COUNT :: int where "MAX_SHARE_COUNT = 16"
definition DIGEST_LENGTH_BYTES :: nat where "DIGEST_LENGTH_BYTES = 4"
definition SECRET_INDEX :: byte where "SECRET_INDEX = 255"
definition DIGEST_INDEX :: byte where "DIGEST_INDEX = 254"

type_synonym entropy = "nat \<Rightarrow> byte"

text \<open>\<open>secrets.token_bytes(n)\<close>; a negative count raises ValueError.\<close>

definition random_bytes :: "int \<Rightarrow> entropy \<Rightarrow> (keyshare_error, bytes \<times> entropy) result" where
  "random_bytes n r =
     (if n < 0 then Inl Py_ValueError
      else Inr (map r [0..<nat n], \<lambda>i. r (nat n + i)))"

text \<open>\<open>zip(a, b, strict=True)\<close> consumed to its end.\<close>

definition zip_strict :: "'a list \<Rightarrow> 'b list \<Rightarrow> (keyshare_error, ('a \<times> 'b) list) result" where
  "zip_strict a b = (if length a = length b then Inr (zip a b) else Inl Py_ValueError)"

definition log_at :: "byte \<Rightarrow> int" where
  "log_at b = int (LOG_TABLE ! unat b)"

definition interpolate_step ::
  "raw_share list \<Rightarrow> byte \<Rightarrow> int \<Rightarrow> raw_share \<Rightarrow> bytes \<Rightarrow> (keyshare_error, bytes) result" where
  "interpolate_step shares x log_prod share result =
     (let log_basis_eval =
        (log_prod - log_at (rs_x share XOR x)
           - (\<Sum>other\<leftarrow>shares. log_at (rs_x share XOR rs_x other))) mod 255
      in rbind (zip_strict (rs_data share) result) (\<lambda>pairs.
           Inr (map (\<lambda>(share_val, intermediate_sum).
             intermediate_sum XOR
               (if share_val \<noteq> 0
                then of_nat (EXP_TABLE ! nat ((log_at share_val + log_basis_eval) mod 255))
                else 0)) pairs)))"

definition interpolate :: "raw_share list \<Rightarrow> byte \<Rightarrow> (keyshare_error, bytes) result" where
  "interpolate shares x =
     (let x_coordinates = remdups (map rs_x shares);
          share_value_lengths = remdups (map (\<lambda>s. length (rs_data s)) shares) in
      rbind (raise_if (length x_coordinates \<noteq> length shares) Share_indices_not_unique) (\<lambda>_.
      rbind (raise_if (length share_value_lengths \<noteq> 1) Share_values_differ_in_length) (\<lambda>_.
      case find (\<lambda>s. rs_x s = x) shares of
        Some share \<Rightarrow> Inr (rs_data share)
      | None \<Rightarrow>
          let log_prod = (\<Sum>share\<leftarrow>shares. log_at (rs_x share XOR x)) in
          rfold (interpolate_step shares x log_prod) shares
            (replicate (hd share_value_lengths) 0))))"

definition create_digest :: "bytes \<Rightarrow> bytes \<Rightarrow> bytes" where
  "create_digest random_data shared_secret =
     take DIGEST_LENGTH_BYTES (hmac_sha256 random_data shared_secret)"

text \<open>The shares \<open>i, i+1, ..., i+n-1\<close> with fresh random values.\<close>

fun random_shares :: "nat \<Rightarrow> nat \<Rightarrow> nat \<Rightarrow> entropy \<Rightarrow> (keyshare_error, raw_share list \<times> entropy) result" where
  "random_shares len i 0 r = Inr ([], r)"
| "random_shares len i (Suc n) r =
     rbind (random_bytes (int len) r) (\<lambda>(d, r1).
     rbind (random_shares len (Suc i) n r1) (\<lambda>(rest, r2).
     Inr (\<lparr>rs_x = of_nat i, rs_data = d\<rparr> # rest, r2)))"

definition split_secret_raw ::
  "int \<Rightarrow> int \<Rightarrow> bytes \<Rightarrow> entropy \<Rightarrow> (keyshare_error, raw_share list \<times> entropy) result" where
  "split_secret_raw threshold share_count shared_secret r =
     rbind (raise_if (threshold < 1) Threshold_not_positive) (\<lambda>_.
     rbind (raise_if (threshold > share_count) Threshold_exceeds_count) (\<lambda>_.
     rbind (raise_if (share_count > MAX_SHARE_COUNT) Too_many_shares) (\<lambda>_.
     if threshold = 1 then
       Inr (map (\<lambda>i. \<lparr>rs_x = of_nat i, rs_data = shared_secret\<rparr>) [0..<nat share_count], r)
     else
       let random_share_count = nat (threshold - 2) in
       rbind (random_shares (length shared_secret) 0 random_share_count r) (\<lambda>(shares, r1).
       rbind (random_bytes (int (length shared_secret) - int DIGEST_LENGTH_BYTES) r1)
         (\<lambda>(random_part, r2).
       let digest = create_digest random_part shared_secret;
           base_shares = shares @
             [\<lparr>rs_x = DIGEST_INDEX, rs_data = digest @ random_part\<rparr>,
              \<lparr>rs_x = SECRET_INDEX, rs_data = shared_secret\<rparr>]
       in rbind (rmap (\<lambda>i. rbind (interpolate base_shares (of_nat i))
                   (\<lambda>d. Inr \<lparr>rs_x = of_nat i, rs_data = d\<rparr>))
                 [random_share_count..<nat share_count])
            (\<lambda>rest. Inr (shares @ rest, r2)))))))"

definition recover_secret_raw :: "int \<Rightarrow> raw_share list \<Rightarrow> (keyshare_error, bytes) result" where
  "recover_secret_raw threshold shares =
     (if threshold = 1 then
        (case shares of [] \<Rightarrow> Inl Py_IndexError | s # _ \<Rightarrow> Inr (rs_data s))
      else
        rbind (interpolate shares SECRET_INDEX) (\<lambda>shared_secret.
        rbind (interpolate shares DIGEST_INDEX) (\<lambda>digest_share.
        let digest = take DIGEST_LENGTH_BYTES digest_share;
            random_part = drop DIGEST_LENGTH_BYTES digest_share
        in rbind (raise_if (digest \<noteq> create_digest random_part shared_secret) Invalid_digest)
             (\<lambda>_. Inr shared_secret))))"

section \<open>Interpolation evaluates the Lagrange polynomial\<close>

text \<open>The points of the \<open>k\<close>-th byte position.\<close>

definition byte_points :: "raw_share list \<Rightarrow> nat \<Rightarrow> (gf256 \<times> gf256) list" where
  "byte_points shares k = map (\<lambda>s. (gf_of_byte (rs_x s), gf_of_byte (rs_data s ! k))) shares"

lemma fst_byte_points: "map fst (byte_points shares k) = map (\<lambda>s. gf_of_byte (rs_x s)) shares"
  by (simp add: byte_points_def)

lemma distinct_byte_points:
  "distinct (map rs_x shares) \<Longrightarrow> distinct (map fst (byte_points shares k))"
  unfolding fst_byte_points by (simp add: distinct_map inj_on_def)

lemma gexp_log_at: "b \<noteq> 0 \<Longrightarrow> gexp (log_at b) = gf_of_byte b"
  using gexp_glog [of "gf_of_byte b"] by (simp add: log_at_def glog_def blog_def)

lemma log_at_0 [simp]: "log_at 0 = 0"
  by (simp add: log_at_def LOG_TABLE_props)

lemma byte_xor_eq_0: "a XOR b = (0 :: byte) \<longleftrightarrow> a = b"
  by (metis xor.right_neutral xor_self_eq xor_self_left)

lemma gexp_log_xor:
  "a \<noteq> b \<Longrightarrow> gexp (log_at (a XOR b)) = gf_of_byte a - gf_of_byte b"
  by (subst gexp_log_at) (auto simp: gf_of_byte_xor gf_minus_eq_plus byte_xor_eq_0)

text \<open>The exponent of the loop body is the logarithm of the Lagrange basis polynomial.\<close>

lemma gexp_basis:
  fixes shares :: "raw_share list"
  assumes "distinct (map rs_x shares)" "s \<in> set shares" "\<forall>t \<in> set shares. rs_x t \<noteq> x"
  defines "others \<equiv> filter (\<lambda>t. rs_x t \<noteq> rs_x s) shares"
  shows "gexp ((\<Sum>t\<leftarrow>shares. log_at (rs_x t XOR x)) - log_at (rs_x s XOR x)
           - (\<Sum>t\<leftarrow>shares. log_at (rs_x s XOR rs_x t)))
       = (\<Prod>t\<leftarrow>others. inverse (gf_of_byte (rs_x s) - gf_of_byte (rs_x t)) *
             (gf_of_byte x - gf_of_byte (rs_x t)))"
proof -
  have drop: "(\<Sum>t\<leftarrow>shares. f t) = f s + (\<Sum>t\<leftarrow>others. f t)" for f :: "raw_share \<Rightarrow> int"
    using assms(1,2) unfolding others_def
  proof (induction shares)
    case (Cons t ts)
    show ?case
    proof (cases "t = s")
      case True
      then have "filter (\<lambda>t. rs_x t \<noteq> rs_x s) ts = ts"
        using Cons.prems by (auto intro!: filter_True) (metis imageI)
      with True show ?thesis by simp
    next
      case False
      then have "rs_x t \<noteq> rs_x s" using Cons.prems by force
      with Cons False show ?thesis by simp
    qed
  qed simp
  have "(\<Sum>t\<leftarrow>shares. log_at (rs_x t XOR x)) - log_at (rs_x s XOR x)
          - (\<Sum>t\<leftarrow>shares. log_at (rs_x s XOR rs_x t))
      = (\<Sum>t\<leftarrow>others. log_at (rs_x t XOR x) - log_at (rs_x s XOR rs_x t))"
    unfolding drop [of "\<lambda>t. log_at (rs_x t XOR x)"] drop [of "\<lambda>t. log_at (rs_x s XOR rs_x t)"]
    by (simp add: sum_list_subtractf)
  then have "gexp ((\<Sum>t\<leftarrow>shares. log_at (rs_x t XOR x)) - log_at (rs_x s XOR x)
          - (\<Sum>t\<leftarrow>shares. log_at (rs_x s XOR rs_x t)))
      = (\<Prod>t\<leftarrow>others. gexp (log_at (rs_x t XOR x) - log_at (rs_x s XOR rs_x t)))"
    by (simp only: gexp_sum_list)
  also have "\<dots> = (\<Prod>t\<leftarrow>others. inverse (gf_of_byte (rs_x s) - gf_of_byte (rs_x t)) *
             (gf_of_byte x - gf_of_byte (rs_x t)))"
  proof (rule arg_cong [where f = prod_list], rule map_cong [OF refl])
    fix t assume t: "t \<in> set others"
    then have "rs_x t \<noteq> x" "rs_x s \<noteq> rs_x t" using assms(3) by (auto simp: others_def)
    then show "gexp (log_at (rs_x t XOR x) - log_at (rs_x s XOR rs_x t)) =
        inverse (gf_of_byte (rs_x s) - gf_of_byte (rs_x t)) * (gf_of_byte x - gf_of_byte (rs_x t))"
      using gexp_add [of "log_at (rs_x t XOR x)" "- log_at (rs_x s XOR rs_x t)"]
      by (simp add: gexp_minus gexp_log_xor gf_minus_eq_plus add.commute mult.commute)
  qed
  finally show ?thesis .
qed

lemma exp_table_term:
  "gf_of_byte (if b \<noteq> 0 then of_nat (EXP_TABLE ! nat ((log_at b + e mod 255) mod 255)) else 0)
     = gf_of_byte b * gexp e"
proof (cases "b = 0")
  case True
  have "gf_of_byte 0 = 0" by simp
  with True show ?thesis by simp
next
  case False
  have "gf_of_byte (of_nat (EXP_TABLE ! nat ((log_at b + e mod 255) mod 255)))
      = gexp (log_at b + e)"
    by (simp add: gexp_def bexp_def mod_add_right_eq)
  then show ?thesis using False by (simp add: gexp_add gexp_log_at)
qed

lemma interpolate_step_Inr:
  assumes "length (rs_data s) = L" "length acc = L"
  shows "\<exists>out. interpolate_step shares x lp s acc = Inr out \<and> length out = L \<and>
    (\<forall>k < L. gf_of_byte (out ! k) = gf_of_byte (acc ! k) + gf_of_byte (rs_data s ! k) *
       gexp (lp - log_at (rs_x s XOR x) - (\<Sum>t\<leftarrow>shares. log_at (rs_x s XOR rs_x t))))"
  using assms
  by (simp add: interpolate_step_def zip_strict_def Let_def gf_of_byte_xor exp_table_term
      del: of_nat_numeral)

lemma interpolate_fold_Inr:
  assumes "\<forall>s \<in> set ss. length (rs_data s) = L" "length acc = L"
  shows "\<exists>out. rfold (interpolate_step shares x lp) ss acc = Inr out \<and> length out = L \<and>
    (\<forall>k < L. gf_of_byte (out ! k) = gf_of_byte (acc ! k) + (\<Sum>s\<leftarrow>ss. gf_of_byte (rs_data s ! k) *
       gexp (lp - log_at (rs_x s XOR x) - (\<Sum>t\<leftarrow>shares. log_at (rs_x s XOR rs_x t)))))"
  using assms
proof (induction ss arbitrary: acc)
  case Nil
  then show ?case by simp
next
  case (Cons s ss)
  obtain a where a: "interpolate_step shares x lp s acc = Inr a" "length a = L"
    "\<And>k. k < L \<Longrightarrow> gf_of_byte (a ! k) = gf_of_byte (acc ! k) + gf_of_byte (rs_data s ! k) *
       gexp (lp - log_at (rs_x s XOR x) - (\<Sum>t\<leftarrow>shares. log_at (rs_x s XOR rs_x t)))"
    using interpolate_step_Inr [of s L acc shares x lp] Cons.prems by auto
  with Cons.IH [of a] Cons.prems show ?case by (auto simp: add.assoc)
qed

lemma remdups_const:
  "xs \<noteq> [] \<Longrightarrow> \<forall>s \<in> set xs. f s = c \<Longrightarrow> remdups (map f xs) = [c]"
proof (induction xs)
  case (Cons y ys)
  then show ?case by (cases ys) auto
qed simp

lemma interpolate_lagrange:
  fixes shares :: "raw_share list"
  assumes d: "distinct (map rs_x shares)" and ne: "shares \<noteq> []"
    and L: "\<forall>s \<in> set shares. length (rs_data s) = L"
  shows "interpolate shares x =
    Inr (map (\<lambda>k. byte_of_gf (lagrange (byte_points shares k) (gf_of_byte x))) [0..<L])"
proof -
  have x_ok: "length (remdups (map rs_x shares)) = length shares"
    using d by (simp add: distinct_remdups_id)
  have len: "remdups (map (\<lambda>s. length (rs_data s)) shares) = [L]"
    using remdups_const [OF ne, of "\<lambda>s. length (rs_data s)" L] L by simp
  show ?thesis
  proof (cases "find (\<lambda>s. rs_x s = x) shares")
    case (Some s)
    then have s: "s \<in> set shares" "rs_x s = x" by (auto simp: find_Some_iff)
    have "lagrange (byte_points shares k) (gf_of_byte x) = gf_of_byte (rs_data s ! k)" for k
      using lagrange_at_point [OF distinct_byte_points [OF d],
          of "(gf_of_byte (rs_x s), gf_of_byte (rs_data s ! k))" k] s
      by (auto simp: byte_points_def)
    then have "map (\<lambda>k. byte_of_gf (lagrange (byte_points shares k) (gf_of_byte x))) [0..<L] = rs_data s"
      using s(1) L by (simp add: map_nth_upt_id)
    then show ?thesis using Some x_ok len by (simp add: interpolate_def)
  next
    case None
    then have no: "\<forall>t \<in> set shares. rs_x t \<noteq> x" by (auto simp: find_None_iff)
    let ?lp = "\<Sum>share\<leftarrow>shares. log_at (rs_x share XOR x)"
    obtain out where out: "rfold (interpolate_step shares x ?lp) shares (replicate L 0) = Inr out"
      "length out = L"
      "\<And>k. k < L \<Longrightarrow> gf_of_byte (out ! k) = (\<Sum>s\<leftarrow>shares. gf_of_byte (rs_data s ! k) *
         gexp (?lp - log_at (rs_x s XOR x) - (\<Sum>t\<leftarrow>shares. log_at (rs_x s XOR rs_x t))))"
      using interpolate_fold_Inr [OF L, of "replicate L 0" shares x ?lp]
      by (auto simp: gf_of_byte_eq_0 [THEN iffD2])
    have "gf_of_byte (out ! k) = lagrange (byte_points shares k) (gf_of_byte x)" if "k < L" for k
      unfolding out(3) [OF that] lagrange_def byte_points_def
      by (auto simp: gexp_basis [OF d _ no] filter_map comp_def intro!: arg_cong [where f = sum_list])
    then have "out ! k = byte_of_gf (lagrange (byte_points shares k) (gf_of_byte x))" if "k < L" for k
      using that by (metis byte_of_gf_gf_of_byte)
    then have "out = map (\<lambda>k. byte_of_gf (lagrange (byte_points shares k) (gf_of_byte x))) [0..<L]"
      using out(2) by (intro nth_equalityI) simp_all
    then show ?thesis using None x_ok len out(1) by (simp add: interpolate_def)
  qed
qed


section \<open>Splitting puts every share on one curve per byte\<close>

lemma interpolate_on_curve:
  assumes d: "distinct (map rs_x sub)" and ne: "sub \<noteq> []"
    and on: "\<forall>s \<in> set sub. length (rs_data s) = L \<and>
               (\<forall>k < L. gf_of_byte (rs_data s ! k) = f k (gf_of_byte (rs_x s)))"
    and poly: "\<And>k. polyfun (length sub) (f k)"
  shows "interpolate sub x = Inr (map (\<lambda>k. byte_of_gf (f k (gf_of_byte x))) [0..<L])"
proof -
  have "lagrange (byte_points sub k) (gf_of_byte x) = f k (gf_of_byte x)" if "k < L" for k
    using on that poly [of k] distinct_byte_points [OF d, of k]
    by (intro lagrange_recovers) (auto simp: byte_points_def)
  then show ?thesis
    using interpolate_lagrange [OF d ne, of L x] on by simp
qed

lemma random_shares_Inr:
  "\<exists>ss r'. random_shares len i n r = Inr (ss, r') \<and> map rs_x ss = map of_nat [i..<i + n] \<and>
     (\<forall>s \<in> set ss. length (rs_data s) = len)"
proof (induction n arbitrary: i r)
  case 0
  show ?case by simp
next
  case (Suc n)
  let ?r = "\<lambda>j. r (len + j)"
  obtain ss r' where IH: "random_shares len (Suc i) n ?r = Inr (ss, r')"
    "map rs_x ss = map of_nat [Suc i..<Suc i + n]" "\<forall>s \<in> set ss. length (rs_data s) = len"
    using Suc.IH by blast
  have "[i..<i + Suc n] = i # [Suc i..<Suc i + n]" by (simp add: upt_rec)
  with IH show ?case by (auto simp: random_bytes_def)
qed

lemma of_nat_coordinates:
  assumes "n \<le> 16"
  shows "distinct (map (of_nat :: nat \<Rightarrow> byte) [i..<n])"
    "DIGEST_INDEX \<notin> set (map of_nat [i..<n])" "SECRET_INDEX \<notin> set (map of_nat [i..<n])"
proof -
  have u: "unat (of_nat j :: byte) = j" if "j < n" for j
    using that assms by (intro unat_of_nat_byte) simp
  then show "distinct (map (of_nat :: nat \<Rightarrow> byte) [i..<n])"
    by (auto simp: distinct_map inj_on_def) (metis u)
  have "unat DIGEST_INDEX = 254" "unat SECRET_INDEX = 255"
    by (simp_all add: DIGEST_INDEX_def SECRET_INDEX_def)
  with u assms show "DIGEST_INDEX \<notin> set (map of_nat [i..<n])" "SECRET_INDEX \<notin> set (map of_nat [i..<n])"
    by (force simp del: unat_of_nat)+
qed

lemma digest_index_neq_secret_index [simp]: "DIGEST_INDEX \<noteq> SECRET_INDEX"
  by (simp add: DIGEST_INDEX_def SECRET_INDEX_def)

text \<open>\<open>curve base\<close>: the shares \<open>base\<close> fix the curves, and the secret and its digest are on them.\<close>

definition curve_base :: "raw_share list \<Rightarrow> nat \<Rightarrow> bytes \<Rightarrow> bytes \<Rightarrow> bool" where
  "curve_base base k secret rp \<longleftrightarrow>
     distinct (map rs_x base) \<and> length base = k \<and> 0 < k \<and>
     (\<forall>s \<in> set base. length (rs_data s) = length secret) \<and>
     \<lparr>rs_x = SECRET_INDEX, rs_data = secret\<rparr> \<in> set base \<and>
     \<lparr>rs_x = DIGEST_INDEX, rs_data = create_digest rp secret @ rp\<rparr> \<in> set base"

definition on_curve :: "raw_share list \<Rightarrow> nat \<Rightarrow> raw_share \<Rightarrow> bool" where
  "on_curve base L s \<longleftrightarrow> length (rs_data s) = L \<and>
     (\<forall>k < L. gf_of_byte (rs_data s ! k) = lagrange (byte_points base k) (gf_of_byte (rs_x s)))"

lemma on_curve_base:
  assumes "distinct (map rs_x base)" "s \<in> set base" "length (rs_data s) = L"
  shows "on_curve base L s"
  using lagrange_at_point [OF distinct_byte_points [OF assms(1)],
      of "(gf_of_byte (rs_x s), gf_of_byte (rs_data s ! k))" k for k] assms
  by (auto simp: on_curve_def byte_points_def)

lemma length_create_digest [simp]: "length (create_digest rp m) = 4"
  by (simp add: create_digest_def DIGEST_LENGTH_BYTES_def)

lemma split_secret_raw_curve:
  assumes k: "2 \<le> k" "k \<le> n" "n \<le> 16" and L: "4 \<le> length secret"
  shows "\<exists>ss r' base rp. split_secret_raw k n secret r = Inr (ss, r') \<and>
     map rs_x ss = map of_nat [0..<nat n] \<and> curve_base base (nat k) secret rp \<and>
     (\<forall>s \<in> set ss. on_curve base (length secret) s)"
proof -
  let ?c = "nat (k - 2)" and ?L = "length secret"
  obtain ss r1 where ss: "random_shares ?L 0 ?c r = Inr (ss, r1)"
    "map rs_x ss = map of_nat [0..<?c]" "\<forall>s \<in> set ss. length (rs_data s) = ?L"
    using random_shares_Inr [of ?L 0 ?c r] by auto
  define rp where "rp = map r1 [0..<?L - 4]"
  let ?r2 = "\<lambda>i. r1 (?L - 4 + i)"
  define base where "base = ss @ [\<lparr>rs_x = DIGEST_INDEX, rs_data = create_digest rp secret @ rp\<rparr>,
    \<lparr>rs_x = SECRET_INDEX, rs_data = secret\<rparr>]"
  have rb: "random_bytes (int ?L - int DIGEST_LENGTH_BYTES) r1 = Inr (rp, ?r2)"
    using L by (simp add: random_bytes_def rp_def DIGEST_LENGTH_BYTES_def nat_diff_distrib)
  have len: "length ss = ?c" using arg_cong [OF ss(2), of length] by simp
  have c16: "?c \<le> 16" using k by simp
  have db: "distinct (map rs_x base)"
    unfolding base_def using ss(2) of_nat_coordinates [OF c16, of 0] by auto
  have lb: "\<forall>s \<in> set base. length (rs_data s) = ?L"
    using ss(3) L by (auto simp: base_def rp_def)
  have base: "curve_base base (nat k) secret rp"
    unfolding curve_base_def using db lb len k(1) by (auto simp: base_def)
  define val where "val i = map (\<lambda>k. byte_of_gf (lagrange (byte_points base k) (gf_of_byte (of_nat i)))) [0..<?L]"
    for i :: nat
  define rest where "rest = map (\<lambda>i. \<lparr>rs_x = of_nat i, rs_data = val i\<rparr>) [?c..<nat n]"
  have "interpolate base (of_nat i) = Inr (val i)" for i
    unfolding val_def using db lb by (intro interpolate_lagrange) (auto simp: base_def)
  then have "rmap (\<lambda>i. rbind (interpolate base (of_nat i))
        (\<lambda>d. Inr \<lparr>rs_x = of_nat i, rs_data = d\<rparr>)) [?c..<nat n] = Inr rest"
    unfolding rest_def by (intro rmap_Inr_map) simp
  then have split: "split_secret_raw k n secret r = Inr (ss @ rest, ?r2)"
    using k ss(1) rb by (simp add: split_secret_raw_def MAX_SHARE_COUNT_def flip: base_def)
  have xs: "map rs_x (ss @ rest) = map of_nat [0..<nat n]"
  proof -
    have "?c \<le> nat n" using k by simp
    then have "[0..<nat n] = [0..<?c] @ [?c..<nat n]"
      by (metis le_add_diff_inverse upt_add_eq_append zero_le)
    then show ?thesis using ss(2) by (simp add: rest_def comp_def)
  qed
  have "on_curve base ?L s" if "s \<in> set (ss @ rest)" for s
  proof (cases "s \<in> set ss")
    case True
    then show ?thesis using db ss(3) by (intro on_curve_base) (auto simp: base_def)
  next
    case False
    then show ?thesis using that by (auto simp: rest_def on_curve_def val_def)
  qed
  with split xs base show ?thesis by blast
qed

lemma recover_on_curve:
  assumes base: "curve_base base k secret rp" and on: "\<forall>s \<in> set sub. on_curve base (length secret) s"
    and d: "distinct (map rs_x sub)" and len: "k \<le> length sub"
  shows "interpolate sub SECRET_INDEX = Inr secret"
    "interpolate sub DIGEST_INDEX = Inr (create_digest rp secret @ rp)"
proof -
  let ?f = "\<lambda>k. lagrange (byte_points base k)"
  have db: "distinct (map rs_x base)" and ne: "sub \<noteq> []"
    using base len by (auto simp: curve_base_def)
  have "length (byte_points base j) \<le> length sub" for j
    using base len by (simp add: byte_points_def curve_base_def)
  then have poly: "polyfun (length sub) (?f j)" for j
    by (rule polyfun_mono [OF polyfun_lagrange [OF distinct_byte_points [OF db]]])
  have all: "interpolate sub x = Inr (map (\<lambda>j. byte_of_gf (?f j (gf_of_byte x))) [0..<length secret])" for x
    using on by (intro interpolate_on_curve [OF d ne _ poly]) (auto simp: on_curve_def)
  have at: "map (\<lambda>j. byte_of_gf (?f j (gf_of_byte (rs_x s)))) [0..<length secret] = rs_data s"
    if "s \<in> set base" for s
  proof -
    have l: "length (rs_data s) = length secret" using base that by (auto simp: curve_base_def)
    have "on_curve base (length secret) s" using that db l by (intro on_curve_base)
    then have "byte_of_gf (?f j (gf_of_byte (rs_x s))) = rs_data s ! j" if "j < length secret" for j
      using that by (metis byte_of_gf_gf_of_byte on_curve_def)
    then show ?thesis using l by (intro nth_equalityI) simp_all
  qed
  show "interpolate sub SECRET_INDEX = Inr secret"
    using all [of SECRET_INDEX] at [of "\<lparr>rs_x = SECRET_INDEX, rs_data = secret\<rparr>"] base
    by (simp add: curve_base_def)
  show "interpolate sub DIGEST_INDEX = Inr (create_digest rp secret @ rp)"
    using all [of DIGEST_INDEX] at [of "\<lparr>rs_x = DIGEST_INDEX, rs_data = create_digest rp secret @ rp\<rparr>"] base
    by (simp add: curve_base_def)
qed


section \<open>The contract of a threshold scheme\<close>

text \<open>
  \<open>split k n m r\<close> makes \<open>n\<close> shares of \<open>m\<close>, of which any \<open>k\<close> with different indices recover \<open>m\<close>.
\<close>

locale threshold_sharing =
  fixes split :: "int \<Rightarrow> int \<Rightarrow> 'm \<Rightarrow> 'r \<Rightarrow> ('e, 's list \<times> 'r) result"
    and recover :: "int \<Rightarrow> 's list \<Rightarrow> ('e, 'm) result"
    and index :: "'s \<Rightarrow> 'i" and payload :: "'s \<Rightarrow> 'm" and share_of :: "'i \<Rightarrow> 'm \<Rightarrow> 's"
    and sharable :: "'m \<Rightarrow> bool" and max_count :: int
  assumes split_total: "sharable m \<Longrightarrow> 1 \<le> k \<Longrightarrow> k \<le> n \<Longrightarrow> n \<le> max_count \<Longrightarrow>
      \<exists>ss r'. split k n m r = Inr (ss, r')"
    and split_count: "sharable m \<Longrightarrow> split k n m r = Inr (ss, r') \<Longrightarrow>
      length ss = nat n \<and> distinct (map index ss) \<and> 1 \<le> k \<and> k \<le> n \<and> n \<le> max_count"
    and split_sharable: "sharable m \<Longrightarrow> split k n m r = Inr (ss, r') \<Longrightarrow> s \<in> set ss \<Longrightarrow>
      sharable (payload s)"
    and recover_split: "sharable m \<Longrightarrow> split k n m r = Inr (ss, r') \<Longrightarrow> set sub \<subseteq> set ss \<Longrightarrow>
      distinct (map index sub) \<Longrightarrow> nat k \<le> length sub \<Longrightarrow> recover k sub = Inr m"
    and share_of_index [simp]: "share_of (index s) (payload s) = s"
begin

text \<open>Every payload of a share set is itself shared; enough members of enough groups recover. A
  descriptor \<open>d\<close> in \<open>ds\<close> stands for a group \<open>grp d\<close> that contributes the members \<open>sel d\<close>.\<close>

lemma recover_two_level:
  assumes "sharable m" "split k n m r = Inr (gs, r')"
    and groups: "\<And>d. d \<in> set ds \<Longrightarrow> grp d \<in> set gs \<and> index (grp d) = idx d"
    and "distinct (map idx ds)" "nat k \<le> length ds"
    and members: "\<And>d. d \<in> set ds \<Longrightarrow> \<exists>nt rr ms rr'.
      split (kt d) nt (payload (grp d)) rr = Inr (ms, rr') \<and>
      set (sel d) \<subseteq> set ms \<and> distinct (map index (sel d)) \<and> nat (kt d) \<le> length (sel d)"
  shows "rbind (rmap (\<lambda>d. rbind (recover (kt d) (sel d)) (\<lambda>v. Inr (share_of (idx d) v))) ds)
           (recover k) = Inr m"
proof -
  have "rbind (recover (kt d) (sel d)) (\<lambda>v. Inr (share_of (idx d) v)) = Inr (grp d)" if "d \<in> set ds" for d
  proof -
    have "sharable (payload (grp d))" using assms(1,2) groups [OF that] split_sharable by blast
    then have "recover (kt d) (sel d) = Inr (payload (grp d))"
      using members [OF that] recover_split by blast
    moreover have "share_of (idx d) (payload (grp d)) = grp d"
      using groups [OF that] share_of_index by metis
    ultimately show ?thesis by simp
  qed
  then have "rmap (\<lambda>d. rbind (recover (kt d) (sel d)) (\<lambda>v. Inr (share_of (idx d) v))) ds = Inr (map grp ds)"
    by (rule rmap_Inr_map)
  moreover have "map index (map grp ds) = map idx ds" using groups by simp
  ultimately show ?thesis
    using recover_split [OF assms(1,2), of "map grp ds"] groups assms(4,5) by (auto simp del: map_map)
qed

lemma split_Inl_bounds:
  "sharable m \<Longrightarrow> split k n m r = Inl e \<Longrightarrow> k < 1 \<or> n < k \<or> max_count < n"
  using split_total [of m k n r] by (metis not_le sum.distinct(1))

end

definition sharable :: "bytes \<Rightarrow> bool" where
  "sharable m \<longleftrightarrow> 4 \<le> length m"

lemma split_guards:
  "split_secret_raw k n m r = Inr (ss, r') \<Longrightarrow> 1 \<le> k \<and> k \<le> n \<and> n \<le> 16"
  by (auto simp: split_secret_raw_def rbind_eq_Inr MAX_SHARE_COUNT_def)

lemma split_secret_raw_one:
  "1 \<le> n \<Longrightarrow> n \<le> 16 \<Longrightarrow> split_secret_raw 1 n m r =
     Inr (map (\<lambda>i. \<lparr>rs_x = of_nat i, rs_data = m\<rparr>) [0..<nat n], r)"
  by (simp add: split_secret_raw_def MAX_SHARE_COUNT_def)

lemma split_secret_raw_total:
  assumes "sharable m" "1 \<le> k" "k \<le> n" "n \<le> 16"
  shows "\<exists>ss r'. split_secret_raw k n m r = Inr (ss, r') \<and> map rs_x ss = map of_nat [0..<nat n] \<and>
    (\<forall>s \<in> set ss. length (rs_data s) = length m)"
proof (cases "k = 1")
  case True
  then show ?thesis using assms by (auto simp: split_secret_raw_one)
next
  case False
  then show ?thesis
    using split_secret_raw_curve [of k n m r] assms by (fastforce simp: sharable_def on_curve_def)
qed

lemma split_secret_raw_coordinates:
  assumes "sharable m" "split_secret_raw k n m r = Inr (ss, r')"
  shows "map rs_x ss = map of_nat [0..<nat n]" "\<forall>s \<in> set ss. length (rs_data s) = length m"
  using split_secret_raw_total [OF assms(1), of k n r] split_guards [OF assms(2)] assms(2) by auto

lemma recover_split_raw:
  assumes "sharable m" "split_secret_raw k n m r = Inr (ss, r')" "set sub \<subseteq> set ss"
    "distinct (map rs_x sub)" "nat k \<le> length sub"
  shows "recover_secret_raw k sub = Inr m"
proof (cases "k = 1")
  case True
  have "\<forall>s \<in> set ss. rs_data s = m"
    using assms(2) split_guards [OF assms(2)] True by (auto simp: split_secret_raw_one)
  moreover obtain s sub' where "sub = s # sub'" using assms(5) True by (cases sub) auto
  ultimately show ?thesis using True assms(3) by (auto simp: recover_secret_raw_def)
next
  case False
  then have g: "2 \<le> k" "k \<le> n" "n \<le> 16" using split_guards [OF assms(2)] by auto
  obtain base rp where base: "curve_base base (nat k) m rp" "\<forall>s \<in> set ss. on_curve base (length m) s"
    using split_secret_raw_curve [OF g, of m r] assms(1,2) by (auto simp: sharable_def)
  then have "\<forall>s \<in> set sub. on_curve base (length m) s" using assms(3) by blast
  with recover_on_curve [OF base(1) _ assms(4,5)] False show ?thesis
    by (simp add: recover_secret_raw_def DIGEST_LENGTH_BYTES_def)
qed

interpretation shamir: threshold_sharing split_secret_raw recover_secret_raw rs_x rs_data
  "\<lambda>i d. \<lparr>rs_x = i, rs_data = d\<rparr>" sharable 16
proof unfold_locales
  fix m k n r and ss :: "raw_share list" and r' :: entropy
  assume ok: "sharable m" "split_secret_raw k n m r = Inr (ss, r')"
  have g: "1 \<le> k \<and> k \<le> n \<and> n \<le> 16" using split_guards [OF ok(2)] .
  have xs: "map rs_x ss = map of_nat [0..<nat n]" "\<forall>s \<in> set ss. length (rs_data s) = length m"
    using split_secret_raw_coordinates [OF ok] .
  show "length ss = nat n \<and> distinct (map rs_x ss) \<and> 1 \<le> k \<and> k \<le> n \<and> n \<le> 16"
  proof -
    have "nat n \<le> 16" using g by (simp add: nat_le_iff)
    from of_nat_coordinates(1) [OF this, of 0] show ?thesis
      unfolding xs(1) using g arg_cong [OF xs(1), of length] by simp
  qed
  show "sharable (rs_data s)" if "s \<in> set ss" for s
    using ok(1) xs(2) that by (simp add: sharable_def)
qed (use split_secret_raw_total recover_split_raw in \<open>fastforce+\<close>)

end
