(* ===== verification/Feistel.thy ===== *)
theory Feistel
  imports Shamir
begin

unbundle bit_operations_syntax

text \<open>
  The passphrase encryption of the master secret in \<open>keyshare/slip39.py\<close>: a four-round Feistel
  network whose round function is PBKDF2-HMAC-SHA256 (\<open>_xor\<close>, \<open>_round_function\<close>, \<open>_get_salt\<close>,
  \<open>_encrypt\<close>, \<open>_decrypt\<close>). The locale \<open>feistel_round\<close> states what the network needs of a round
  function, and its lemmas hold for any number of rounds.
\<close>

section \<open>Definitions\<close>

definition BASE_ITERATION_COUNT :: nat where "BASE_ITERATION_COUNT = 10000"
definition ROUND_COUNT :: nat where "ROUND_COUNT = 4"

definition ascii_bytes :: "string \<Rightarrow> bytes" where
  "ascii_bytes s = map of_char s"

definition CUSTOMIZATION_STRING_ORIG :: bytes where
  "CUSTOMIZATION_STRING_ORIG = ascii_bytes ''shamir''"

definition CUSTOMIZATION_STRING_EXTENDABLE :: bytes where
  "CUSTOMIZATION_STRING_EXTENDABLE = ascii_bytes ''shamir_extendable''"

definition customization_string :: "bool \<Rightarrow> bytes" where
  "customization_string extendable =
     (if extendable then CUSTOMIZATION_STRING_EXTENDABLE else CUSTOMIZATION_STRING_ORIG)"

definition xor_bytes :: "bytes \<Rightarrow> bytes \<Rightarrow> (keyshare_error, bytes) result" where
  "xor_bytes a b = rbind (zip_strict a b) (\<lambda>ps. Inr (map (\<lambda>(x, y). x XOR y) ps))"

text \<open>\<open>hashlib.pbkdf2_hmac\<close> refuses a derived key of length 0; \<open><<\<close> refuses a negative count.\<close>

definition round_function ::
  "nat \<Rightarrow> bytes \<Rightarrow> int \<Rightarrow> bytes \<Rightarrow> bytes \<Rightarrow> (keyshare_error, bytes) result" where
  "round_function i passphrase exponent salt r =
     rbind (raise_if (exponent < 0) Py_ValueError) (\<lambda>_.
     rbind (raise_if (r = []) Py_ValueError) (\<lambda>_.
     Inr (pbkdf2_hmac_sha256 ([of_nat i] @ passphrase) (salt @ r)
           (push_bit (nat exponent) BASE_ITERATION_COUNT div ROUND_COUNT) (length r))))"

definition get_salt :: "int \<Rightarrow> bool \<Rightarrow> (keyshare_error, bytes) result" where
  "get_salt identifier extendable =
     (if extendable then Inr []
      else if identifier < 0 then Inl Py_OverflowError
      else (case int_to_bytes_be (nat identifier) (bits_to_bytes ID_LENGTH_BITS) of
              None \<Rightarrow> Inl Py_OverflowError
            | Some b \<Rightarrow> Inr (CUSTOMIZATION_STRING_ORIG @ b)))"

text \<open>One iteration of the loop: \<open>left, right = right, _xor(left, f)\<close>.\<close>

definition feistel_step ::
  "(nat \<Rightarrow> bytes \<Rightarrow> (keyshare_error, bytes) result) \<Rightarrow> nat \<Rightarrow> bytes \<times> bytes
     \<Rightarrow> (keyshare_error, bytes \<times> bytes) result" where
  "feistel_step F i lr =
     (case lr of (left, right) \<Rightarrow>
        rbind (F i right) (\<lambda>f. rbind (xor_bytes left f) (\<lambda>x. Inr (right, x))))"

definition encrypt :: "bytes \<Rightarrow> bytes \<Rightarrow> int \<Rightarrow> int \<Rightarrow> bool \<Rightarrow> (keyshare_error, bytes) result" where
  "encrypt master_secret passphrase iteration_exponent identifier extendable =
     (let left = take (length master_secret div 2) master_secret;
          right = drop (length master_secret div 2) master_secret in
      rbind (get_salt identifier extendable) (\<lambda>salt.
      rbind (rfold (feistel_step (\<lambda>i. round_function i passphrase iteration_exponent salt))
               [0..<ROUND_COUNT] (left, right))
        (\<lambda>(left, right). Inr (right @ left))))"

definition decrypt :: "bytes \<Rightarrow> bytes \<Rightarrow> int \<Rightarrow> int \<Rightarrow> bool \<Rightarrow> (keyshare_error, bytes) result" where
  "decrypt encrypted_master_secret passphrase iteration_exponent identifier extendable =
     (let left = take (length encrypted_master_secret div 2) encrypted_master_secret;
          right = drop (length encrypted_master_secret div 2) encrypted_master_secret in
      rbind (get_salt identifier extendable) (\<lambda>salt.
      rbind (rfold (feistel_step (\<lambda>i. round_function i passphrase iteration_exponent salt))
               (rev [0..<ROUND_COUNT]) (left, right))
        (\<lambda>(left, right). Inr (right @ left))))"

section \<open>Feistel networks\<close>

lemma xor_bytes_eq_map2: "length a = length b \<Longrightarrow> xor_bytes a b = Inr (map2 (XOR) a b)"
  by (simp add: xor_bytes_def zip_strict_def)

lemma map2_xor_twice: "length a = length b \<Longrightarrow> map2 (XOR) (map2 (XOR) a b) b = (a :: bytes)"
  by (induction a b rule: list_induct2) (simp_all add: xor.assoc)

locale feistel_round =
  fixes F :: "nat \<Rightarrow> bytes \<Rightarrow> (keyshare_error, bytes) result"
  assumes round_length: "r \<noteq> [] \<Longrightarrow> \<exists>f. F i r = Inr f \<and> length f = length r"
begin

lemma step_total:
  assumes "length l = length r" "r \<noteq> []"
  shows "\<exists>x. feistel_step F i (l, r) = Inr (r, x) \<and> length x = length r \<and>
    feistel_step F i (x, r) = Inr (r, l)"
proof -
  obtain f where f: "F i r = Inr f" "length f = length r" using round_length assms by blast
  have "feistel_step F i (l, r) = Inr (r, map2 (XOR) l f)"
    using f assms by (simp add: feistel_step_def xor_bytes_eq_map2)
  moreover have "feistel_step F i (map2 (XOR) l f, r) = Inr (r, l)"
    using f assms by (simp add: feistel_step_def xor_bytes_eq_map2 map2_xor_twice)
  ultimately show ?thesis using f assms by simp
qed

text \<open>The rounds never fail on equal halves, and running them backwards on the exchanged halves
  restores the exchanged input.\<close>

lemma rounds_invert:
  assumes "length l = length r" "r \<noteq> []"
  shows "\<exists>l' r'. rfold (feistel_step F) is (l, r) = Inr (l', r') \<and> length l' = length r \<and>
    length r' = length r \<and> rfold (feistel_step F) (rev is) (r', l') = Inr (r, l)"
  using assms
proof (induction "is" arbitrary: l r)
  case Nil
  then show ?case by simp
next
  case (Cons i js)
  obtain x where x: "feistel_step F i (l, r) = Inr (r, x)" "length x = length r"
    "feistel_step F i (x, r) = Inr (r, l)" using step_total [OF Cons.prems] by blast
  have "length r = length x" "x \<noteq> []" using x(2) Cons.prems by auto
  from Cons.IH [OF this] obtain l' r' where "rfold (feistel_step F) js (r, x) = Inr (l', r')"
    "length l' = length x" "length r' = length x"
    "rfold (feistel_step F) (rev js) (r', l') = Inr (x, r)" by blast
  with x show ?case by (simp add: rfold_append)
qed

end

lemma length_round_function:
  assumes "0 \<le> e" "r \<noteq> []"
  shows "\<exists>f. round_function i p e salt r = Inr f \<and> length f = length r"
  using assms by (simp add: round_function_def)

interpretation pbkdf2_round: feistel_round "\<lambda>i. round_function i p (int e) salt" for p e salt
  by unfold_locales (simp add: length_round_function)

lemma get_salt_total: "0 \<le> idn \<Longrightarrow> idn < 2 ^ 16 \<Longrightarrow> \<exists>salt. get_salt idn ext = Inr salt"
  by (auto simp: get_salt_def bits_to_bytes_def ID_LENGTH_BITS_def int_to_bytes_be_def nat_less_iff)

lemma encrypt_decrypt:
  assumes ms: "ms \<noteq> []" "even (length ms)" and e: "0 \<le> e" and idr: "0 \<le> idn" "idn < 2 ^ 16"
  shows "\<exists>c. encrypt ms p e idn ext = Inr c \<and> length c = length ms \<and> decrypt c p e idn ext = Inr ms"
proof -
  let ?h = "length ms div 2"
  let ?l = "take ?h ms" and ?r = "drop ?h ms"
  obtain salt where salt: "get_salt idn ext = Inr salt" using get_salt_total [OF idr] by blast
  obtain n where n: "e = int n" using e nonneg_int_cases by blast
  have "length ?l = length ?r" "?r \<noteq> []" using ms by (auto elim!: evenE)
  from pbkdf2_round.rounds_invert [OF this, of p n salt "[0..<ROUND_COUNT]"]
  obtain l r where lr:
    "rfold (feistel_step (\<lambda>i. round_function i p e salt)) [0..<ROUND_COUNT] (?l, ?r) = Inr (l, r)"
    "length l = length ?r" "length r = length ?r"
    "rfold (feistel_step (\<lambda>i. round_function i p e salt)) (rev [0..<ROUND_COUNT]) (r, l) = Inr (?r, ?l)"
    unfolding n by blast
  have "length (r @ l) div 2 = length r" using lr(2,3) unfolding length_append by linarith
  then have "decrypt (r @ l) p e idn ext = Inr ms"
    using lr salt by (simp add: decrypt_def)
  moreover have "encrypt ms p e idn ext = Inr (r @ l)" using lr salt by (simp add: encrypt_def)
  moreover have "length (r @ l) = length ms" using lr ms(2) by (auto elim!: evenE)
  ultimately show ?thesis by blast
qed

end
