(* ===== verification/Share_Format.thy ===== *)
theory Share_Format
  imports Feistel
begin

unbundle bit_operations_syntax

text \<open>
  The share format of \<open>keyshare/slip39.py\<close>: the named tuples \<open>_Share\<close>,
  \<open>_ShareCommonParameters\<close> and \<open>_ShareGroupParameters\<close>, the encoding of a share as checksummed
  words (\<open>_encode_id_exp\<close>, \<open>_encode_share_params\<close>, \<open>words\<close>, \<open>mnemonic\<close>), its parser
  \<open>from_mnemonic\<close>, and the checks \<open>share_identifier\<close> and \<open>check_share\<close>.
\<close>

section \<open>Definitions\<close>

record share_common_parameters =
  cp_identifier :: int
  cp_extendable :: bool
  cp_iteration_exponent :: int
  cp_group_threshold :: int
  cp_group_count :: int

record share_group_parameters =
  gp_identifier :: int
  gp_extendable :: bool
  gp_iteration_exponent :: int
  gp_group_index :: int
  gp_group_threshold :: int
  gp_group_count :: int
  gp_member_threshold :: int

record share =
  sh_identifier :: int
  sh_extendable :: bool
  sh_iteration_exponent :: int
  sh_group_index :: int
  sh_group_threshold :: int
  sh_group_count :: int
  sh_member_index :: int
  sh_member_threshold :: int
  sh_value :: bytes

definition common_parameters :: "share \<Rightarrow> share_common_parameters" where
  "common_parameters s =
     \<lparr>cp_identifier = sh_identifier s, cp_extendable = sh_extendable s,
      cp_iteration_exponent = sh_iteration_exponent s,
      cp_group_threshold = sh_group_threshold s, cp_group_count = sh_group_count s\<rparr>"

definition group_parameters :: "share \<Rightarrow> share_group_parameters" where
  "group_parameters s =
     \<lparr>gp_identifier = sh_identifier s, gp_extendable = sh_extendable s,
      gp_iteration_exponent = sh_iteration_exponent s, gp_group_index = sh_group_index s,
      gp_group_threshold = sh_group_threshold s, gp_group_count = sh_group_count s,
      gp_member_threshold = sh_member_threshold s\<rparr>"

definition encode_id_exp :: "share \<Rightarrow> nat list" where
  "encode_id_exp s =
     (let v = push_bit (ITERATION_EXP_LENGTH_BITS + EXTENDABLE_FLAG_LENGTH_BITS) (sh_identifier s);
          v = v + push_bit ITERATION_EXP_LENGTH_BITS (of_bool (sh_extendable s));
          v = v + sh_iteration_exponent s
      in int_to_word_indices v ID_EXP_LENGTH_WORDS)"

definition encode_share_params :: "share \<Rightarrow> nat list" where
  "encode_share_params s =
     (let v = sh_group_index s;
          v = push_bit 4 v;
          v = v + (sh_group_threshold s - 1);
          v = push_bit 4 v;
          v = v + (sh_group_count s - 1);
          v = push_bit 4 v;
          v = v + sh_member_index s;
          v = push_bit 4 v;
          v = v + (sh_member_threshold s - 1)
      in int_to_word_indices v 2)"

definition share_data :: "share \<Rightarrow> nat list" where
  "share_data s =
     (let value_word_count = bits_to_words (length (sh_value s) * 8);
          value_int = int_from_bytes_be (sh_value s);
          value_data = int_to_word_indices (int value_int) value_word_count
      in encode_id_exp s @ encode_share_params s @ value_data)"

definition words :: "share \<Rightarrow> (keyshare_error, string list) result" where
  "words s =
     (let checksum = rs1024_create_checksum (share_data s) (customization_string (sh_extendable s))
      in words_from_indices (share_data s @ checksum))"

definition mnemonic :: "share \<Rightarrow> (keyshare_error, string) result" where
  "mnemonic s = rbind (words s) (\<lambda>ws. Inr (py_join '' '' ws))"

text \<open>\<open>parse_indices text data\<close> is \<open>from_mnemonic\<close> after its first line \<open>data = ...\<close>; \<open>text\<close> is
  quoted in the checksum error.\<close>

definition parse_indices :: "string \<Rightarrow> nat list \<Rightarrow> (keyshare_error, share) result" where
  "parse_indices text data =
     rbind (raise_if (length data < MIN_MNEMONIC_LENGTH_WORDS) Mnemonic_too_short) (\<lambda>_.
     let padding_len = RADIX_BITS * (length data - METADATA_LENGTH_WORDS) mod 16 in
     rbind (raise_if (padding_len > 8) Mnemonic_length_invalid) (\<lambda>_.
     let id_exp_int = int_from_word_indices (take ID_EXP_LENGTH_WORDS data);
         ident = drop_bit (EXTENDABLE_FLAG_LENGTH_BITS + ITERATION_EXP_LENGTH_BITS) id_exp_int;
         ext = (drop_bit ITERATION_EXP_LENGTH_BITS id_exp_int AND 1 \<noteq> 0);
         it_exp = id_exp_int AND (2 ^ ITERATION_EXP_LENGTH_BITS - 1)
     in rbind (raise_if (\<not> rs1024_verify_checksum data (customization_string ext))
           (Mnemonic_checksum_invalid (take (ID_EXP_LENGTH_WORDS + 2) (py_split text)))) (\<lambda>_.
     let share_params_int =
           int_from_word_indices (take 2 (drop ID_EXP_LENGTH_WORDS data));
         param = (\<lambda>i. drop_bit (i * 4) share_params_int AND 15);
         gindex = param 4; gthreshold = param 3; gcount = param 2; mindex = param 1;
         mthreshold = param 0
     in rbind (raise_if (gcount < gthreshold) Group_threshold_exceeds_count) (\<lambda>_.
     let value_data = drop (ID_EXP_LENGTH_WORDS + 2) (take (length data - CHECKSUM_LENGTH_WORDS) data);
         value_byte_count = bits_to_bytes (RADIX_BITS * length value_data - padding_len);
         value_int = int_from_word_indices value_data
     in case int_to_bytes_be value_int value_byte_count of
          None \<Rightarrow> Inl Mnemonic_padding_invalid
        | Some v \<Rightarrow>
            Inr \<lparr>sh_identifier = int ident, sh_extendable = ext, sh_iteration_exponent = int it_exp,
                 sh_group_index = int gindex, sh_group_threshold = int gthreshold + 1,
                 sh_group_count = int gcount + 1, sh_member_index = int mindex,
                 sh_member_threshold = int mthreshold + 1, sh_value = v\<rparr>))))"

definition from_mnemonic :: "string \<Rightarrow> (keyshare_error, share) result" where
  "from_mnemonic text = rbind (mnemonic_to_indices text) (parse_indices text)"

definition share_identifier :: "string \<Rightarrow> (keyshare_error, int) result" where
  "share_identifier text = rbind (from_mnemonic text) (\<lambda>s. Inr (sh_identifier s))"

text \<open>\<open>check_share\<close>: the diagnosis is a value; \<open>None\<close> for a share that is fine by itself.\<close>

datatype share_diagnosis =
    Not_a_share_word nat string
  | Too_few_words nat
  | Checksum_failed

fun resolve_tokens :: "nat \<Rightarrow> string list \<Rightarrow> share_diagnosis + nat list" where
  "resolve_tokens position [] = Inr []"
| "resolve_tokens position (token # tokens) =
     (case word_index token of
        Inl _ \<Rightarrow> Inl (Not_a_share_word position (py_lower token))
      | Inr i \<Rightarrow> rbind (resolve_tokens (Suc position) tokens) (\<lambda>is. Inr (i # is)))"

definition check_share :: "string \<Rightarrow> share_diagnosis option" where
  "check_share text =
     (case resolve_tokens 1 (py_split text) of
        Inl d \<Rightarrow> Some d
      | Inr indices \<Rightarrow>
          if length indices < MIN_MNEMONIC_LENGTH_WORDS then Some (Too_few_words (length indices))
          else
            let id_exp_int = int_from_word_indices (take ID_EXP_LENGTH_WORDS indices);
                ext = (drop_bit ITERATION_EXP_LENGTH_BITS id_exp_int AND 1 \<noteq> 0)
            in if \<not> rs1024_verify_checksum indices (customization_string ext)
               then Some Checksum_failed else None)"

section \<open>Encodable shares\<close>

definition encodable :: "share \<Rightarrow> bool" where
  "encodable s \<longleftrightarrow>
     0 \<le> sh_identifier s \<and> sh_identifier s < 2 ^ 15 \<and>
     0 \<le> sh_iteration_exponent s \<and> sh_iteration_exponent s < 16 \<and>
     0 \<le> sh_group_index s \<and> sh_group_index s < 16 \<and>
     1 \<le> sh_group_threshold s \<and> sh_group_threshold s \<le> sh_group_count s \<and> sh_group_count s \<le> 16 \<and>
     0 \<le> sh_member_index s \<and> sh_member_index s < 16 \<and>
     1 \<le> sh_member_threshold s \<and> sh_member_threshold s \<le> 16 \<and>
     16 \<le> length (sh_value s) \<and> even (length (sh_value s))"

lemma and_15: "x AND 15 = x mod (16 :: nat)"
proof -
  have "(15 :: nat) = mask 4" by (simp add: mask_eq_exp_minus_1)
  then have "x AND 15 = take_bit 4 x" by (simp only: take_bit_eq_mask)
  then show ?thesis by (simp add: take_bit_eq_mod)
qed

lemma and_1_nonzero: "drop_bit n x AND 1 \<noteq> (0 :: nat) \<longleftrightarrow> odd (x div 2 ^ n)"
  by (simp add: and_one_eq drop_bit_eq_div odd_iff_mod_2_eq_one)

lemma digit_16: "0 \<le> b \<Longrightarrow> b < 16 \<Longrightarrow> (a * 16 + b) mod 16 = (b :: int)"
  by simp

text \<open>The two header words as numbers.\<close>

lemma header_id_exp:
  assumes "encodable s" "v = int_from_word_indices (encode_id_exp s)"
  shows "int (drop_bit 5 v) = sh_identifier s" "(drop_bit 4 v AND 1 \<noteq> 0) = sh_extendable s"
    "int (v AND 15) = sh_iteration_exponent s"
proof -
  let ?e = "of_bool (sh_extendable s) :: int"
  let ?v = "sh_identifier s * 32 + ?e * 16 + sh_iteration_exponent s"
  have "encode_id_exp s = int_to_word_indices ?v 2"
    by (simp add: encode_id_exp_def push_bit_eq_mult ITERATION_EXP_LENGTH_BITS_def
        EXTENDABLE_FLAG_LENGTH_BITS_def Let_def)
  moreover have "0 \<le> ?v" "?v < 1024 ^ 2" using assms(1) by (auto simp: encodable_def)
  ultimately have v: "int v = ?v" using assms(2) by (simp only: int_word_indices_roundtrip)
  have e: "0 \<le> sh_iteration_exponent s" "sh_iteration_exponent s < 16" using assms(1) by (auto simp: encodable_def)
  have "int (v div 32) = sh_identifier s" unfolding zdiv_int v using e by (cases "sh_extendable s") (simp_all, linarith?)
  then show "int (drop_bit 5 v) = sh_identifier s" by (simp add: drop_bit_eq_div)
  have q: "int (v div 16) = sh_identifier s * 2 + ?e" unfolding zdiv_int v using e by simp
  have "odd (v div 16) \<longleftrightarrow> odd (int (v div 16))" by simp
  also have "\<dots> \<longleftrightarrow> sh_extendable s" unfolding q by simp
  finally show "(drop_bit 4 v AND 1 \<noteq> 0) = sh_extendable s"
    using and_1_nonzero [of 4 v] by simp
  have "int (v mod 16) = sh_iteration_exponent s" unfolding zmod_int v
    using e digit_16 [OF e, of "sh_identifier s * 2 + ?e"] by (simp add: algebra_simps)
  then show "int (v AND 15) = sh_iteration_exponent s" by (simp add: and_15)
qed

lemma header_params:
  assumes "encodable s" "v = int_from_word_indices (encode_share_params s)"
  shows "int (drop_bit 16 v AND 15) = sh_group_index s"
    "int (drop_bit 12 v AND 15) = sh_group_threshold s - 1"
    "int (drop_bit 8 v AND 15) = sh_group_count s - 1"
    "int (drop_bit 4 v AND 15) = sh_member_index s"
    "int (v AND 15) = sh_member_threshold s - 1"
proof -
  let ?v = "(((sh_group_index s * 16 + (sh_group_threshold s - 1)) * 16 + (sh_group_count s - 1)) * 16
     + sh_member_index s) * 16 + (sh_member_threshold s - 1)"
  have r: "0 \<le> sh_group_index s" "sh_group_index s < 16" "1 \<le> sh_group_threshold s" "sh_group_threshold s \<le> 16"
    "1 \<le> sh_group_count s" "sh_group_count s \<le> 16" "0 \<le> sh_member_index s" "sh_member_index s < 16"
    "1 \<le> sh_member_threshold s" "sh_member_threshold s \<le> 16"
    using assms(1) by (auto simp: encodable_def)
  have "encode_share_params s = int_to_word_indices ?v 2"
    by (simp add: encode_share_params_def push_bit_eq_mult Let_def)
  moreover have "0 \<le> ?v" "?v < 1024 ^ 2" using r by auto
  ultimately have v: "int v = ?v" using assms(2) by (simp only: int_word_indices_roundtrip)
  have sh: "int (drop_bit n v AND 15) = ?v div 2 ^ n mod 16" for n
    unfolding v [symmetric] by (simp add: and_15 drop_bit_eq_div zdiv_int zmod_int)
  have d: "?v div 2 ^ 4 = ((sh_group_index s * 16 + (sh_group_threshold s - 1)) * 16 + (sh_group_count s - 1)) * 16
     + sh_member_index s" using r by simp
  have d8: "?v div 2 ^ 8 = (sh_group_index s * 16 + (sh_group_threshold s - 1)) * 16 + (sh_group_count s - 1)"
    using r by simp
  have d12: "?v div 2 ^ 12 = sh_group_index s * 16 + (sh_group_threshold s - 1)" using r by simp
  have d16: "?v div 2 ^ 16 = sh_group_index s" using r by simp
  show "int (drop_bit 16 v AND 15) = sh_group_index s" unfolding sh d16 using r by simp
  show "int (drop_bit 12 v AND 15) = sh_group_threshold s - 1" unfolding sh d12 using r by (intro digit_16) auto
  show "int (drop_bit 8 v AND 15) = sh_group_count s - 1" unfolding sh d8 using r by (intro digit_16) auto
  show "int (drop_bit 4 v AND 15) = sh_member_index s" unfolding sh d using r by (intro digit_16) auto
  have "int (v AND 15) = ?v mod 16" using sh [of 0] by (simp only: drop_bit_0 id_apply power_0 div_by_1)
  also have "\<dots> = sh_member_threshold s - 1" using r by (intro digit_16) auto
  finally show "int (v AND 15) = sh_member_threshold s - 1" .
qed


section \<open>Lengths and padding\<close>

text \<open>The words of a value of an even number of bytes leave at most eight bits of padding.\<close>

lemma value_padding:
  assumes "even L" "w = bits_to_words (L * 8)"
  shows "10 * w mod 16 \<le> 8" "bits_to_bytes (10 * w - 10 * w mod 16) = L" "L * 8 \<le> 10 * w"
proof -
  obtain h where h: "L = 2 * h" using assms(1) by (elim evenE)
  have w: "w = (16 * h + 9) div 10" using assms(2) h by (simp add: bits_to_words_def RADIX_BITS_def)
  define d where "d = 10 * w - 16 * h"
  have le: "16 * h \<le> 10 * w" and d9: "10 * w < 16 * h + 10" unfolding w by linarith+
  then have eq: "10 * w = d + h * 16" and "d < 10" by (auto simp: d_def)
  have "even d" using eq by (metis dvd_add_left_iff dvd_mult dvd_mult2 even_numeral)
  then have "d \<le> 8" using \<open>d < 10\<close> by (auto elim!: evenE)
  have m: "10 * w mod 16 = d" unfolding eq using \<open>d < 10\<close> by simp
  show "10 * w mod 16 \<le> 8" using m \<open>d \<le> 8\<close> by simp
  show "bits_to_bytes (10 * w - 10 * w mod 16) = L" unfolding m using eq h by (simp add: bits_to_bytes_def)
  show "L * 8 \<le> 10 * w" using le h by simp
qed

lemma length_share_data:
  "length (share_data s) = 4 + bits_to_words (length (sh_value s) * 8)"
  by (simp add: share_data_def encode_id_exp_def encode_share_params_def Let_def)

lemma value_roundtrip:
  assumes "even (length b)" "w = bits_to_words (length b * 8)"
  shows "int_to_bytes_be (int_from_word_indices (int_to_word_indices (int (int_from_bytes_be b)) w))
           (length b) = Some b"
proof -
  have "(256 :: nat) ^ length b = 2 ^ (8 * length b)" by (simp add: power_mult)
  also have "\<dots> \<le> 2 ^ (10 * w)"
    using value_padding(3) [OF assms] by (intro power_increasing) (simp_all add: mult.commute)
  also have "\<dots> = 1024 ^ w" by (simp add: power_mult)
  finally have "int_from_bytes_be b < 1024 ^ w"
    using int_from_bytes_be_less [of b] by linarith
  then have "int (int_from_bytes_be b) < 1024 ^ w"
    by (metis of_nat_less_iff of_nat_numeral of_nat_power)
  then have "int_from_word_indices (int_to_word_indices (int (int_from_bytes_be b)) w) = int_from_bytes_be b"
    using int_word_indices_roundtrip [OF of_nat_0_le_iff] by (metis of_nat_eq_iff)
  then show ?thesis by simp
qed

lemma int_to_word_indices_bound: "i \<in> set (int_to_word_indices v n) \<Longrightarrow> i < 1024"
proof -
  have "nat (x AND 1023) < 1024" for x :: int
  proof -
    have "x AND 1023 = x mod 1024"
      using take_bit_eq_mask [of 10 x] by (simp add: mask_eq_exp_minus_1 take_bit_eq_mod)
    then show ?thesis by (simp add: nat_less_iff)
  qed
  then show "i \<in> set (int_to_word_indices v n) \<Longrightarrow> i < 1024"
    by (auto simp: int_to_word_indices_def RADIX_def RADIX_BITS_def)
qed

lemma share_data_bound: "i \<in> set (share_data s) \<Longrightarrow> i < 1024"
  by (auto simp: share_data_def encode_id_exp_def encode_share_params_def Let_def
      dest: int_to_word_indices_bound)

section \<open>Round trip\<close>

definition share_indices :: "share \<Rightarrow> nat list" where
  "share_indices s =
     share_data s @ rs1024_create_checksum (share_data s) (customization_string (sh_extendable s))"

lemma mnemonic_Inr:
  "mnemonic s = Inr (py_join '' '' (map (\<lambda>i. WORDLIST ! i) (share_indices s)))"
proof -
  have "\<forall>i \<in> set (share_indices s). i < 1024"
    by (auto simp: share_indices_def dest: share_data_bound rs1024_create_less)
  then show ?thesis
    by (simp add: mnemonic_def words_def Let_def words_from_indices_Inr flip: share_indices_def)
qed

lemma mnemonic_indices: "mnemonic s = Inr m \<Longrightarrow> mnemonic_to_indices m = Inr (share_indices s)"
  using mnemonic_indices_roundtrip [of "share_indices s"] mnemonic_Inr [of s]
  by (auto simp: share_indices_def dest: share_data_bound rs1024_create_less)

lemma parse_share_indices:
  assumes "encodable s" shows "parse_indices t (share_indices s) = Inr s"
proof -
  let ?w = "bits_to_words (length (sh_value s) * 8)"
  let ?vd = "int_to_word_indices (int (int_from_bytes_be (sh_value s))) ?w"
  let ?cs = "rs1024_create_checksum (share_data s) (customization_string (sh_extendable s))"
  have L: "16 \<le> length (sh_value s)" "even (length (sh_value s))"
    using assms by (auto simp: encodable_def)
  have data: "share_indices s = encode_id_exp s @ encode_share_params s @ ?vd @ ?cs"
    by (simp add: share_indices_def share_data_def Let_def)
  have l2: "length (encode_id_exp s) = 2" "length (encode_share_params s) = 2"
    by (simp_all add: encode_id_exp_def encode_share_params_def Let_def)
  have len: "length (share_indices s) = ?w + 7" by (simp add: data l2)
  have w: "13 \<le> ?w" using L(1) by (simp add: bits_to_words_def RADIX_BITS_def)
  note hd = header_id_exp [OF assms refl]
  note pr = header_params [OF assms refl]
  have ok: "rs1024_verify_checksum (share_indices s) (customization_string (sh_extendable s))"
    unfolding share_indices_def by (rule rs1024_create_verifies)
  have parts: "take 2 (share_indices s) = encode_id_exp s"
    "take 2 (drop 2 (share_indices s)) = encode_share_params s"
    "take ?w (drop 4 (share_indices s)) = ?vd"
    by (simp_all add: data l2 len)
  have gt: "\<not> (drop_bit 8 (int_from_word_indices (encode_share_params s)) AND 15
      < drop_bit 12 (int_from_word_indices (encode_share_params s)) AND 15)"
    using pr(2,3) assms by (simp add: encodable_def)
  have "parse_indices t (share_indices s) =
      Inr \<lparr>sh_identifier = sh_identifier s, sh_extendable = sh_extendable s,
        sh_iteration_exponent = sh_iteration_exponent s, sh_group_index = sh_group_index s,
        sh_group_threshold = sh_group_threshold s, sh_group_count = sh_group_count s,
        sh_member_index = sh_member_index s, sh_member_threshold = sh_member_threshold s,
        sh_value = sh_value s\<rparr>"
    unfolding parse_indices_def Let_def share_const_values
    using w hd pr gt ok value_padding [OF L(2) refl] value_roundtrip [OF L(2) refl]
    by (simp add: parts len drop_take RADIX_BITS_def CHECKSUM_LENGTH_WORDS_def ITERATION_EXP_LENGTH_BITS_def
        EXTENDABLE_FLAG_LENGTH_BITS_def)
  then show ?thesis by simp
qed


lemma from_mnemonic_mnemonic:
  assumes "encodable s" "mnemonic s = Inr m" shows "from_mnemonic m = Inr s"
  using parse_share_indices [OF assms(1)] mnemonic_indices [OF assms(2)]
  by (simp add: from_mnemonic_def)

section \<open>The parser accepts only encodings\<close>

lemma digits_of_words:
  assumes "\<forall>i \<in> set is. i < 1024"
  shows "int_to_word_indices (int (int_from_word_indices is)) (length is) = is"
  using digits_undigits_be [OF assms]
  by (simp add: int_to_word_indices_nonneg int_from_word_indices_eq)

lemma split_5_bits:
  "int (drop_bit 5 v) * 32 + of_bool (drop_bit 4 v AND 1 \<noteq> 0) * 16 + int (v AND 15) = int v"
  for v :: nat
proof -
  have "int v = int (v div 16) * 16 + int (v mod 16)"
    by (metis div_mult_mod_eq of_nat_add of_nat_mult of_nat_numeral)
  moreover have "v div 16 = v div 32 * 2 + of_bool (odd (v div 16))"
  proof -
    have "v div 32 = v div 16 div 2" by (simp flip: div_mult2_eq)
    then show ?thesis using div_mult_mod_eq [of "v div 16" 2] by (simp only: of_bool_odd_eq_mod_2)
  qed
  then have "int (v div 16) = int (v div 32) * 2 + of_bool (odd (v div 16))"
    by (metis of_nat_add of_nat_mult of_nat_numeral of_nat_of_bool)
  ultimately show ?thesis
    unfolding and_1_nonzero and_15 by (simp add: drop_bit_eq_div)
qed

lemma split_nibbles:
  assumes "v < 2 ^ 20"
  shows "(((int (drop_bit 16 v AND 15) * 16 + int (drop_bit 12 v AND 15)) * 16
     + int (drop_bit 8 v AND 15)) * 16 + int (drop_bit 4 v AND 15)) * 16 + int (v AND 15) = int v"
proof -
  have step: "int (x div 16) * 16 + int (x mod 16) = int x" for x :: nat
    by (metis div_mult_mod_eq of_nat_add of_nat_mult of_nat_numeral)
  have "v div 65536 mod 16 = v div 65536" using assms by simp
  then show ?thesis
    using step [of v] step [of "v div 16"] step [of "v div 256"] step [of "v div 4096"]
    by (simp add: and_15 drop_bit_eq_div flip: div_mult2_eq)
qed


text \<open>What a successful parse says, field by field.\<close>

lemma parse_indices_Inr:
  assumes "parse_indices t data = Inr s"
  defines "v \<equiv> int_from_word_indices (take 2 data)"
    and "p \<equiv> int_from_word_indices (take 2 (drop 2 data))"
    and "vd \<equiv> drop 4 (take (length data - 3) data)"
  shows "20 \<le> length data" "10 * (length data - 7) mod 16 \<le> 8"
    "rs1024_verify_checksum data (customization_string (sh_extendable s))"
    "sh_identifier s = int (drop_bit 5 v)" "sh_extendable s = (drop_bit 4 v AND 1 \<noteq> 0)"
    "sh_iteration_exponent s = int (v AND 15)"
    "sh_group_index s = int (drop_bit 16 p AND 15)"
    "sh_group_threshold s = int (drop_bit 12 p AND 15) + 1"
    "sh_group_count s = int (drop_bit 8 p AND 15) + 1"
    "sh_member_index s = int (drop_bit 4 p AND 15)"
    "sh_member_threshold s = int (p AND 15) + 1"
    "sh_group_threshold s \<le> sh_group_count s"
    "int_to_bytes_be (int_from_word_indices vd)
       (bits_to_bytes (10 * length vd - 10 * (length data - 7) mod 16)) = Some (sh_value s)"
  using assms(1) unfolding v_def p_def vd_def
  by (auto simp: parse_indices_def Let_def rbind_eq_Inr RADIX_BITS_def CHECKSUM_LENGTH_WORDS_def
      ITERATION_EXP_LENGTH_BITS_def EXTENDABLE_FLAG_LENGTH_BITS_def not_less split: option.splits)

lemma int_to_bytes_be_Some:
  "int_to_bytes_be v n = Some b \<Longrightarrow> length b = n \<and> int_from_bytes_be b = v"
  by (auto simp: int_to_bytes_be_def int_from_to_bytes_be split: if_splits)

lemma padding_words:
  assumes "10 * w mod 16 \<le> 8" "13 \<le> w" "L = bits_to_bytes (10 * w - 10 * w mod 16)"
  shows "even L" "16 \<le> L" "bits_to_words (L * 8) = w"
proof -
  let ?q = "10 * w div 16" and ?d = "10 * w mod 16"
  have eq: "10 * w = 16 * ?q + ?d" by (rule mult_div_mod_eq [symmetric])
  then have "10 * w - ?d = 16 * ?q" by simp
  then have L: "L = 2 * ?q" using assms(3) by (simp add: bits_to_bytes_def)
  show "even L" unfolding L by simp
  have "8 \<le> ?q" using assms(2) by linarith
  then show "16 \<le> L" unfolding L by simp
  have "L * 8 = 10 * w - ?d" unfolding L using eq by linarith
  then have "L * 8 + 9 = 10 * w + (9 - ?d)" using assms(1) eq by linarith
  then show "bits_to_words (L * 8) = w" by (simp add: bits_to_words_def RADIX_BITS_def)
qed

lemma checksum_unique:
  assumes "rs1024_verify_checksum (data @ cs) c" "length cs = 3" "\<forall>i \<in> set cs. i < 1024"
  shows "cs = rs1024_create_checksum data c"
  using rs1024_detects_block [of cs "rs1024_create_checksum data c" data "[]" c] assms
    rs1024_create_verifies [of data c] rs1024_create_less by fastforce

lemma parse_indices_sound:
  assumes s: "parse_indices t data = Inr s" and b: "\<forall>i \<in> set data. i < 1024"
  shows "encodable s" "share_indices s = data"
proof -
  note f = parse_indices_Inr [OF s]
  let ?v = "int_from_word_indices (take 2 data)"
  let ?p = "int_from_word_indices (take 2 (drop 2 data))"
  let ?w = "length data - 7"
  define vd where "vd = drop 4 (take (length data - 3) data)"
  define cs where "cs = drop (length data - 3) data"
  have lvd: "length vd = ?w" and w13: "13 \<le> ?w" using f(1) by (simp_all add: vd_def)
  have lcs: "length cs = 3" using f(1) by (simp add: cs_def)
  have "take (length data - 3) data = take 2 data @ take 2 (drop 2 data) @ vd"
  proof -
    have "take (length data - 3) data = take 4 (take (length data - 3) data) @ vd"
      unfolding vd_def by (rule append_take_drop_id [symmetric])
    also have "take 4 (take (length data - 3) data) = take 2 data @ take 2 (drop 2 data)"
      using f(1) take_add [of 2 2 data] by (simp add: min_absorb1)
    finally show ?thesis by simp
  qed
  then have data: "data = (take 2 data @ take 2 (drop 2 data) @ vd) @ cs"
    unfolding cs_def by (metis append_take_drop_id)
  have l2: "length (take 2 data) = 2" "length (take 2 (drop 2 data)) = 2" using f(1) by simp_all
  have small: "\<forall>i \<in> set (take 2 data). i < 1024" "\<forall>i \<in> set (take 2 (drop 2 data)). i < 1024"
    "\<forall>i \<in> set vd. i < 1024" "\<forall>i \<in> set cs. i < 1024"
    using b by (auto simp: vd_def cs_def dest!: in_set_takeD in_set_dropD)
  have v20: "?v < 2 ^ 20" "?p < 2 ^ 20"
    using undigits_be_less [OF small(1)] undigits_be_less [OF small(2)]
    unfolding l2 int_from_word_indices_eq by simp_all
  have val: "length (sh_value s) = bits_to_bytes (10 * ?w - 10 * ?w mod 16)"
    "int_from_bytes_be (sh_value s) = int_from_word_indices vd"
    using int_to_bytes_be_Some [OF f(13)] by (simp_all add: lvd flip: vd_def)
  note pad = padding_words [OF f(2) w13 val(1)]
  have n15: "n AND 15 < 16" "n AND 15 \<le> 15" for n :: nat by (simp_all add: and_15)
  show "encodable s"
    using f(4,6-12) v20(1) pad(1,2)
    by (simp add: encodable_def drop_bit_eq_div less_mult_imp_div_less n15)
  have "encode_id_exp s = take 2 data"
    using split_5_bits [of ?v] digits_of_words [OF small(1)] l2
    by (simp add: encode_id_exp_def Let_def push_bit_eq_mult f(4-6) ITERATION_EXP_LENGTH_BITS_def
        EXTENDABLE_FLAG_LENGTH_BITS_def)
  moreover have "encode_share_params s = take 2 (drop 2 data)"
    using split_nibbles [OF v20(2)] digits_of_words [OF small(2)] l2
    by (simp add: encode_share_params_def Let_def push_bit_eq_mult f(7-11))
  moreover have "int_to_word_indices (int (int_from_bytes_be (sh_value s)))
      (bits_to_words (length (sh_value s) * 8)) = vd"
    using digits_of_words [OF small(3)] by (simp add: val(2) pad(3) lvd)
  ultimately have sd: "share_data s = take 2 data @ take 2 (drop 2 data) @ vd"
    by (simp add: share_data_def Let_def)
  have "cs = rs1024_create_checksum (share_data s) (customization_string (sh_extendable s))"
    using f(3) data lcs small(4) by (intro checksum_unique) (simp_all add: sd)
  then show "share_indices s = data" using data sd by (simp add: share_indices_def)
qed


lemma word_index_less: "word_index token = Inr i \<Longrightarrow> i < 1024"
  by (simp add: word_index_iff)

lemma mnemonic_to_indices_less:
  "mnemonic_to_indices m = Inr is \<Longrightarrow> \<forall>i \<in> set is. i < 1024"
  unfolding mnemonic_to_indices_def
  by (metis in_set_conv_nth rmap_length rmap_nth word_index_less)

lemma from_mnemonic_sound:
  assumes "from_mnemonic m = Inr s"
  shows "encodable s" "mnemonic_to_indices m = Inr (share_indices s)"
proof -
  obtain "is" where js: "mnemonic_to_indices m = Inr is" "parse_indices m is = Inr s"
    using assms by (auto simp: from_mnemonic_def rbind_eq_Inr)
  note p = parse_indices_sound [OF js(2) mnemonic_to_indices_less [OF js(1)]]
  show "encodable s" "mnemonic_to_indices m = Inr (share_indices s)" using p js(1) by simp_all
qed

section \<open>The single-share check\<close>

lemma resolve_tokens_Inr: "resolve_tokens n ts = Inr is \<longleftrightarrow> rmap word_index ts = Inr is"
  by (induction ts arbitrary: n "is") (auto simp: rbind_eq_Inr split: sum.splits)

lemma check_share_None:
  "check_share m = None \<longleftrightarrow>
     (\<exists>is. mnemonic_to_indices m = Inr is \<and> 20 \<le> length is \<and>
        rs1024_verify_checksum is
          (customization_string (drop_bit 4 (int_from_word_indices (take 2 is)) AND 1 \<noteq> 0)))"
  unfolding mnemonic_to_indices_def resolve_tokens_Inr [of 1, symmetric]
  by (cases "resolve_tokens 1 (py_split m)")
    (auto simp: check_share_def Let_def ITERATION_EXP_LENGTH_BITS_def not_less)

lemma from_mnemonic_check_share:
  assumes "from_mnemonic m = Inr s" shows "check_share m = None"
proof -
  obtain "is" where js: "mnemonic_to_indices m = Inr is" "parse_indices m is = Inr s"
    using assms by (auto simp: from_mnemonic_def rbind_eq_Inr)
  note f = parse_indices_Inr [OF js(2)]
  have "rs1024_verify_checksum is
      (customization_string (drop_bit 4 (int_from_word_indices (take 2 is)) AND 1 \<noteq> 0))"
    using f(3) unfolding f(5) .
  with js(1) f(1) show ?thesis unfolding check_share_None by blast
qed

end
