(* ===== verification/Slip39.thy ===== *)
theory Slip39
  imports Share_Format
begin

unbundle bit_operations_syntax

text \<open>
  The public operations of \<open>keyshare/slip39.py\<close>: share groups, the encrypted master secret,
  \<open>generate_mnemonics\<close>, \<open>combine_mnemonics\<close> and their single-group forms. A \<open>_ShareGroup\<close>
  holds a Python set; it is a distinct list here, and the code reads only properties that all
  members share (\<open>next(iter(...))\<close>) or sorts before use, so the order does not matter. The
  dictionary of groups is an association list in insertion order.
\<close>

section \<open>Groups of shares\<close>

type_synonym share_group = "share list"

text \<open>The name of the first field in which the group parameters of two shares differ.\<close>

definition parameter_mismatch :: "share_group_parameters \<Rightarrow> share_group_parameters \<Rightarrow> string" where
  "parameter_mismatch x y =
     (if gp_identifier x \<noteq> gp_identifier y then ''identifier''
      else if gp_extendable x \<noteq> gp_extendable y then ''extendable''
      else if gp_iteration_exponent x \<noteq> gp_iteration_exponent y then ''iteration_exponent''
      else if gp_group_index x \<noteq> gp_group_index y then ''group_index''
      else if gp_group_threshold x \<noteq> gp_group_threshold y then ''group_threshold''
      else if gp_group_count x \<noteq> gp_group_count y then ''group_count''
      else ''member_threshold'')"

definition group_add :: "share \<Rightarrow> share_group \<Rightarrow> (keyshare_error, share_group) result" where
  "group_add share shares =
     rbind (raise_if (shares \<noteq> [] \<and> group_parameters (hd shares) \<noteq> group_parameters share)
              (Group_parameter_mismatch
                (parameter_mismatch (group_parameters (hd shares)) (group_parameters share)))) (\<lambda>_.
     Inr (if share \<in> set shares then shares else shares @ [share]))"

definition to_raw_shares :: "share_group \<Rightarrow> raw_share list" where
  "to_raw_shares shares =
     map (\<lambda>s. \<lparr>rs_x = of_int (sh_member_index s), rs_data = sh_value s\<rparr>)
       (sort_key sh_member_index shares)"

definition group_member_threshold :: "share_group \<Rightarrow> int" where
  "group_member_threshold shares = sh_member_threshold (hd shares)"

definition group_common_parameters :: "share_group \<Rightarrow> share_common_parameters" where
  "group_common_parameters shares = common_parameters (hd shares)"

section \<open>The encrypted master secret\<close>

record encrypted_master_secret =
  ems_identifier :: int
  ems_extendable :: bool
  ems_iteration_exponent :: int
  ems_ciphertext :: bytes

definition from_master_secret ::
  "bytes \<Rightarrow> bytes \<Rightarrow> int \<Rightarrow> bool \<Rightarrow> int \<Rightarrow> (keyshare_error, encrypted_master_secret) result" where
  "from_master_secret master_secret passphrase ident ext it_exp =
     rbind (encrypt master_secret passphrase it_exp ident ext) (\<lambda>ciphertext.
     Inr \<lparr>ems_identifier = ident, ems_extendable = ext, ems_iteration_exponent = it_exp,
          ems_ciphertext = ciphertext\<rparr>)"

definition ems_decrypt :: "encrypted_master_secret \<Rightarrow> bytes \<Rightarrow> (keyshare_error, bytes) result" where
  "ems_decrypt ems passphrase =
     decrypt (ems_ciphertext ems) passphrase (ems_iteration_exponent ems) (ems_identifier ems)
       (ems_extendable ems)"

definition random_identifier :: "entropy \<Rightarrow> (keyshare_error, int \<times> entropy) result" where
  "random_identifier r =
     rbind (random_bytes (int (bits_to_bytes ID_LENGTH_BITS)) r) (\<lambda>(b, r1).
     Inr (int (int_from_bytes_be b AND (2 ^ ID_LENGTH_BITS - 1)), r1))"

section \<open>Splitting\<close>

definition check_master_secret :: "bytes \<Rightarrow> (keyshare_error, unit) result" where
  "check_master_secret master_secret =
     rbind (raise_if (length master_secret * 8 < MIN_STRENGTH_BITS) Master_secret_too_short) (\<lambda>_.
     raise_if (length master_secret mod 2 \<noteq> 0) Master_secret_odd_length)"

definition check_passphrase :: "bytes \<Rightarrow> (keyshare_error, unit) result" where
  "check_passphrase passphrase =
     raise_if (\<not> list_all (\<lambda>c. 32 \<le> c \<and> c \<le> 126) passphrase) Passphrase_not_printable"

text \<open>One member share of a group, as \<open>generate_mnemonics\<close> builds it.\<close>

definition member_share ::
  "encrypted_master_secret \<Rightarrow> int \<Rightarrow> int \<Rightarrow> int \<Rightarrow> raw_share \<Rightarrow> raw_share \<Rightarrow> share" where
  "member_share ems gthreshold gcount mthreshold group_share member =
     \<lparr>sh_identifier = ems_identifier ems, sh_extendable = ems_extendable ems,
      sh_iteration_exponent = ems_iteration_exponent ems,
      sh_group_index = int (unat (rs_x group_share)), sh_group_threshold = gthreshold,
      sh_group_count = gcount, sh_member_index = int (unat (rs_x member)),
      sh_member_threshold = mthreshold, sh_value = rs_data member\<rparr>"

text \<open>The loop over \<open>zip(groups, group_shares, strict=True)\<close>.\<close>

fun generate_groups ::
  "encrypted_master_secret \<Rightarrow> int \<Rightarrow> int \<Rightarrow> ((int \<times> int) \<times> raw_share) list \<Rightarrow> entropy \<Rightarrow>
     (keyshare_error, string list list \<times> entropy) result" where
  "generate_groups ems gthreshold gcount [] r = Inr ([], r)"
| "generate_groups ems gthreshold gcount (((mthreshold, mcount), gshare) # rest) r =
     rbind (split_secret_raw mthreshold mcount (rs_data gshare) r) (\<lambda>(members, r1).
     rbind (rmap (\<lambda>m. mnemonic (member_share ems gthreshold gcount mthreshold gshare m)) members)
       (\<lambda>group_mnemonics.
     rbind (generate_groups ems gthreshold gcount rest r1) (\<lambda>(result, r2).
     Inr (group_mnemonics # result, r2))))"

definition generate_mnemonics ::
  "int \<Rightarrow> (int \<times> int) list \<Rightarrow> bytes \<Rightarrow> bytes \<Rightarrow> int \<Rightarrow> bool \<Rightarrow> entropy \<Rightarrow>
     (keyshare_error, string list list \<times> entropy) result" where
  "generate_mnemonics gthreshold groups master_secret passphrase it_exp ext r =
     rbind (check_master_secret master_secret) (\<lambda>_.
     rbind (check_passphrase passphrase) (\<lambda>_.
     rbind (raise_if (gthreshold < 1) Group_threshold_not_positive) (\<lambda>_.
     rbind (raise_if (gthreshold > int (length groups)) Group_threshold_exceeds_groups) (\<lambda>_.
     rbind (raise_if (list_ex (\<lambda>(mthreshold, mcount). mthreshold = 1 \<and> mcount > 1) groups)
              Member_threshold_one_with_many) (\<lambda>_.
     rbind (random_identifier r) (\<lambda>(ident, r1).
     rbind (from_master_secret master_secret passphrase ident ext it_exp) (\<lambda>ems.
     rbind (split_secret_raw gthreshold (int (length groups)) (ems_ciphertext ems) r1)
       (\<lambda>(group_shares, r2).
     rbind (zip_strict groups group_shares) (\<lambda>pairs.
     generate_groups ems gthreshold (int (length groups)) pairs r2)))))))))"

definition split_secret :: "bytes \<Rightarrow> int \<Rightarrow> int \<Rightarrow> bytes \<Rightarrow> int \<Rightarrow> entropy \<Rightarrow>
     (keyshare_error, string list \<times> entropy) result" where
  "split_secret secret threshold cnt passphrase it_exp r =
     rbind (generate_mnemonics 1 [(threshold, cnt)] secret passphrase it_exp True r) (\<lambda>(gs, r1).
     case gs of [] \<Rightarrow> Inl Py_IndexError | g # _ \<Rightarrow> Inr (g, r1))"

section \<open>Combining\<close>

text \<open>\<open>groups.setdefault(index, _ShareGroup()).add(share)\<close>.\<close>

fun add_to_groups ::
  "share \<Rightarrow> (int \<times> share_group) list \<Rightarrow> (keyshare_error, (int \<times> share_group) list) result" where
  "add_to_groups share [] = rbind (group_add share []) (\<lambda>g. Inr [(sh_group_index share, g)])"
| "add_to_groups share ((i, g) # rest) =
     (if i = sh_group_index share then rbind (group_add share g) (\<lambda>g'. Inr ((i, g') # rest))
      else rbind (add_to_groups share rest) (\<lambda>rest'. Inr ((i, g) # rest')))"

definition decode_step ::
  "string \<Rightarrow> share_common_parameters list \<times> (int \<times> share_group) list \<Rightarrow>
     (keyshare_error, share_common_parameters list \<times> (int \<times> share_group) list) result" where
  "decode_step text st =
     (case st of (common_params, groups) \<Rightarrow>
        rbind (from_mnemonic text) (\<lambda>share.
        rbind (add_to_groups share groups) (\<lambda>groups'.
        Inr (List.insert (common_parameters share) common_params, groups'))))"

definition decode_mnemonics :: "string list \<Rightarrow> (keyshare_error, (int \<times> share_group) list) result" where
  "decode_mnemonics mnemonics =
     rbind (rfold decode_step mnemonics ([], [])) (\<lambda>(common_params, groups).
     rbind (raise_if (length common_params \<noteq> 1) Common_parameters_mismatch) (\<lambda>_.
     Inr groups))"

definition check_group :: "share_group \<Rightarrow> (keyshare_error, unit) result" where
  "check_group grp =
     rbind (raise_if (int (length grp) < group_member_threshold grp)
              (Too_few_member_shares (group_member_threshold grp) (length grp))) (\<lambda>_.
     raise_if (length (remdups (map sh_member_index grp)) \<noteq> length grp) Share_indices_not_unique)"

definition recover_ems ::
  "(int \<times> share_group) list \<Rightarrow> (keyshare_error, encrypted_master_secret) result" where
  "recover_ems groups =
     rbind (raise_if (groups = []) Share_set_empty) (\<lambda>_.
     let params = group_common_parameters (snd (hd groups)) in
     rbind (raise_if (int (length groups) < cp_group_threshold params)
              (Insufficient_groups (cp_group_threshold params))) (\<lambda>_.
     rbind (raise_if (int (length groups) \<noteq> cp_group_threshold params)
              (Wrong_number_of_groups (cp_group_threshold params) (length groups))) (\<lambda>_.
     rbind (rmap (\<lambda>(i, g). check_group g) groups) (\<lambda>_.
     rbind (rmap (\<lambda>(i, g).
              rbind (recover_secret_raw (group_member_threshold g)
                       (take (nat (group_member_threshold g)) (to_raw_shares g)))
                (\<lambda>d. Inr \<lparr>rs_x = of_int i, rs_data = d\<rparr>)) groups) (\<lambda>group_shares.
     rbind (recover_secret_raw (cp_group_threshold params) group_shares) (\<lambda>ciphertext.
     Inr \<lparr>ems_identifier = cp_identifier params, ems_extendable = cp_extendable params,
          ems_iteration_exponent = cp_iteration_exponent params, ems_ciphertext = ciphertext\<rparr>))))))"

definition combine_mnemonics :: "string list \<Rightarrow> bytes \<Rightarrow> (keyshare_error, bytes) result" where
  "combine_mnemonics mnemonics passphrase =
     rbind (raise_if (mnemonics = []) Mnemonic_list_empty) (\<lambda>_.
     rbind (decode_mnemonics mnemonics) (\<lambda>groups.
     rbind (recover_ems groups) (\<lambda>ems.
     ems_decrypt ems passphrase)))"

definition recover_secret :: "string list \<Rightarrow> bytes \<Rightarrow> (keyshare_error, bytes) result" where
  "recover_secret mnemonics passphrase = combine_mnemonics mnemonics passphrase"

section \<open>Decoding a set of shares\<close>

text \<open>What the groups hold after the shares \<open>P\<close> have been added.\<close>

definition groups_of :: "share set \<Rightarrow> (int \<times> share_group) list \<Rightarrow> bool" where
  "groups_of P groups \<longleftrightarrow>
     distinct (map fst groups) \<and> fst ` set groups = sh_group_index ` P \<and>
     (\<forall>(i, g) \<in> set groups. distinct g \<and> set g = {s \<in> P. sh_group_index s = i})"

lemma groups_ofD:
  assumes "groups_of P groups" "(i, g) \<in> set groups"
  shows "distinct g" "set g = {s \<in> P. sh_group_index s = i}" "g \<noteq> []" "hd g \<in> P"
    "sh_group_index (hd g) = i"
proof -
  show *: "distinct g" "set g = {s \<in> P. sh_group_index s = i}"
    using assms by (auto simp: groups_of_def)
  have "i \<in> sh_group_index ` P" using assms by (force simp: groups_of_def)
  then show ne: "g \<noteq> []" using *(2) by auto
  then show "hd g \<in> P" "sh_group_index (hd g) = i" using *(2) hd_in_set [OF ne] by auto
qed

lemma group_add_Inr:
  assumes "shares \<noteq> [] \<Longrightarrow> group_parameters (hd shares) = group_parameters s"
  shows "group_add s shares = Inr (if s \<in> set shares then shares else shares @ [s])"
  using assms by (cases "shares = []") (auto simp: group_add_def)

lemma add_to_groups_Inr:
  assumes "\<forall>(i, g) \<in> set groups. i = sh_group_index s \<longrightarrow> g \<noteq> [] \<longrightarrow>
      group_parameters (hd g) = group_parameters s"
    and "distinct (map fst groups)"
  shows "\<exists>groups'. add_to_groups s groups = Inr groups' \<and>
     map fst groups' = (if sh_group_index s \<in> fst ` set groups then map fst groups
                        else map fst groups @ [sh_group_index s]) \<and>
     (\<forall>(i, g') \<in> set groups'. if i \<noteq> sh_group_index s then (i, g') \<in> set groups else
        \<exists>g. (if i \<in> fst ` set groups then (i, g) \<in> set groups else g = []) \<and>
          g' = (if s \<in> set g then g else g @ [s]))"
  using assms
proof (induction groups)
  case Nil
  then show ?case by (simp add: group_add_def)
next
  case (Cons p rest)
  obtain i g where p: "p = (i, g)" by (cases p)
  show ?case
  proof (cases "i = sh_group_index s")
    case True
    have "group_add s g = Inr (if s \<in> set g then g else g @ [s])"
      using Cons.prems(1) True p by (intro group_add_Inr) auto
    moreover have "sh_group_index s \<notin> fst ` set rest" using Cons.prems(2) p True by auto
    ultimately show ?thesis using True p by (force split: if_splits)
  next
    case False
    obtain r' where r': "add_to_groups s rest = Inr r'"
      "map fst r' = (if sh_group_index s \<in> fst ` set rest then map fst rest
                     else map fst rest @ [sh_group_index s])"
      "\<forall>(i, g') \<in> set r'. if i \<noteq> sh_group_index s then (i, g') \<in> set rest else
        \<exists>g. (if i \<in> fst ` set rest then (i, g) \<in> set rest else g = []) \<and>
          g' = (if s \<in> set g then g else g @ [s])"
      using Cons.IH Cons.prems p by auto
    then show ?thesis using False p by (auto split: if_splits)
  qed
qed


definition consistent :: "share set \<Rightarrow> bool" where
  "consistent P \<longleftrightarrow> (\<forall>s \<in> P. \<forall>t \<in> P. common_parameters s = common_parameters t \<and>
     (sh_group_index s = sh_group_index t \<longrightarrow> group_parameters s = group_parameters t))"

lemma groups_of_add_same:
  assumes g: "groups_of P groups"
    and c: "\<And>t. t \<in> P \<Longrightarrow> sh_group_index t = sh_group_index s \<Longrightarrow> group_parameters t = group_parameters s"
  shows "\<exists>groups'. add_to_groups s groups = Inr groups' \<and> groups_of (insert s P) groups'"
proof -
  have d: "distinct (map fst groups)" and keys: "fst ` set groups = sh_group_index ` P"
    using g by (auto simp: groups_of_def)
  have "group_parameters (hd h) = group_parameters s"
    if "(i, h) \<in> set groups" "i = sh_group_index s" for i h
    using groups_ofD(4,5) [OF g that(1)] that(2) c by blast
  then have same: "\<forall>(i, h) \<in> set groups. i = sh_group_index s \<longrightarrow> h \<noteq> [] \<longrightarrow>
      group_parameters (hd h) = group_parameters s" by blast
  from add_to_groups_Inr [OF same d] obtain gs where gs: "add_to_groups s groups = Inr gs"
    "map fst gs = (if sh_group_index s \<in> fst ` set groups then map fst groups
                   else map fst groups @ [sh_group_index s])"
    "\<forall>(i, g') \<in> set gs. if i \<noteq> sh_group_index s then (i, g') \<in> set groups else
        \<exists>g. (if i \<in> fst ` set groups then (i, g) \<in> set groups else g = []) \<and>
          g' = (if s \<in> set g then g else g @ [s])"
    by (elim exE conjE) (rule that)
  have "distinct (map fst gs)" using gs(2) d by simp
  moreover have "fst ` set gs = sh_group_index ` insert s P"
    using arg_cong [OF gs(2), of set] keys by (auto split: if_splits)
  moreover have "distinct h \<and> set h = {t \<in> insert s P. sh_group_index t = i}"
    if ih: "(i, h) \<in> set gs" for i h
  proof (cases "i = sh_group_index s")
    case False
    then have "(i, h) \<in> set groups" using gs(3) ih by auto
    with groups_ofD(1,2) [OF g] False show ?thesis by auto
  next
    case True
    then have "\<exists>k. (if i \<in> fst ` set groups then (i, k) \<in> set groups else k = []) \<and>
        h = (if s \<in> set k then k else k @ [s])" using bspec [OF gs(3) ih]
      by (simp split del: if_split cong del: if_weak_cong)
    then obtain k where k: "if i \<in> fst ` set groups then (i, k) \<in> set groups else k = []"
      "h = (if s \<in> set k then k else k @ [s])" by blast
    have "distinct k \<and> set k = {t \<in> P. sh_group_index t = i}"
    proof (cases "i \<in> fst ` set groups")
      case True
      with k(1) groups_ofD(1,2) [OF g] show ?thesis by simp
    next
      case False
      with k(1) keys show ?thesis by auto
    qed
    with k(2) True show ?thesis by auto
  qed
  ultimately show ?thesis using gs(1) by (auto simp: groups_of_def)
qed

lemma groups_of_add:
  assumes "groups_of P groups" and "consistent (insert s P)"
  shows "\<exists>groups'. add_to_groups s groups = Inr groups' \<and> groups_of (insert s P) groups'"
  by (rule groups_of_add_same [OF assms(1)]) (use assms(2) in \<open>unfold consistent_def, blast\<close>)

lemma rfold_decode:
  assumes "rmap from_mnemonic ms = Inr ss" "groups_of P groups" "consistent (P \<union> set ss)"
    and "cps = common_parameters ` P" "set cl = cps" "distinct cl"
  shows "\<exists>cl' groups'. rfold decode_step ms (cl, groups) = Inr (cl', groups') \<and>
     groups_of (P \<union> set ss) groups' \<and> set cl' = common_parameters ` (P \<union> set ss) \<and> distinct cl'"
  using assms
proof (induction ms arbitrary: ss P groups cps cl)
  case Nil
  then show ?case by auto
next
  case (Cons m ms)
  from Cons.prems(1) obtain s ss' where s: "from_mnemonic m = Inr s" "rmap from_mnemonic ms = Inr ss'"
    "ss = s # ss'" by (auto simp: rbind_eq_Inr)
  have "consistent (insert s P)" using Cons.prems(3) s(3) by (auto simp: consistent_def)
  then obtain groups' where g: "add_to_groups s groups = Inr groups'" "groups_of (insert s P) groups'"
    using groups_of_add [OF Cons.prems(2)] by blast
  have step: "decode_step m (cl, groups) = Inr (List.insert (common_parameters s) cl, groups')"
    using s(1) g(1) by (simp add: decode_step_def)
  have "consistent (insert s P \<union> set ss')" using Cons.prems(3) s(3) by simp
  from Cons.IH [OF s(2) g(2) this refl, of "List.insert (common_parameters s) cl"] Cons.prems(4-6)
  show ?case by (simp add: step s(3))
qed

lemma decode_mnemonics_Inr:
  assumes "rmap from_mnemonic ms = Inr ss" "consistent (set ss)" "ss \<noteq> []"
  shows "\<exists>groups. decode_mnemonics ms = Inr groups \<and> groups_of (set ss) groups"
proof -
  have "groups_of {} []" by (simp add: groups_of_def)
  from rfold_decode [OF assms(1) this, of "{}" "[]"] assms(2)
  obtain cl groups where r: "rfold decode_step ms ([], []) = Inr (cl, groups)"
    "groups_of (set ss) groups" "set cl = common_parameters ` set ss" "distinct cl" by auto
  have "common_parameters ` set ss = {common_parameters (hd ss)}"
    using assms(2,3) hd_in_set [OF assms(3)] unfolding consistent_def by blast
  then have "length cl = 1" using r(3,4) by (metis distinct_card card.empty card_insert_disjoint empty_iff finite.emptyI One_nat_def)
  with r show ?thesis by (simp add: decode_mnemonics_def)
qed

end
