(* ===== verification/Slip39_Correct.thy ===== *)
theory Slip39_Correct
  imports Slip39
begin

unbundle bit_operations_syntax

text \<open>
  Correctness of splitting and combining in \<open>keyshare/slip39.py\<close>: the mnemonics that
  \<open>generate_mnemonics\<close> returns decode to shares that lie on the curves of \<open>Shamir\<close>, and
  \<open>combine_mnemonics\<close> returns the master secret from enough of them, in any order and with
  repetitions.
\<close>

section \<open>What \<open>generate_mnemonics\<close> returns\<close>

lemma generate_groups_Inr:
  assumes "generate_groups ems gt gc pairs r = Inr (res, r')"
  shows "length res = length pairs" 
    "j < length pairs \<Longrightarrow> pairs ! j = ((mt, mc), g) \<Longrightarrow> \<exists>ms rr rr'.
       split_secret_raw mt mc (rs_data g) rr = Inr (ms, rr') \<and>
       rmap (\<lambda>m. mnemonic (member_share ems gt gc mt g m)) ms = Inr (res ! j)"
  using assms
proof (induction ems gt gc pairs r arbitrary: res r' j rule: generate_groups.induct)
  case (2 ems gt gc mt' mc' g' rest r)
  {
    case 1
    with "2.IH" show ?case by (fastforce simp: rbind_eq_Inr)
  next
    case 2
    with "2.IH" show ?case by (cases j) (fastforce simp: rbind_eq_Inr)+
  }
qed auto

lemma generate_mnemonics_Inr:
  assumes "generate_mnemonics gt groups ms p e ext r = Inr (res, r')"
  obtains ident c r1 gs r2 where
    "16 \<le> length ms" "even (length ms)" "1 \<le> gt" "gt \<le> int (length groups)"
    "0 \<le> ident" "ident < 2 ^ 15" "encrypt ms p e ident ext = Inr c"
    "split_secret_raw gt (int (length groups)) c r1 = Inr (gs, r2)" "length gs = length groups"
    "generate_groups \<lparr>ems_identifier = ident, ems_extendable = ext, ems_iteration_exponent = e,
       ems_ciphertext = c\<rparr> gt (int (length groups)) (zip groups gs) r2 = Inr (res, r')"
proof -
  have id15: "int (x AND 32767) < 2 ^ 15" for x :: nat
  proof -
    have "(32767 :: nat) = mask 15" by (simp add: mask_eq_exp_minus_1)
    then have "x AND 32767 = take_bit 15 x" by (simp only: take_bit_eq_mask)
    then show ?thesis using take_bit_nat_less_exp [of 15 x] by simp
  qed
  from assms obtain ident r1 ems gs r2 pairs where steps: "check_master_secret ms = Inr ()"
    "1 \<le> gt" "gt \<le> int (length groups)" "random_identifier r = Inr (ident, r1)"
    "from_master_secret ms p ident ext e = Inr ems"
    "split_secret_raw gt (int (length groups)) (ems_ciphertext ems) r1 = Inr (gs, r2)"
    "zip_strict groups gs = Inr pairs"
    "generate_groups ems gt (int (length groups)) pairs r2 = Inr (res, r')"
    by (auto simp: generate_mnemonics_def rbind_eq_Inr not_less)
  from steps(5) obtain c where c: "encrypt ms p e ident ext = Inr c"
    "ems = \<lparr>ems_identifier = ident, ems_extendable = ext, ems_iteration_exponent = e, ems_ciphertext = c\<rparr>"
    by (auto simp: from_master_secret_def rbind_eq_Inr)
  have idr: "0 \<le> ident" "ident < 2 ^ 15"
    using steps(4) id15 by (auto simp: random_identifier_def rbind_eq_Inr ID_LENGTH_BITS_def)
  have l: "16 \<le> length ms" "even (length ms)"
    using steps(1) by (auto simp: check_master_secret_def rbind_eq_Inr MIN_STRENGTH_BITS_def)
  have z: "length gs = length groups" "pairs = zip groups gs"
    using steps(7) by (auto simp: zip_strict_def split: if_splits)
  show thesis using that [OF l steps(2,3) idr c(1) _ z(1)] steps(6,8) c(2) z(2) by simp
qed


section \<open>The family of shares of one split\<close>

text \<open>\<open>mem j\<close> are the raw member shares of group \<open>j\<close>, \<open>gs\<close> the raw group shares.\<close>

definition family_share ::
  "encrypted_master_secret \<Rightarrow> int \<Rightarrow> (int \<times> int) list \<Rightarrow> raw_share list \<Rightarrow> nat \<Rightarrow> raw_share \<Rightarrow> share" where
  "family_share ems gt groups gs j m =
     member_share ems gt (int (length groups)) (fst (groups ! j)) (gs ! j) m"

definition share_family ::
  "encrypted_master_secret \<Rightarrow> int \<Rightarrow> (int \<times> int) list \<Rightarrow> raw_share list \<Rightarrow> (nat \<Rightarrow> raw_share list) \<Rightarrow> bool" where
  "share_family ems gt groups gs mem \<longleftrightarrow>
     0 \<le> ems_identifier ems \<and> ems_identifier ems < 2 ^ 15 \<and>
     0 \<le> ems_iteration_exponent ems \<and> ems_iteration_exponent ems < 16 \<and>
     16 \<le> length (ems_ciphertext ems) \<and> even (length (ems_ciphertext ems)) \<and>
     (\<exists>r r'. split_secret_raw gt (int (length groups)) (ems_ciphertext ems) r = Inr (gs, r')) \<and>
     (\<forall>j < length groups. \<exists>rr rr'.
        split_secret_raw (fst (groups ! j)) (snd (groups ! j)) (rs_data (gs ! j)) rr = Inr (mem j, rr'))"

lemma split_secret_raw_nth:
  assumes "sharable m" "split_secret_raw k n m r = Inr (ss, r')" "s \<in> set ss"
  shows "length (rs_data s) = length m" "unat (rs_x s) < nat n" "n \<le> 16" "1 \<le> k" "k \<le> n"
    "j < nat n \<Longrightarrow> rs_x (ss ! j) = of_nat j \<and> unat (rs_x (ss ! j)) = j" "length ss = nat n"
proof -
  note xs = split_secret_raw_coordinates [OF assms(1,2)]
  have g: "1 \<le> k" "k \<le> n" "n \<le> 16" using split_guards [OF assms(2)] by auto
  have n16: "nat n \<le> 16" using g by (simp add: nat_le_iff)
  have len: "length ss = nat n" using arg_cong [OF xs(1), of length] by simp
  have nth: "rs_x (ss ! j) = of_nat j \<and> unat (rs_x (ss ! j)) = j" if "j < nat n" for j
  proof -
    have "rs_x (ss ! j) = map rs_x ss ! j" using that len by simp
    also have "\<dots> = of_nat j" unfolding xs(1) using that by simp
    finally show ?thesis using that n16 unat_of_nat_byte [of j] by simp
  qed
  show "length (rs_data s) = length m" "n \<le> 16" "1 \<le> k" "k \<le> n" "length ss = nat n"
    using xs(2) assms(3) g len by auto
  show "j < nat n \<Longrightarrow> rs_x (ss ! j) = of_nat j \<and> unat (rs_x (ss ! j)) = j" by (rule nth)
  obtain j where "j < nat n" "s = ss ! j" using assms(3) len by (auto simp: in_set_conv_nth)
  with nth show "unat (rs_x s) < nat n" by metis
qed

lemma family_group:
  assumes "share_family ems gt groups gs mem" "j < length groups"
  shows "gs ! j \<in> set gs" "rs_x (gs ! j) = of_nat j" "unat (rs_x (gs ! j)) = j"
    "16 \<le> length (rs_data (gs ! j))" "even (length (rs_data (gs ! j)))"
    "1 \<le> gt" "gt \<le> int (length groups)" "int (length groups) \<le> 16" "j < 16"
proof -
  obtain r r' where s: "split_secret_raw gt (int (length groups)) (ems_ciphertext ems) r = Inr (gs, r')"
    and L: "16 \<le> length (ems_ciphertext ems)" "even (length (ems_ciphertext ems))"
    using assms(1) by (auto simp: share_family_def)
  have sh: "sharable (ems_ciphertext ems)" using L by (simp add: sharable_def)
  have "length gs = length groups"
    using arg_cong [OF split_secret_raw_coordinates(1) [OF sh s], of length] by simp
  then show gj: "gs ! j \<in> set gs" using assms(2) by simp
  note n = split_secret_raw_nth [OF sh s gj]
  have "j < nat (int (length groups))" using assms(2) by simp
  from n(6) [OF this] show "rs_x (gs ! j) = of_nat j" "unat (rs_x (gs ! j)) = j" by blast+
  show "16 \<le> length (rs_data (gs ! j))" "even (length (rs_data (gs ! j)))" using n(1) L by simp_all
  show "1 \<le> gt" "gt \<le> int (length groups)" "int (length groups) \<le> 16" using n(3-5) by simp_all
  then show "j < 16" using assms(2) by simp
qed

lemma family_member:
  assumes "share_family ems gt groups gs mem" "j < length groups" "m \<in> set (mem j)"
  shows "encodable (family_share ems gt groups gs j m)"
    "sh_group_index (family_share ems gt groups gs j m) = int j"
    "\<lparr>rs_x = of_int (sh_member_index (family_share ems gt groups gs j m)),
      rs_data = sh_value (family_share ems gt groups gs j m)\<rparr> = m"
proof -
  note g = family_group [OF assms(1,2)]
  obtain rr rr' where s: "split_secret_raw (fst (groups ! j)) (snd (groups ! j)) (rs_data (gs ! j)) rr
      = Inr (mem j, rr')" using assms(1,2) by (auto simp: share_family_def)
  have sh: "sharable (rs_data (gs ! j))" using g(4) by (simp add: sharable_def)
  note n = split_secret_raw_nth [OF sh s assms(3)]
  have "nat (snd (groups ! j)) \<le> 16" using n(3) by (simp add: nat_le_iff)
  then have "int (unat (rs_x m)) < 16" using n(2) by linarith
  then show "encodable (family_share ems gt groups gs j m)"
    using assms(1) g n(1,3-5)
    by (simp add: share_family_def family_share_def member_share_def encodable_def)
  show "sh_group_index (family_share ems gt groups gs j m) = int j"
    using g(3) by (simp add: family_share_def member_share_def)
  show "\<lparr>rs_x = of_int (sh_member_index (family_share ems gt groups gs j m)),
      rs_data = sh_value (family_share ems gt groups gs j m)\<rparr> = m"
    by (simp add: family_share_def member_share_def)
qed

text \<open>The shares picked by an heir: any set of shares of the family.\<close>

definition picked :: "encrypted_master_secret \<Rightarrow> int \<Rightarrow> (int \<times> int) list \<Rightarrow> raw_share list \<Rightarrow>
    (nat \<Rightarrow> raw_share list) \<Rightarrow> share set \<Rightarrow> bool" where
  "picked ems gt groups gs mem P \<longleftrightarrow>
     (\<forall>s \<in> P. \<exists>j m. j < length groups \<and> m \<in> set (mem j) \<and> s = family_share ems gt groups gs j m)"

lemma picked_consistent:
  assumes fam: "share_family ems gt groups gs mem" and P: "picked ems gt groups gs mem P"
  shows "consistent P"
  unfolding consistent_def
proof (intro ballI)
  fix s t assume "s \<in> P" "t \<in> P"
  then obtain j m j' m' where st: "j < length groups" "m \<in> set (mem j)" "s = family_share ems gt groups gs j m"
    "j' < length groups" "m' \<in> set (mem j')" "t = family_share ems gt groups gs j' m'"
    using P unfolding picked_def by meson
  have i: "sh_group_index s = int j" "sh_group_index t = int j'"
    using family_member(2) [OF fam] st by simp_all
  have c: "common_parameters s = common_parameters t"
    unfolding st(3,6) by (simp add: common_parameters_def family_share_def member_share_def)
  have "group_parameters s = group_parameters t" if "sh_group_index s = sh_group_index t"
  proof -
    have "j = j'" using that i by simp
    then show ?thesis
      unfolding st(3,6) by (simp add: group_parameters_def family_share_def member_share_def)
  qed
  with c show "common_parameters s = common_parameters t \<and>
      (sh_group_index s = sh_group_index t \<longrightarrow> group_parameters s = group_parameters t)" by blast
qed


lemma picked_group:
  assumes fam: "share_family ems gt groups gs mem" and P: "picked ems gt groups gs mem P"
    and G: "groups_of P G" "(i, g) \<in> set G"
  obtains j where "j < length groups" "i = int j" "group_member_threshold g = fst (groups ! j)"
    "\<forall>s \<in> set g. \<exists>m \<in> set (mem j). s = family_share ems gt groups gs j m"
proof -
  note d = groups_ofD [OF G]
  obtain j m where j: "j < length groups" "m \<in> set (mem j)" "hd g = family_share ems gt groups gs j m"
    using P d(4) unfolding picked_def by meson
  have i: "i = int j" using d(5) family_member(2) [OF fam j(1,2)] j(3) by simp
  have "\<exists>m \<in> set (mem j). s = family_share ems gt groups gs j m" if "s \<in> set g" for s
  proof -
    have s: "s \<in> P" "sh_group_index s = i" using that d(2) by auto
    obtain j' m' where j': "j' < length groups" "m' \<in> set (mem j')" "s = family_share ems gt groups gs j' m'"
      using P s(1) unfolding picked_def by meson
    have "j' = j" using family_member(2) [OF fam j'(1,2)] j'(3) s(2) i by simp
    with j' show ?thesis by blast
  qed
  moreover have "group_member_threshold g = fst (groups ! j)"
    by (simp add: group_member_threshold_def j(3) family_share_def member_share_def)
  ultimately show thesis using that j(1) i by blast
qed

text \<open>The members of one group: distinct indices, and any threshold of them lie in the split.\<close>

lemma picked_members:
  assumes fam: "share_family ems gt groups gs mem" and j: "j < length groups"
    and g: "distinct g" "\<forall>s \<in> set g. \<exists>m \<in> set (mem j). s = family_share ems gt groups gs j m"
  shows "distinct (map sh_member_index g)" "set (to_raw_shares g) \<subseteq> set (mem j)"
    "distinct (map rs_x (to_raw_shares g))" "length (to_raw_shares g) = length g"
proof -
  let ?raw = "\<lambda>s :: share. \<lparr>rs_x = of_int (sh_member_index s), rs_data = sh_value s\<rparr>"
  have sh: "sharable (rs_data (gs ! j))" using family_group(4) [OF fam j] by (simp add: sharable_def)
  obtain rr rr' where split: "split_secret_raw (fst (groups ! j)) (snd (groups ! j)) (rs_data (gs ! j)) rr
      = Inr (mem j, rr')" using fam j by (auto simp: share_family_def)
  have dm: "distinct (map rs_x (mem j))" using shamir.split_count [OF sh split] by blast
  have raw: "?raw s \<in> set (mem j) \<and> s = family_share ems gt groups gs j (?raw s)" if "s \<in> set g" for s
    using bspec [OF g(2) that] family_member(3) [OF fam j] by auto
  have x_inj: "s = t" if "s \<in> set g" "t \<in> set g" "rs_x (?raw s) = rs_x (?raw t)" for s t
  proof -
    have "?raw s = ?raw t"
      using raw [OF that(1)] raw [OF that(2)] that(3) dm distinct_map_subseq_set by metis
    then show ?thesis using raw [OF that(1)] raw [OF that(2)] by metis
  qed
  show "distinct (map sh_member_index g)"
    using g(1) x_inj by (auto simp: distinct_map inj_on_def)
  show "set (to_raw_shares g) \<subseteq> set (mem j)" using raw by (auto simp: to_raw_shares_def)
  show "distinct (map rs_x (to_raw_shares g))"
    using g(1) x_inj by (auto simp: to_raw_shares_def distinct_map inj_on_def comp_def)
  show "length (to_raw_shares g) = length g" by (simp add: to_raw_shares_def)
qed

lemma recover_ems_picked:
  assumes fam: "share_family ems gt groups gs mem" and P: "picked ems gt groups gs mem P"
    and G: "groups_of P G" "G \<noteq> []" "int (length G) = gt"
    and enough: "\<And>i g. (i, g) \<in> set G \<Longrightarrow> group_member_threshold g \<le> int (length g)"
  shows "recover_ems G = Inr ems"
proof -
  let ?p = "group_common_parameters (snd (hd G))"
  let ?kt = "\<lambda>(i, g). group_member_threshold g"
  let ?sel = "\<lambda>(i, g). take (nat (group_member_threshold g)) (to_raw_shares g)"
  obtain i0 g0 where hd: "hd G = (i0, g0)" "(i0, g0) \<in> set G"
    using G(2) by (metis hd_in_set prod.exhaust)
  have "hd g0 \<in> P" using groups_ofD(4) [OF G(1) hd(2)] .
  then have p: "cp_identifier ?p = ems_identifier ems" "cp_extendable ?p = ems_extendable ems"
    "cp_iteration_exponent ?p = ems_iteration_exponent ems" "cp_group_threshold ?p = gt"
    using P unfolding picked_def
    by (auto simp: hd group_common_parameters_def common_parameters_def family_share_def
        member_share_def)
  have chk: "rmap (\<lambda>(i, g). check_group g) G = Inr (map (\<lambda>_. ()) G)"
  proof (rule rmap_Inr_map, clarify)
    fix i g assume ig: "(i, g) \<in> set G"
    from picked_group [OF fam P G(1) ig] obtain j where j: "j < length groups"
      "\<forall>s \<in> set g. \<exists>m \<in> set (mem j). s = family_share ems gt groups gs j m" by blast
    show "check_group g = Inr ()"
      using picked_members(1) [OF fam j(1) groups_ofD(1) [OF G(1) ig] j(2)] enough [OF ig]
      by (simp add: check_group_def distinct_remdups_id raise_if_def)
  qed
  obtain r r' where split: "split_secret_raw gt (int (length groups)) (ems_ciphertext ems) r = Inr (gs, r')"
    and sh: "sharable (ems_ciphertext ems)"
    using fam by (auto simp: share_family_def sharable_def)
  have dG: "distinct (map fst G)" using G(1) by (simp add: groups_of_def)
  have key: "\<exists>j. j < length groups \<and> fst d = int j \<and> ?kt d = fst (groups ! j) \<and>
      (\<forall>s \<in> set (snd d). \<exists>m \<in> set (mem j). s = family_share ems gt groups gs j m)" if d: "d \<in> set G" for d
  proof -
    obtain i g where ig: "d = (i, g)" by (cases d)
    with d have "(i, g) \<in> set G" by simp
    then obtain j where "j < length groups" "i = int j" "group_member_threshold g = fst (groups ! j)"
      "\<forall>s \<in> set g. \<exists>m \<in> set (mem j). s = family_share ems gt groups gs j m"
      by (rule picked_group [OF fam P G(1)])
    then show ?thesis unfolding ig prod.case fst_conv snd_conv by blast
  qed
  have "rbind (rmap (\<lambda>d. rbind (recover_secret_raw (?kt d) (?sel d))
      (\<lambda>v. Inr \<lparr>rs_x = of_int (fst d), rs_data = v\<rparr>)) G) (recover_secret_raw gt) = Inr (ems_ciphertext ems)"
  proof (rule shamir.recover_two_level [OF sh split, where grp = "\<lambda>d. gs ! nat (fst d)"])
    show "gs ! nat (fst d) \<in> set gs \<and> rs_x (gs ! nat (fst d)) = of_int (fst d)" if "d \<in> set G" for d
      using key [OF that] family_group(1,2) [OF fam] by auto
    show "nat gt \<le> length G" using G(3) by simp
    show "distinct (map (\<lambda>d. of_int (fst d) :: byte) G)"
      unfolding distinct_map
    proof (intro conjI inj_onI)
      show "distinct G" using dG by (simp add: distinct_map)
      fix d e assume de: "d \<in> set G" "e \<in> set G" and eq: "(of_int (fst d) :: byte) = of_int (fst e)"
      have n16: "length groups \<le> 16"
        using family_group(8) [OF fam] by (cases "length groups") auto
      obtain j where j: "j < length groups" "fst d = int j" using key [OF de(1)] by (elim exE conjE)
      obtain k where k: "k < length groups" "fst e = int k" using key [OF de(2)] by (elim exE conjE)
      have jk: "fst d = int j" "j < 16" "fst e = int k" "k < 16" using j k n16 by auto
      then have "(of_nat j :: byte) = of_nat k" using eq by simp
      moreover have "j < 256" "k < 256" using jk by simp_all
      ultimately have "j = k" by (metis unat_of_nat_byte)
      then show "d = e" using jk de dG distinct_map_subseq_set [of fst G d e] by simp
    qed
    show "\<exists>nt rr ms rr'. split_secret_raw (?kt d) nt (rs_data (gs ! nat (fst d))) rr = Inr (ms, rr') \<and>
        set (?sel d) \<subseteq> set ms \<and> distinct (map rs_x (?sel d)) \<and> nat (?kt d) \<le> length (?sel d)"
      if d: "d \<in> set G" for d
    proof -
      obtain j where j: "j < length groups" "fst d = int j" "?kt d = fst (groups ! j)"
        "\<forall>s \<in> set (snd d). \<exists>m \<in> set (mem j). s = family_share ems gt groups gs j m"
        using key [OF d] by blast
      obtain rr rr' where "split_secret_raw (?kt d) (snd (groups ! j)) (rs_data (gs ! nat (fst d))) rr
          = Inr (mem j, rr')" using fam j(1-3) by (auto simp: share_family_def)
      moreover have "distinct (snd d)" using groups_ofD(1) [OF G(1)] d by (metis prod.collapse)
      note m = picked_members [OF fam j(1) this j(4)]
      have "set (?sel d) \<subseteq> set (mem j)" "distinct (map rs_x (?sel d))"
        using m(2,3) by (auto simp: split_def distinct_take take_map [symmetric] dest: in_set_takeD)
      moreover have "nat (?kt d) \<le> length (?sel d)"
        using enough [of "fst d" "snd d"] d m(4) by (simp add: split_def nat_le_iff)
      ultimately show ?thesis by blast
    qed
  qed
  then obtain raws where "rmap (\<lambda>d. rbind (recover_secret_raw (?kt d) (?sel d))
      (\<lambda>v. Inr \<lparr>rs_x = of_int (fst d), rs_data = v\<rparr>)) G = Inr raws"
    "recover_secret_raw gt raws = Inr (ems_ciphertext ems)" by (rule rbind_eq_InrE)
  then show ?thesis
    using G(2,3) p chk by (simp add: recover_ems_def split_def)
qed


section \<open>Combining what was generated\<close>

text \<open>The mnemonics of a split are those of a share family.\<close>

lemma generate_mnemonics_family:
  assumes gen: "generate_mnemonics gt groups ms p e ext r = Inr (res, r')" and e: "0 \<le> e" "e < 16"
  obtains ems gs mem where "share_family ems gt groups gs mem" "ems_decrypt ems p = Inr ms"
    "length res = length groups"
    "\<And>j. j < length groups \<Longrightarrow>
       rmap (\<lambda>m. mnemonic (family_share ems gt groups gs j m)) (mem j) = Inr (res ! j)"
proof -
  from generate_mnemonics_Inr [OF gen] obtain ident c r1 gs r2 where g:
    "16 \<le> length ms" "even (length ms)" "0 \<le> ident" "ident < 2 ^ 15" "encrypt ms p e ident ext = Inr c"
    "split_secret_raw gt (int (length groups)) c r1 = Inr (gs, r2)" "length gs = length groups"
    "generate_groups \<lparr>ems_identifier = ident, ems_extendable = ext, ems_iteration_exponent = e,
       ems_ciphertext = c\<rparr> gt (int (length groups)) (zip groups gs) r2 = Inr (res, r')" by metis
  let ?ems = "\<lparr>ems_identifier = ident, ems_extendable = ext, ems_iteration_exponent = e, ems_ciphertext = c\<rparr>"
  have c: "length c = length ms" "decrypt c p e ident ext = Inr ms"
  proof -
    have "ms \<noteq> []" using g(1) by auto
    then show "length c = length ms" "decrypt c p e ident ext = Inr ms"
      using encrypt_decrypt [of ms e ident p ext] g(2-5) e by auto
  qed
  have len: "length res = length groups" using generate_groups_Inr(1) [OF g(8)] g(7) by simp
  have "\<exists>m rr rr'. split_secret_raw (fst (groups ! j)) (snd (groups ! j)) (rs_data (gs ! j)) rr = Inr (m, rr') \<and>
      rmap (\<lambda>x. mnemonic (family_share ?ems gt groups gs j x)) m = Inr (res ! j)" if "j < length groups" for j
    using generate_groups_Inr(2) [OF g(8), of j "fst (groups ! j)" "snd (groups ! j)" "gs ! j"] that g(7)
    by (auto simp: family_share_def)
  then obtain mem where mem: "\<And>j. j < length groups \<Longrightarrow> \<exists>rr rr'.
      split_secret_raw (fst (groups ! j)) (snd (groups ! j)) (rs_data (gs ! j)) rr = Inr (mem j, rr') \<and>
      rmap (\<lambda>x. mnemonic (family_share ?ems gt groups gs j x)) (mem j) = Inr (res ! j)"
    by metis
  have "share_family ?ems gt groups gs mem"
    using g(1-6) c(1) e mem by (auto simp: share_family_def)
  then show thesis
    by (rule that) (use c(2) len mem in \<open>auto simp: ems_decrypt_def\<close>)
qed

lemma set_rmap: "rmap f xs = Inr ys \<Longrightarrow> y \<in> set ys \<Longrightarrow> \<exists>x \<in> set xs. f x = Inr y"
  by (metis in_set_conv_nth rmap_length rmap_nth)

lemma combine_generate_aux:
  assumes gen: "generate_mnemonics gt groups ms p e ext r = Inr (res, r')" and e: "0 \<le> e" "e < 16"
    and sub: "set mns \<subseteq> \<Union> (set ` set res)"
    and cnt: "int (card {j. j < length res \<and> set mns \<inter> set (res ! j) \<noteq> {}}) = gt"
    and enough: "\<And>j. j < length res \<Longrightarrow> set mns \<inter> set (res ! j) \<noteq> {} \<Longrightarrow>
      fst (groups ! j) \<le> int (card (set mns \<inter> set (res ! j)))"
  shows "combine_mnemonics mns p = Inr ms"
proof -
  from generate_mnemonics_family [OF gen e] obtain ems gs mem where
    fam: "share_family ems gt groups gs mem" and dec: "ems_decrypt ems p = Inr ms"
    and len: "length res = length groups"
    and res: "\<And>j. j < length groups \<Longrightarrow>
       rmap (\<lambda>m. mnemonic (family_share ems gt groups gs j m)) (mem j) = Inr (res ! j)" by blast
  define dc where "dc t = projr (from_mnemonic t)" for t
  have one: "from_mnemonic t = Inr (dc t)" "mnemonic (dc t) = Inr t" "sh_group_index (dc t) = int j"
    "\<exists>m \<in> set (mem j). dc t = family_share ems gt groups gs j m"
    if jt: "j < length groups" "t \<in> set (res ! j)" for t j
  proof -
    obtain m where m: "m \<in> set (mem j)" "mnemonic (family_share ems gt groups gs j m) = Inr t"
      using set_rmap [OF res [OF jt(1)] jt(2)] by blast
    have f: "from_mnemonic t = Inr (family_share ems gt groups gs j m)"
      using from_mnemonic_mnemonic [OF family_member(1) [OF fam jt(1) m(1)] m(2)] .
    then have "dc t = family_share ems gt groups gs j m" by (simp add: dc_def)
    with f m family_member(2) [OF fam jt(1) m(1)] show "from_mnemonic t = Inr (dc t)"
      "mnemonic (dc t) = Inr t" "sh_group_index (dc t) = int j"
      "\<exists>m \<in> set (mem j). dc t = family_share ems gt groups gs j m" by auto
  qed
  have every: "\<exists>j. j < length groups \<and> t \<in> set (res ! j)" if t: "t \<in> set mns" for t
  proof -
    obtain x where "x \<in> set res" "t \<in> set x" using sub t by blast
    then show ?thesis using len by (metis in_set_conv_nth)
  qed
  let ?P = "set (map dc mns)"
  let ?J = "{j. j < length res \<and> set mns \<inter> set (res ! j) \<noteq> {}}"
  have ss: "rmap from_mnemonic mns = Inr (map dc mns)"
    using every one(1) by (intro rmap_Inr_map) blast
  have P: "picked ems gt groups gs mem ?P"
    unfolding picked_def
  proof
    fix s assume "s \<in> ?P"
    then obtain t where t: "t \<in> set mns" "s = dc t" by auto
    from every [OF t(1)] obtain j where "j < length groups" "t \<in> set (res ! j)" by blast
    with one(4) t(2) show "\<exists>j m. j < length groups \<and> m \<in> set (mem j) \<and> s = family_share ems gt groups gs j m"
      by blast
  qed
  have gt1: "1 \<le> gt" using generate_mnemonics_Inr [OF gen] by metis
  then have ne: "mns \<noteq> []" using cnt by (auto simp: card_gt_0_iff)
  from decode_mnemonics_Inr [OF ss picked_consistent [OF fam P]] ne
  obtain G where G: "decode_mnemonics mns = Inr G" "groups_of ?P G" by auto
  have idx: "sh_group_index ` ?P = int ` ?J"
  proof (intro set_eqI iffI)
    fix i assume "i \<in> sh_group_index ` ?P"
    then obtain t where t: "t \<in> set mns" "i = sh_group_index (dc t)" by auto
    from every [OF t(1)] obtain j where j: "j < length groups" "t \<in> set (res ! j)" by blast
    then show "i \<in> int ` ?J" using one(3) [OF j] t len by auto
  next
    fix i assume "i \<in> int ` ?J"
    then obtain j t where "j < length groups" "t \<in> set mns" "t \<in> set (res ! j)" "i = int j" using len by auto
    then show "i \<in> sh_group_index ` ?P" using one(3) by force
  qed
  have "length G = card (fst ` set G)"
    using G(2) distinct_card [of "map fst G"] by (simp add: groups_of_def)
  then have lG: "int (length G) = gt"
    using G(2) cnt idx by (simp add: groups_of_def card_image inj_on_def)
  have members: "group_member_threshold g \<le> int (length g)" if ig: "(i, g) \<in> set G" for i g
  proof -
    obtain j where j: "j < length groups" "i = int j" "group_member_threshold g = fst (groups ! j)"
      using picked_group [OF fam P G(2) ig] by metis
    note d = groups_ofD [OF G(2) ig]
    have "set g = dc ` (set mns \<inter> set (res ! j))"
    proof -
      have "t \<in> set (res ! j)" if tj: "t \<in> set mns" "sh_group_index (dc t) = int j" for t
      proof -
        from every [OF tj(1)] obtain j' where j': "j' < length groups" "t \<in> set (res ! j')" by blast
        with one(3) [OF j'] tj(2) show ?thesis by simp
      qed
      then show ?thesis unfolding d(2) j(2) using one(3) [OF j(1)] by auto
    qed
    moreover have "inj_on dc (set mns \<inter> set (res ! j))"
      using one(2) [OF j(1)] by (intro inj_onI) (metis IntD2 sum.inject(2))
    ultimately have "length g = card (set mns \<inter> set (res ! j))"
      using distinct_card [OF d(1)] by (simp add: card_image)
    moreover have "set mns \<inter> set (res ! j) \<noteq> {}"
      using \<open>set g = dc ` (set mns \<inter> set (res ! j))\<close> d(3) by auto
    ultimately show ?thesis using enough [of j] j len by simp
  qed
  have "G \<noteq> []" using lG gt1 by auto
  from recover_ems_picked [OF fam P G(2) this lG members] show ?thesis
    using ne G(1) dec by (simp add: combine_mnemonics_def)
qed

end
