(* ===== verification/Slip39_Api.thy ===== *)
theory Slip39_Api
  imports Slip39_Correct
begin

text \<open>
  Consequences for the callers of \<open>keyshare/slip39.py\<close>: splitting is total on valid arguments,
  the single-group functions \<open>split_secret\<close> and \<open>recover_secret\<close> round-trip, and combining
  succeeds only when every threshold is met.
\<close>

section \<open>Totality of splitting\<close>

definition valid_groups :: "(int \<times> int) list \<Rightarrow> bool" where
  "valid_groups groups \<longleftrightarrow>
     (\<forall>(k, n) \<in> set groups. 1 \<le> k \<and> k \<le> n \<and> n \<le> 16 \<and> (k = 1 \<longrightarrow> n = 1))"

lemma generate_groups_total:
  assumes "\<forall>((k, n), g) \<in> set pairs. 1 \<le> k \<and> k \<le> n \<and> n \<le> 16 \<and> sharable (rs_data g)"
  shows "\<exists>res r'. generate_groups ems gt gc pairs r = Inr (res, r')"
  using assms
proof (induction ems gt gc pairs r rule: generate_groups.induct)
  case (1 ems gt gc r)
  then show ?case by simp
next
  case (2 ems gt gc k n g rest r)
  have kn: "sharable (rs_data g)" "1 \<le> k" "k \<le> n" "n \<le> 16" using "2.prems" by auto
  obtain members r1 where s: "split_secret_raw k n (rs_data g) r = Inr (members, r1)"
    using shamir.split_total [OF kn] by blast
  have m: "\<exists>ws. rmap (\<lambda>m. mnemonic (member_share ems gt gc k g m)) members = Inr ws"
    using rmap_Inr_map [OF mnemonic_Inr] by blast
  have "\<exists>res r'. generate_groups ems gt gc rest r1 = Inr (res, r')"
    using "2.IH" [of r1] "2.prems" by auto
  with s m show ?case by auto
qed

lemma random_identifier_range:
  assumes "random_identifier r = Inr (ident, r1)" shows "0 \<le> ident" "ident < 2 ^ 15"
proof -
  have "(32767 :: nat) = mask 15" by (simp add: mask_eq_exp_minus_1)
  then have "int (and x 32767) < 2 ^ 15" for x :: nat
    using take_bit_nat_less_exp [of 15 x] by (simp add: take_bit_eq_mask)
  then show "0 \<le> ident" "ident < 2 ^ 15"
    using assms by (auto simp: random_identifier_def rbind_eq_Inr ID_LENGTH_BITS_def)
qed

lemma generate_mnemonics_total_aux:
  assumes ms: "16 \<le> length ms" "even (length ms)"
    and p: "\<forall>c \<in> set p. 32 \<le> c \<and> c \<le> 126"
    and gt: "1 \<le> gt" "gt \<le> int (length groups)" "length groups \<le> 16"
    and groups: "valid_groups groups" and e: "0 \<le> e"
  shows "\<exists>res r'. generate_mnemonics gt groups ms p e ext r = Inr (res, r')"
proof -
  have chk: "check_master_secret ms = Inr ()" "check_passphrase p = Inr ()"
    using ms p by (auto simp: check_master_secret_def check_passphrase_def MIN_STRENGTH_BITS_def
        list_all_iff raise_if_def)
  have one: "\<not> list_ex (\<lambda>(k, n). k = 1 \<and> n > 1) groups"
    using groups by (auto simp: valid_groups_def list_ex_iff)
  obtain ident r1 where ri: "random_identifier r = Inr (ident, r1)"
    by (auto simp: random_identifier_def random_bytes_def)
  obtain c where c: "encrypt ms p e ident ext = Inr c" "length c = length ms"
    using encrypt_decrypt [of ms e ident p ext] random_identifier_range [OF ri] ms e by force
  have sc: "sharable c" using c(2) ms(1) by (simp add: sharable_def)
  obtain gs r2 where gs: "split_secret_raw gt (int (length groups)) c r1 = Inr (gs, r2)"
    using shamir.split_total [OF sc gt(1,2), of r1] gt(3) by auto
  have len: "length gs = length groups" using shamir.split_count [OF sc gs] by simp
  have "\<forall>((k, n), g) \<in> set (zip groups gs). 1 \<le> k \<and> k \<le> n \<and> n \<le> 16 \<and> sharable (rs_data g)"
  proof clarify
    fix k n g assume z: "((k, n), g) \<in> set (zip groups gs)"
    have "(k, n) \<in> set groups" "g \<in> set gs" using z by (auto dest: set_zip_leftD set_zip_rightD)
    then show "1 \<le> k \<and> k \<le> n \<and> n \<le> 16 \<and> sharable (rs_data g)"
      using groups shamir.split_sharable [OF sc gs] by (auto simp: valid_groups_def)
  qed
  then obtain res r' where "generate_groups \<lparr>ems_identifier = ident, ems_extendable = ext,
      ems_iteration_exponent = e, ems_ciphertext = c\<rparr> gt (int (length groups)) (zip groups gs) r2 = Inr (res, r')"
    using generate_groups_total by blast
  then have "generate_mnemonics gt groups ms p e ext r = Inr (res, r')"
    using chk gt(1,2) one ri c(1) gs len
    by (simp add: generate_mnemonics_def from_master_secret_def zip_strict_def)
  then show ?thesis by blast
qed


section \<open>Combining succeeds only when the thresholds are met\<close>

lemma add_to_groups_same:
  assumes "add_to_groups s groups = Inr groups'" "distinct (map fst groups)"
  shows "\<forall>(i, g) \<in> set groups. i = sh_group_index s \<longrightarrow> g \<noteq> [] \<longrightarrow>
    group_parameters (hd g) = group_parameters s"
  using assms
proof (induction s groups arbitrary: groups' rule: add_to_groups.induct)
  case (2 s i g rest)
  show ?case
  proof (cases "i = sh_group_index s")
    case True
    then have "g \<noteq> [] \<longrightarrow> group_parameters (hd g) = group_parameters s"
      using "2.prems"(1) by (auto simp: rbind_eq_Inr group_add_def)
    moreover have "sh_group_index s \<notin> fst ` set rest" using True "2.prems"(2) by auto
    ultimately show ?thesis by force
  next
    case False
    then show ?thesis using "2.IH" "2.prems" by (auto simp: rbind_eq_Inr)
  qed
qed simp

text \<open>Members of one group have equal group parameters.\<close>

definition group_uniform :: "share set \<Rightarrow> bool" where
  "group_uniform P \<longleftrightarrow> (\<forall>s \<in> P. \<forall>t \<in> P. sh_group_index s = sh_group_index t \<longrightarrow>
     group_parameters s = group_parameters t)"

lemma add_to_groups_sound:
  assumes "groups_of P groups" "group_uniform P" "add_to_groups s groups = Inr groups'"
  shows "groups_of (insert s P) groups'" "group_uniform (insert s P)"
proof -
  have d: "distinct (map fst groups)" and keys: "fst ` set groups = sh_group_index ` P"
    using assms(1) by (auto simp: groups_of_def)
  have same: "group_parameters t = group_parameters s"
    if t: "t \<in> P" "sh_group_index t = sh_group_index s" for t
  proof -
    obtain g where g: "(sh_group_index s, g) \<in> set groups" using t keys by (metis (no_types, lifting) image_iff imageI prod.collapse)
    note gd = groups_ofD [OF assms(1) g]
    have "group_parameters (hd g) = group_parameters s"
      using bspec [OF add_to_groups_same [OF assms(3) d] g] gd(3) by simp
    moreover have "sh_group_index t = sh_group_index (hd g)" using t(2) gd(5) by simp
    then have "group_parameters t = group_parameters (hd g)"
      using assms(2) t(1) gd(4) unfolding group_uniform_def by blast
    ultimately show ?thesis by simp
  qed
  show "group_uniform (insert s P)"
    using assms(2) same unfolding group_uniform_def by (metis insert_iff)
  show "groups_of (insert s P) groups'"
  proof -
    obtain gs where "add_to_groups s groups = Inr gs" "groups_of (insert s P) gs"
      using groups_of_add_same [OF assms(1), of s] same by blast
    then show ?thesis using assms(3) by simp
  qed
qed

lemma rfold_decode_sound:
  assumes "rfold decode_step ms (cl, groups) = Inr (cl', groups')"
    and "groups_of P groups" "group_uniform P" "set cl = common_parameters ` P"
  shows "\<exists>ss. rmap from_mnemonic ms = Inr ss \<and> groups_of (P \<union> set ss) groups' \<and>
    group_uniform (P \<union> set ss) \<and> set cl' = common_parameters ` (P \<union> set ss)"
  using assms
proof (induction ms arbitrary: cl groups P)
  case Nil
  then show ?case by auto
next
  case (Cons m ms)
  from Cons.prems(1) obtain st where st: "decode_step m (cl, groups) = Inr st"
    "rfold decode_step ms st = Inr (cl', groups')" by (auto simp: rbind_eq_Inr)
  from st(1) obtain s g where s: "from_mnemonic m = Inr s" "add_to_groups s groups = Inr g"
    "st = (List.insert (common_parameters s) cl, g)" by (auto simp: rbind_eq_Inr decode_step_def)
  from Cons.IH [OF st(2) [unfolded s(3)] add_to_groups_sound [OF Cons.prems(2,3) s(2)]] Cons.prems(4)
  show ?case using s(1) by auto
qed


lemma decode_mnemonics_sound:
  assumes "decode_mnemonics ms = Inr groups"
  obtains ss where "rmap from_mnemonic ms = Inr ss" "groups_of (set ss) groups" "group_uniform (set ss)"
    "ss \<noteq> []" "\<forall>s \<in> set ss. \<forall>t \<in> set ss. common_parameters s = common_parameters t"
proof -
  from assms obtain cl where cl: "rfold decode_step ms ([], []) = Inr (cl, groups)" "length cl = 1"
    by (auto simp: decode_mnemonics_def rbind_eq_Inr)
  have e: "groups_of {} []" "group_uniform {}" "set [] = common_parameters ` {}"
    by (auto simp: groups_of_def group_uniform_def)
  from rfold_decode_sound [OF cl(1) e] obtain ss where ss: "rmap from_mnemonic ms = Inr ss"
    "groups_of (set ss) groups" "group_uniform (set ss)" "set cl = common_parameters ` set ss" by auto
  obtain c where "cl = [c]" using cl(2) by (metis One_nat_def length_0_conv length_Suc_conv)
  then have "common_parameters ` set ss = {c}" using ss(4) by simp
  then have "ss \<noteq> []" "\<forall>s \<in> set ss. \<forall>t \<in> set ss. common_parameters s = common_parameters t"
    by (auto, metis imageI singletonD)
  with that ss show thesis by blast
qed

text \<open>The thresholds that a decoded set of shares meets.\<close>

definition thresholds_met :: "share set \<Rightarrow> bool" where
  "thresholds_met P \<longleftrightarrow>
     (\<forall>s \<in> P. int (card (sh_group_index ` P)) = sh_group_threshold s \<and>
        sh_member_threshold s \<le> int (card {t \<in> P. sh_group_index t = sh_group_index s}))"

lemma recover_ems_thresholds:
  assumes "recover_ems groups = Inr ems" and g: "groups_of P groups" and u: "group_uniform P"
    and c: "\<forall>s \<in> P. \<forall>t \<in> P. common_parameters s = common_parameters t"
  shows "thresholds_met P"
  unfolding thresholds_met_def
proof (intro ballI conjI)
  fix s assume s: "s \<in> P"
  from assms(1) have ne: "groups \<noteq> []"
    and n: "int (length groups) = cp_group_threshold (group_common_parameters (snd (hd groups)))"
    and chk: "\<exists>us. rmap (\<lambda>(i, g). check_group g) groups = Inr us"
    by (auto simp: recover_ems_def rbind_eq_Inr Let_def)
  obtain i0 g0 where hd0: "hd groups = (i0, g0)" "(i0, g0) \<in> set groups"
    using ne by (metis hd_in_set prod.exhaust)
  have "common_parameters (hd g0) = common_parameters s" using c groups_ofD(4) [OF g hd0(2)] s by blast
  then have "int (length groups) = sh_group_threshold s"
    using n by (simp add: hd0 group_common_parameters_def common_parameters_def)
  moreover have "length groups = card (sh_group_index ` P)"
    using g distinct_card [of "map fst groups"] by (simp add: groups_of_def)
  ultimately show "int (card (sh_group_index ` P)) = sh_group_threshold s" by simp
  have "sh_group_index s \<in> fst ` set groups" using g s by (simp add: groups_of_def)
  then obtain h where h: "(sh_group_index s, h) \<in> set groups" by force
  note d = groups_ofD [OF g h]
  have "check_group h = Inr ()"
    using chk h by (metis (mono_tags, lifting) case_prod_conv in_set_conv_nth old.unit.exhaust rmap_nth)
  then have "group_member_threshold h \<le> int (length h)"
    by (auto simp: check_group_def rbind_eq_Inr not_less)
  moreover have "group_parameters (hd h) = group_parameters s"
    using u s d(4,5) unfolding group_uniform_def by blast
  then have "group_member_threshold h = sh_member_threshold s"
    by (simp add: group_member_threshold_def group_parameters_def)
  moreover have "length h = card {t \<in> P. sh_group_index t = sh_group_index s}"
    using distinct_card [OF d(1)] d(2) by simp
  ultimately show "sh_member_threshold s \<le> int (card {t \<in> P. sh_group_index t = sh_group_index s})"
    by simp
qed

lemma combine_Inr_thresholds:
  assumes "combine_mnemonics ms p = Inr m"
  shows "\<exists>ss. rmap from_mnemonic ms = Inr ss \<and> ss \<noteq> [] \<and> thresholds_met (set ss)"
proof -
  from assms obtain groups ems where g: "decode_mnemonics ms = Inr groups" "recover_ems groups = Inr ems"
    by (auto simp: combine_mnemonics_def rbind_eq_Inr)
  from g(1) obtain ss where "rmap from_mnemonic ms = Inr ss" "groups_of (set ss) groups" "group_uniform (set ss)"
    "ss \<noteq> []" "\<forall>s \<in> set ss. \<forall>t \<in> set ss. common_parameters s = common_parameters t"
    by (rule decode_mnemonics_sound)
  with recover_ems_thresholds [OF g(2)] show ?thesis by blast
qed


section \<open>One split, its mnemonics, and who can combine\<close>

lemma generated_mnemonics:
  assumes gen: "generate_mnemonics gt groups ms p e ext r = Inr (res, r')" and e: "0 \<le> e" "e < 16"
    and j: "j < length groups"
  shows "length res = length groups" "distinct (res ! j)" "length (res ! j) = nat (snd (groups ! j))"
    "\<And>t. t \<in> set (res ! j) \<Longrightarrow> \<exists>s. from_mnemonic t = Inr s \<and> mnemonic s = Inr t \<and>
       sh_member_threshold s = fst (groups ! j)"
proof -
  from generate_mnemonics_family [OF gen e] obtain ems gs mem where
    fam: "share_family ems gt groups gs mem" and "ems_decrypt ems p = Inr ms"
    and len: "length res = length groups"
    and res: "\<And>j. j < length groups \<Longrightarrow>
       rmap (\<lambda>m. mnemonic (family_share ems gt groups gs j m)) (mem j) = Inr (res ! j)" by blast
  show "length res = length groups" by (rule len)
  let ?f = "family_share ems gt groups gs j"
  obtain rr rr' where split: "split_secret_raw (fst (groups ! j)) (snd (groups ! j)) (rs_data (gs ! j)) rr
      = Inr (mem j, rr')" using fam j by (auto simp: share_family_def)
  have sh: "sharable (rs_data (gs ! j))" using family_group(4) [OF fam j] by (simp add: sharable_def)
  have cnt: "length (mem j) = nat (snd (groups ! j))" "distinct (map rs_x (mem j))"
    using shamir.split_count [OF sh split] by simp_all
  have nth: "mnemonic (?f (mem j ! i)) = Inr (res ! j ! i)" if "i < length (mem j)" for i
    using rmap_nth [OF res [OF j] that] .
  have l: "length (res ! j) = length (mem j)" using rmap_length [OF res [OF j]] .
  then show "length (res ! j) = nat (snd (groups ! j))" using cnt(1) by simp
  have m: "\<exists>m \<in> set (mem j). mnemonic (?f m) = Inr t \<and> from_mnemonic t = Inr (?f m)"
    if "t \<in> set (res ! j)" for t
    using set_rmap [OF res [OF j] that] from_mnemonic_mnemonic [OF family_member(1) [OF fam j]] by blast
  then show "\<And>t. t \<in> set (res ! j) \<Longrightarrow> \<exists>s. from_mnemonic t = Inr s \<and> mnemonic s = Inr t \<and>
       sh_member_threshold s = fst (groups ! j)"
    by (fastforce simp: family_share_def member_share_def)
  have bk: "from_mnemonic (res ! j ! i) = Inr (?f (mem j ! i))" if "i < length (mem j)" for i
    using from_mnemonic_mnemonic [OF family_member(1) [OF fam j] nth [OF that]] that by simp
  have "mem j ! i = mem j ! k"
    if ik: "i < length (mem j)" "k < length (mem j)" "res ! j ! i = res ! j ! k" for i k
  proof -
    have "?f (mem j ! i) = ?f (mem j ! k)" using bk [OF ik(1)] bk [OF ik(2)] ik(3) by simp
    then show ?thesis
      using family_member(3) [OF fam j nth_mem [OF ik(1)]] family_member(3) [OF fam j nth_mem [OF ik(2)]]
      by metis
  qed
  moreover have "distinct (mem j)" using cnt(2) by (simp add: distinct_map)
  ultimately show "distinct (res ! j)" unfolding distinct_conv_nth l by metis
qed

text \<open>C1. Splitting a valid master secret under valid thresholds succeeds and yields, for every
  group, as many different mnemonics as asked; and any selection of them that touches exactly
  the required number of groups, with at least the member threshold in each, combines to the
  master secret, whatever its order and repetitions.\<close>

theorem split_combine:
  assumes "16 \<le> length ms" "even (length ms)" "\<forall>c \<in> set p. 32 \<le> c \<and> c \<le> 126"
    and "1 \<le> gt" "gt \<le> int (length groups)" "length groups \<le> 16" "valid_groups groups"
    and "0 \<le> e" "e < 16"
  shows "\<exists>res r'. generate_mnemonics gt groups ms p e ext r = Inr (res, r') \<and>
    length res = length groups \<and>
    (\<forall>j < length groups. distinct (res ! j) \<and> length (res ! j) = nat (snd (groups ! j))) \<and>
    (\<forall>mns. set mns \<subseteq> \<Union> (set ` set res) \<longrightarrow>
       int (card {j. j < length res \<and> set mns \<inter> set (res ! j) \<noteq> {}}) = gt \<longrightarrow>
       (\<forall>j < length res. set mns \<inter> set (res ! j) \<noteq> {} \<longrightarrow>
          fst (groups ! j) \<le> int (card (set mns \<inter> set (res ! j)))) \<longrightarrow>
       combine_mnemonics mns p = Inr ms)"
proof -
  obtain res r' where gen: "generate_mnemonics gt groups ms p e ext r = Inr (res, r')"
    using generate_mnemonics_total_aux [OF assms(1-8)] by blast
  have "length groups \<noteq> 0" using assms(4,5) by auto
  then have "length res = length groups" using generated_mnemonics(1) [OF gen assms(8,9)] by blast
  then show ?thesis
    using gen generated_mnemonics(2,3) [OF gen assms(8,9)] combine_generate_aux [OF gen assms(8,9)] by blast
qed

theorem split_combine_witness:
  "\<exists>res r'. generate_mnemonics 2 [(1, 1), (2, 3)] (replicate 16 7) [] 1 True (\<lambda>i. of_nat i) = Inr (res, r') \<and>
    length res = 2 \<and>
    (\<forall>mns. set mns \<subseteq> \<Union> (set ` set res) \<longrightarrow>
       int (card {j. j < length res \<and> set mns \<inter> set (res ! j) \<noteq> {}}) = 2 \<longrightarrow>
       (\<forall>j < length res. set mns \<inter> set (res ! j) \<noteq> {} \<longrightarrow>
          fst ([(1, 1), (2, 3 :: int)] ! j) \<le> int (card (set mns \<inter> set (res ! j)))) \<longrightarrow>
       combine_mnemonics mns [] = Inr (replicate 16 7))"
  using split_combine [of "replicate 16 7" "[]" 2 "[(1, 1), (2, 3)]" 1 True "\<lambda>i. of_nat i"]
  by (force simp: valid_groups_def)

text \<open>C2. The single-group functions: \<open>split_secret\<close> returns \<open>n\<close> different mnemonics; a selection
  of them recovers the secret exactly when it holds at least \<open>k\<close> different ones, and with fewer
  \<open>recover_secret\<close> raises.\<close>

theorem split_recover_secret:
  assumes "16 \<le> length ms" "even (length ms)" "\<forall>c \<in> set p. 32 \<le> c \<and> c \<le> 126"
    and "1 \<le> k" "k \<le> n" "n \<le> 16" "k = 1 \<longrightarrow> n = 1" and "0 \<le> e" "e < 16"
  shows "\<exists>mns r'. split_secret ms k n p e r = Inr (mns, r') \<and> distinct mns \<and> length mns = nat n \<and>
    (\<forall>sub. set sub \<subseteq> set mns \<longrightarrow>
       (if k \<le> int (card (set sub)) then recover_secret sub p = Inr ms
        else \<exists>err. recover_secret sub p = Inl err))"
proof -
  have vg: "valid_groups [(k, n)]" using assms(4-7) by (simp add: valid_groups_def)
  obtain res r' where gen: "generate_mnemonics 1 [(k, n)] ms p e True r = Inr (res, r')"
    using generate_mnemonics_total_aux [OF assms(1-3) _ _ _ vg assms(8), of 1 True r] by auto
  note g = generated_mnemonics [OF gen assms(8,9), of 0, simplified]
  obtain mns where res: "res = [mns]" using g(1) by (metis One_nat_def length_0_conv length_Suc_conv)
  have split: "split_secret ms k n p e r = Inr (mns, r')" using gen res by (simp add: split_secret_def)
  have "if k \<le> int (card (set sub)) then recover_secret sub p = Inr ms
      else \<exists>err. recover_secret sub p = Inl err" if sub: "set sub \<subseteq> set mns" for sub
  proof (cases "k \<le> int (card (set sub))")
    case True
    then have "set sub \<inter> set mns \<noteq> {}" using sub assms(4) by (auto simp: Int_absorb2)
    then have "{j. j < length res \<and> set sub \<inter> set (res ! j) \<noteq> {}} = {0}" by (auto simp: res)
    then have "combine_mnemonics sub p = Inr ms"
      using sub True by (intro combine_generate_aux [OF gen assms(8,9)]) (auto simp: res Int_absorb2)
    then show ?thesis using True by (simp add: recover_secret_def)
  next
    case False
    have "\<exists>err. combine_mnemonics sub p = Inl err"
    proof (rule ccontr)
      assume "\<nexists>err. combine_mnemonics sub p = Inl err"
      then obtain m where "combine_mnemonics sub p = Inr m" by (metis sum.exhaust)
      from combine_Inr_thresholds [OF this] obtain ss where ss: "rmap from_mnemonic sub = Inr ss"
        "ss \<noteq> []" "thresholds_met (set ss)" by blast
      have "\<exists>t \<in> set sub. from_mnemonic t = Inr s" if "s \<in> set ss" for s using set_rmap [OF ss(1) that] .
      then have "set ss \<subseteq> (\<lambda>t. projr (from_mnemonic t)) ` set sub" by force
      then have c: "card (set ss) \<le> card (set sub)" by (metis List.finite_set surj_card_le)
      have s: "hd ss \<in> set ss" using ss(2) by simp
      then obtain t where "t \<in> set sub" "from_mnemonic t = Inr (hd ss)" using set_rmap [OF ss(1)] by blast
      then have "sh_member_threshold (hd ss) = k" using g(4) [of t] sub by (force simp: res)
      then have "k \<le> int (card {t \<in> set ss. sh_group_index t = sh_group_index (hd ss)})"
        using ss(3) s by (auto simp: thresholds_met_def)
      also have "\<dots> \<le> int (card (set ss))" by (intro of_nat_mono card_mono) auto
      finally show False using c False by linarith
    qed
    then show ?thesis using False by (simp add: recover_secret_def)
  qed
  with split g(2,3) show ?thesis by (simp add: res)
qed

theorem split_recover_secret_witness:
  "\<exists>mns r'. split_secret (replicate 16 7) 2 3 [] 1 (\<lambda>i. of_nat i) = Inr (mns, r') \<and>
    distinct mns \<and> length mns = 3 \<and>
    (\<forall>sub. set sub \<subseteq> set mns \<longrightarrow>
       (if 2 \<le> int (card (set sub)) then recover_secret sub [] = Inr (replicate 16 7)
        else \<exists>err. recover_secret sub [] = Inl err))"
  using split_recover_secret [of "replicate 16 7" "[]" 2 3 1 "\<lambda>i. of_nat i"] by simp

end
