(* ===== verification/Keyshare_Files.thy ===== *)
theory Keyshare_Files
  imports Slip39_Api
begin

unbundle bit_operations_syntax

text \<open>
  \<open>keyshare/codec.py\<close> (the reversible framing of a repository password as a master secret) and
  \<open>keyshare/cards.py\<close> (extraction of the mnemonic from a bare file or a printed share card).
\<close>

section \<open>codec.py\<close>

definition MAX_PASSWORD_LEN :: nat where "MAX_PASSWORD_LEN = 0xFFFF"
definition LENGTH_PREFIX_BYTES :: nat where "LENGTH_PREFIX_BYTES = 2"
definition MIN_MASTER_SECRET_BYTES :: nat where "MIN_MASTER_SECRET_BYTES = 16"

definition encode_master_secret :: "bytes \<Rightarrow> (keyshare_error, bytes) result" where
  "encode_master_secret pw =
     rbind (raise_if (length pw > MAX_PASSWORD_LEN) (Password_too_long (length pw))) (\<lambda>_.
     case int_to_bytes_be (length pw) LENGTH_PREFIX_BYTES of
       None \<Rightarrow> Inl Py_OverflowError
     | Some prefix \<Rightarrow>
         let body = prefix @ pw;
             target = max MIN_MASTER_SECRET_BYTES (length body + (length body AND 1))
         in Inr (body @ replicate (target - length body) 0))"

definition decode_master_secret :: "bytes \<Rightarrow> (keyshare_error, bytes) result" where
  "decode_master_secret ms =
     rbind (raise_if (length ms < LENGTH_PREFIX_BYTES) (Secret_without_length_prefix (length ms))) (\<lambda>_.
     let n = int_from_bytes_be (take LENGTH_PREFIX_BYTES ms) in
     rbind (raise_if (LENGTH_PREFIX_BYTES + n > length ms)
              (Secret_length_past_end n (length ms - LENGTH_PREFIX_BYTES))) (\<lambda>_.
     Inr (take n (drop LENGTH_PREFIX_BYTES ms))))"

section \<open>cards.py\<close>

definition MIN_WORDS :: nat where "MIN_WORDS = MIN_MNEMONIC_LENGTH_WORDS"

definition is_mnemonic_line :: "string \<Rightarrow> bool" where
  "is_mnemonic_line line =
     (let tokens = py_split line in
      if tokens = [] then False
      else list_all (\<lambda>tok. WORD_TO_INDEX (py_lower tok) \<noteq> None) tokens)"

definition is_mistyped_share_line :: "string \<Rightarrow> bool" where
  "is_mistyped_share_line line =
     (let tokens = py_split line in
      if length tokens < 13 then False
      else
        let bad = foldl (\<lambda>bad tok. case word_index tok of Inl _ \<Rightarrow> bad + 1 | Inr _ \<Rightarrow> bad) 0 tokens
        in bad * 4 \<le> length tokens)"

definition extract_mnemonic :: "string \<Rightarrow> (keyshare_error, string) result" where
  "extract_mnemonic text =
     (let words = foldl (\<lambda>words line.
            if is_mnemonic_line line then words @ map py_lower (py_split line) else words)
          [] (py_splitlines text)
      in rbind (raise_if (length words < MIN_WORDS) (Incomplete_share_card (length words))) (\<lambda>_.
         Inr (py_join '' '' words)))"

section \<open>Framing\<close>

lemma encode_master_secret_Inr:
  assumes "length pw \<le> 65535"
  shows "\<exists>ms. encode_master_secret pw = Inr ms \<and> 16 \<le> length ms \<and> even (length ms) \<and>
    decode_master_secret ms = Inr pw"
proof -
  let ?pre = "map of_nat (digits_be 256 2 (length pw)) :: bytes"
  let ?body = "?pre @ pw"
  let ?target = "max 16 (length ?body + (length ?body AND 1))"
  let ?ms = "?body @ replicate (?target - length ?body) 0"
  have small: "length pw < 256 ^ 2" using assms by simp
  have enc: "encode_master_secret pw = Inr ?ms"
    using assms by (simp add: encode_master_secret_def MAX_PASSWORD_LEN_def LENGTH_PREFIX_BYTES_def
        MIN_MASTER_SECRET_BYTES_def int_to_bytes_be_def Let_def)
  have "even (length ?body + (length ?body AND 1))" by (simp add: and_one_eq mod_2_eq_odd)
  then have "even ?target" by (simp add: max_def)
  moreover have "length ?ms = ?target" by simp
  moreover have "int_from_bytes_be (take 2 ?ms) = length pw"
    using int_from_to_bytes_be [OF small] by simp
  then have "decode_master_secret ?ms = Inr pw"
    by (simp add: decode_master_secret_def LENGTH_PREFIX_BYTES_def)
  moreover have "16 \<le> ?target" by simp
  ultimately show ?thesis using enc by metis
qed

section \<open>Lines\<close>

lemma splitlines_line:
  assumes "\<forall>c \<in> set w. \<not> is_line_end c"
  shows "splitlines_aux cur (w @ CHR 0x0A # s) = (rev cur @ w) # splitlines_aux [] s"
  using assms
proof (induction w arbitrary: cur)
  case Nil
  have nl: "is_line_end CHR 0x0A" "code CHR 0x0A = 10" by (simp_all add: is_line_end_def code_def)
  show ?case using nl by (cases s) auto
next
  case (Cons c w)
  obtain d ds where d: "w @ CHR 0x0A # s = d # ds" by (cases w) auto
  have "\<not> is_line_end c" "code c \<noteq> 13" using Cons.prems by (auto simp: is_line_end_def)
  then have "splitlines_aux cur (c # w @ CHR 0x0A # s) = splitlines_aux (c # cur) (w @ CHR 0x0A # s)"
    unfolding d by simp
  then show ?case using Cons by simp
qed

text \<open>A file of lines, each ended by a line feed, splits into its lines.\<close>

definition unlines :: "string list \<Rightarrow> string" where
  "unlines ls = concat (map (\<lambda>l. l @ [CHR 0x0A]) ls)"

lemma splitlines_unlines:
  "\<forall>l \<in> set ls. \<forall>c \<in> set l. \<not> is_line_end c \<Longrightarrow> py_splitlines (unlines ls) = ls"
proof (induction ls)
  case Nil
  show ?case by (simp add: unlines_def py_splitlines_def)
next
  case (Cons l ls)
  then show ?case
    using splitlines_line [of l "[]" "unlines ls"] by (simp add: unlines_def py_splitlines_def)
qed

lemma foldl_append_if:
  "foldl (\<lambda>ws l. if P l then ws @ f l else ws) acc ls = acc @ concat (map f (filter P ls))"
  by (induction ls arbitrary: acc) auto

lemma word_not_line_end: "i < 1024 \<Longrightarrow> \<forall>c \<in> set (WORDLIST ! i). \<not> is_line_end c"
  using WORDLIST_nth(2) [of i] by (auto simp: lower_letters_def list_all_iff is_line_end_def)

lemma chunk_line:
  assumes c: "chunk \<noteq> []" "\<forall>w \<in> set chunk. \<exists>i < 1024. w = WORDLIST ! i"
  shows "is_mnemonic_line (py_join '' '' chunk)" "map py_lower (py_split (py_join '' '' chunk)) = chunk"
    "\<forall>ch \<in> set (py_join '' '' chunk). \<not> is_line_end ch"
proof -
  have split: "py_split (py_join '' '' chunk) = chunk"
    using c(2) WORDLIST_nth(4) by (intro py_split_join) auto
  have low: "map py_lower chunk = chunk"
    using c(2) WORDLIST_nth(3) by (intro map_idI) auto
  show "map py_lower (py_split (py_join '' '' chunk)) = chunk" using split low by simp
  have "WORD_TO_INDEX (py_lower w) \<noteq> None" if w: "w \<in> set chunk" for w
  proof -
    obtain i where i: "i < 1024" "w = WORDLIST ! i" using c(2) w by blast
    then have "py_lower w = WORDLIST ! i" using WORDLIST_nth(3) [OF i(1)] by simp
    then have "WORD_TO_INDEX (py_lower w) = Some i" using i(1) WORD_TO_INDEX_iff by metis
    then show ?thesis by simp
  qed
  then show "is_mnemonic_line (py_join '' '' chunk)"
    unfolding is_mnemonic_line_def split using c(1) by (simp add: list_all_iff)
  have "set (py_join '' '' ws) \<subseteq> {CHR '' ''} \<union> \<Union> (set ` set ws)" for ws
    by (induction "'' ''" ws rule: py_join.induct) auto
  moreover have "\<not> is_line_end CHR '' ''" by (simp add: is_line_end_def code_def)
  moreover have "\<not> is_line_end ch" if w: "w \<in> set chunk" "ch \<in> set w" for w ch
  proof -
    obtain i where i: "i < 1024" "w = WORDLIST ! i" using c(2) w(1) by blast
    show ?thesis using word_not_line_end [OF i(1)] w(2) unfolding i(2) by blast
  qed
  ultimately show "\<forall>ch \<in> set (py_join '' '' chunk). \<not> is_line_end ch" by blast
qed

lemma words_Inr: "words s = Inr (map (\<lambda>i. WORDLIST ! i) (share_indices s))"
proof -
  have "\<forall>i \<in> set (share_indices s). i < 1024"
    by (auto simp: share_indices_def dest: share_data_bound rs1024_create_less)
  then show ?thesis by (simp add: words_def Let_def words_from_indices_Inr flip: share_indices_def)
qed

lemma length_share_indices:
  assumes "encodable s" shows "20 \<le> length (share_indices s)"
proof -
  have "16 \<le> length (sh_value s)" using assms by (simp add: encodable_def)
  then have "13 \<le> bits_to_words (length (sh_value s) * 8)" by (simp add: bits_to_words_def RADIX_BITS_def)
  then show ?thesis by (simp add: share_indices_def length_share_data)
qed

lemma not_mnemonic_line_short:
  assumes "\<exists>tok \<in> set (py_split line). length tok < 4" shows "\<not> is_mnemonic_line line"
proof
  assume m: "is_mnemonic_line line"
  from assms obtain tok where tok: "tok \<in> set (py_split line)" "length tok < 4" by blast
  from m tok(1) obtain i where "WORD_TO_INDEX (py_lower tok) = Some i"
    by (auto simp: is_mnemonic_line_def Let_def list_all_iff split: if_splits)
  then have "i < 1024" "WORDLIST ! i = py_lower tok" by (simp_all add: WORD_TO_INDEX_iff)
  then show False using WORDLIST_nth(1) [of i] tok(2) by (simp add: py_lower_def)
qed

lemma extract_card_lines:
  assumes s: "encodable s" "words s = Inr ws"
    and body: "concat rows = ws" "[] \<notin> set rows"
    and prose: "\<forall>l \<in> set (pre @ post). \<not> is_mnemonic_line l \<and> (\<forall>c \<in> set l. \<not> is_line_end c)"
  shows "extract_mnemonic (unlines (pre @ map (py_join '' '') rows @ post)) = mnemonic s"
proof -
  let ?ls = "pre @ map (py_join '' '') rows @ post"
  have ws: "ws = map (\<lambda>i. WORDLIST ! i) (share_indices s)" using s(2) words_Inr by simp
  have small: "\<forall>i \<in> set (share_indices s). i < 1024"
    by (auto simp: share_indices_def dest: share_data_bound rs1024_create_less)
  have ch: "c \<noteq> [] \<and> (\<forall>w \<in> set c. \<exists>i < 1024. w = WORDLIST ! i)" if "c \<in> set rows" for c
  proof -
    have "set c \<subseteq> set ws" using that body(1) by auto
    then have "\<forall>w \<in> set c. \<exists>i < 1024. w = WORDLIST ! i" using ws small by auto
    moreover have "c \<noteq> []" using that body(2) by metis
    ultimately show ?thesis by blast
  qed
  have lines: "py_splitlines (unlines ?ls) = ?ls"
  proof (rule splitlines_unlines, intro ballI)
    fix l c assume l: "l \<in> set ?ls" and c: "c \<in> set l"
    show "\<not> is_line_end c"
    proof (cases "l \<in> set (pre @ post)")
      case True
      then show ?thesis using prose c by blast
    next
      case False
      then obtain x where x: "x \<in> set rows" "l = py_join '' '' x" using l by auto
      show ?thesis using chunk_line(3) [of x] ch [OF x(1)] c x(2) by blast
    qed
  qed
  have "filter is_mnemonic_line ?ls = map (py_join '' '') rows"
    using prose chunk_line(1) ch by (auto simp: filter_empty_conv intro!: filter_True)
  moreover have "map (\<lambda>c. map py_lower (py_split (py_join '' '' c))) rows = rows"
    using chunk_line(2) ch by (intro map_idI) auto
  ultimately have "concat (map (\<lambda>l. map py_lower (py_split l)) (filter is_mnemonic_line ?ls)) = ws"
    using body(1) by (simp add: comp_def)
  then have "foldl (\<lambda>words line. if is_mnemonic_line line then words @ map py_lower (py_split line) else words)
      [] ?ls = ws" by (simp add: foldl_append_if)
  moreover have "20 \<le> length ws" using length_share_indices [OF s(1)] ws by simp
  ultimately show ?thesis
    using ws by (simp add: extract_mnemonic_def lines MIN_WORDS_def mnemonic_Inr)
qed

lemma extract_single_line:
  assumes s: "encodable s" "mnemonic s = Inr m"
  shows "extract_mnemonic (unlines [m]) = Inr m"
proof -
  obtain ws where ws: "words s = Inr ws" "py_join '' '' ws = m"
    using s(2) by (auto simp: mnemonic_def rbind_eq_Inr)
  have "ws \<noteq> []" using ws(1) words_Inr [of s] length_share_indices [OF s(1)] by auto
  then show ?thesis using extract_card_lines [OF s(1) ws(1), of "[ws]" "[]" "[]"] ws(2) s(2) by simp
qed

text \<open>The mnemonic of a share is found again on a printed card: the card may hold any lines of
  prose before and after, and its words may be wrapped over any number of lines.\<close>

theorem extract_card:
  assumes "encodable s" "words s = Inr ws"
    and "concat rows = ws" "[] \<notin> set rows"
    and "\<forall>l \<in> set (pre @ post). \<not> is_mnemonic_line l \<and> (\<forall>c \<in> set l. \<not> is_line_end c)"
  shows "extract_mnemonic (unlines (pre @ map (py_join '' '') rows @ post)) = mnemonic s"
  using assms by (rule extract_card_lines)

definition example_share :: share where
  "example_share = \<lparr>sh_identifier = 7945, sh_extendable = True, sh_iteration_exponent = 1,
     sh_group_index = 0, sh_group_threshold = 1, sh_group_count = 1, sh_member_index = 2,
     sh_member_threshold = 2, sh_value = replicate 16 42\<rparr>"

theorem extract_card_witness:
  "extract_mnemonic (unlines ([''Share 3 of 3''] @ map (py_join '' '') [projr (words example_share)] @ [''-'']))
     = mnemonic example_share"
proof -
  have e: "encodable example_share" by (simp add: example_share_def encodable_def)
  have ne: "share_indices example_share \<noteq> []" using length_share_indices [OF e] by auto
  have "''3'' \<in> set (py_split ''Share 3 of 3'')" "''-'' \<in> set (py_split ''-'')"
    by (simp_all add: py_split_def is_space_def code_def)
  then have "\<not> is_mnemonic_line ''Share 3 of 3''" "\<not> is_mnemonic_line ''-''"
    by (auto intro!: not_mnemonic_line_short bexI)
  moreover have "\<forall>c \<in> set ''Share 3 of 3''. \<not> is_line_end c" "\<forall>c \<in> set ''-''. \<not> is_line_end c"
    by (simp_all add: is_line_end_def code_def)
  ultimately show ?thesis
    using ne by (intro extract_card [OF e, where ws = "projr (words example_share)"])
      (auto simp: words_Inr)
qed

end
