(* ===== verification/Keyshare_Theorems.thy ===== *)
theory Keyshare_Theorems
  imports Keyshare_Files
begin

unbundle bit_operations_syntax

text \<open>
  The properties of the layers of the \<open>keyshare\<close> package one by one: word resolution, checksum,
  interpolation, passphrase encryption, share format, framing; and the path of a password
  through all of them.
\<close>

text \<open>C4. The text of a share and the share determine each other: a text parses to \<open>s\<close> exactly when
  \<open>s\<close> is a share within the bounds of the format and the text resolves to the same words as the
  mnemonic of \<open>s\<close>.\<close>

theorem from_mnemonic_iff:
  "from_mnemonic t = Inr s \<longleftrightarrow>
     encodable s \<and> (\<exists>c. mnemonic s = Inr c \<and> mnemonic_to_indices t = mnemonic_to_indices c)"
proof
  assume t: "from_mnemonic t = Inr s"
  then show "encodable s \<and> (\<exists>c. mnemonic s = Inr c \<and> mnemonic_to_indices t = mnemonic_to_indices c)"
    using from_mnemonic_sound [OF t] mnemonic_Inr [of s] mnemonic_indices [of s] by auto
next
  assume "encodable s \<and> (\<exists>c. mnemonic s = Inr c \<and> mnemonic_to_indices t = mnemonic_to_indices c)"
  then show "from_mnemonic t = Inr s"
    using mnemonic_indices [of s] parse_share_indices [of s t] by (auto simp: from_mnemonic_def)
qed

text \<open>C5. The checksum detects every corruption of up to three consecutive words: if a word sequence
  verifies, no different one of the same length that differs in a window of three words does.\<close>

theorem rs1024_detects_three_words:
  assumes "\<forall>w \<in> set ws. w < 1024" "length ws \<le> 3" "\<forall>v \<in> set vs. v < 1024"
    and "length vs = length ws" "vs \<noteq> ws" "rs1024_verify_checksum (pre @ ws @ post) cs"
  shows "\<not> rs1024_verify_checksum (pre @ vs @ post) cs"
  using assms by (rule rs1024_detects_block)

theorem rs1024_detects_three_words_witness:
  "\<not> rs1024_verify_checksum ([5] @ [9, 7] @ rs1024_create_checksum [5, 7, 9] []) []"
  using rs1024_detects_three_words
    [of "[7, 9]" "[9, 7]" "[5]" "rs1024_create_checksum [5, 7, 9] []" "[]"]
    rs1024_create_verifies [of "[5, 7, 9]" "[]"] by simp

text \<open>A typed token resolves to a word exactly when it has at least four letters and begins
  that word, in any case of letters; such a word is unique.\<close>

theorem word_index_spec:
  "word_index token = Inr i \<longleftrightarrow>
     i < length WORDLIST \<and> 4 \<le> length token \<and> starts_with (WORDLIST ! i) (py_lower token)"
  by (simp add: word_index_iff)

text \<open>C6. \<open>_interpolate\<close> on the logarithm tables evaluates, for every byte position, the Lagrange
  polynomial through the shares over the field GF(256).\<close>

theorem interpolate_spec:
  assumes "distinct (map rs_x shares)" "shares \<noteq> []" "\<forall>s \<in> set shares. length (rs_data s) = L"
  shows "interpolate shares x =
    Inr (map (\<lambda>k. byte_of_gf (lagrange
      (map (\<lambda>s. (gf_of_byte (rs_x s), gf_of_byte (rs_data s ! k))) shares) (gf_of_byte x))) [0..<L])"
  using interpolate_lagrange [OF assms] by (simp add: byte_points_def)

theorem interpolate_spec_witness:
  "interpolate [\<lparr>rs_x = 0, rs_data = [1, 2]\<rparr>, \<lparr>rs_x = 3, rs_data = [9, 200]\<rparr>] 255 =
    Inr (map (\<lambda>k. byte_of_gf (lagrange
      (map (\<lambda>s. (gf_of_byte (rs_x s), gf_of_byte (rs_data s ! k)))
        [\<lparr>rs_x = 0, rs_data = [1, 2]\<rparr>, \<lparr>rs_x = 3, rs_data = [9, 200]\<rparr>]) (gf_of_byte 255))) [0..<2])"
  by (rule interpolate_spec) simp_all

text \<open>Decryption with the same passphrase and parameters undoes encryption, for every secret of
  even length, and both always return.\<close>

theorem passphrase_roundtrip:
  assumes "ms \<noteq> []" "even (length ms)" "0 \<le> e" "0 \<le> ident" "ident < 2 ^ 15"
  shows "\<exists>c. encrypt ms p e ident ext = Inr c \<and> length c = length ms \<and> decrypt c p e ident ext = Inr ms"
  using assms by (intro encrypt_decrypt) simp_all

theorem passphrase_roundtrip_witness:
  "\<exists>c. encrypt [1, 2] [65] 0 7 False = Inr c \<and> length c = 2 \<and> decrypt c [65] 0 7 False = Inr [1, 2]"
  using passphrase_roundtrip [of "[1, 2]" 0 7 "[65]" False] by (simp add: numeral_2_eq_2)

text \<open>Framing a password of at most 65535 bytes gives a valid master secret (at least 16 bytes,
  even), from which the password is read back exactly; a longer one is refused.\<close>

theorem codec_roundtrip:
  "if length pw \<le> 65535
   then \<exists>ms. encode_master_secret pw = Inr ms \<and> check_master_secret ms = Inr () \<and>
          decode_master_secret ms = Inr pw
   else encode_master_secret pw = Inl (Password_too_long (length pw))"
proof (cases "length pw \<le> 65535")
  case True
  then obtain ms where "encode_master_secret pw = Inr ms" "16 \<le> length ms" "even (length ms)"
    "decode_master_secret ms = Inr pw" using encode_master_secret_Inr by blast
  moreover from this have "check_master_secret ms = Inr ()"
    by (simp add: check_master_secret_def MIN_STRENGTH_BITS_def raise_if_def)
  ultimately show ?thesis using True by auto
qed (simp add: encode_master_secret_def MAX_PASSWORD_LEN_def)

text \<open>A share that parses passes the single-share check, so the diagnosis never condemns a
  good share; and the check names the first token that is not a share word.\<close>

theorem check_share_spec:
  "case check_share t of
     None \<Rightarrow> \<exists>is. mnemonic_to_indices t = Inr is \<and> 20 \<le> length is
   | Some d \<Rightarrow> (\<exists>e. from_mnemonic t = Inl e) \<and>
       (case d of
          Not_a_share_word n w \<Rightarrow>
            1 \<le> n \<and> n \<le> length (py_split t) \<and> w = py_lower (py_split t ! (n - 1)) \<and>
            (\<exists>e. word_index (py_split t ! (n - 1)) = Inl e)
        | Too_few_words n \<Rightarrow> n = length (py_split t) \<and> n < 20
        | Checksum_failed \<Rightarrow> 20 \<le> length (py_split t))"
proof (cases "check_share t")
  case None
  then show ?thesis using check_share_None [of t] by auto
next
  case (Some d)
  have "\<exists>e. from_mnemonic t = Inl e"
    using from_mnemonic_check_share [of t] Some by (metis option.distinct(1) sum.exhaust)
  moreover have first: "resolve_tokens k ts = Inl (Not_a_share_word n w) \<Longrightarrow>
      k \<le> n \<and> n < k + length ts \<and> w = py_lower (ts ! (n - k)) \<and> (\<exists>e. word_index (ts ! (n - k)) = Inl e)"
    for k ts n w
  proof (induction ts arbitrary: k)
    case (Cons tok ts)
    show ?case
    proof (cases "word_index tok")
      case (Inl e)
      then show ?thesis using Cons.prems by auto
    next
      case (Inr i)
      then have "resolve_tokens (Suc k) ts = Inl (Not_a_share_word n w)"
        using Cons.prems by (cases "resolve_tokens (Suc k) ts") auto
      from Cons.IH [OF this] have "Suc k \<le> n" "n < Suc k + length ts"
        "w = py_lower (ts ! (n - Suc k))" "\<exists>e. word_index (ts ! (n - Suc k)) = Inl e" by auto
      moreover from this have "(tok # ts) ! (n - k) = ts ! (n - Suc k)" by (simp add: nth_Cons')
      ultimately show ?thesis by simp
    qed
  qed simp
  have len: "resolve_tokens k ts = Inr is \<Longrightarrow> length is = length ts" for k ts "is"
    using rmap_length resolve_tokens_Inr by metis
  have "case d of
      Not_a_share_word n w \<Rightarrow> resolve_tokens 1 (py_split t) = Inl (Not_a_share_word n w)
    | Too_few_words n \<Rightarrow> n = length (py_split t) \<and> n < 20
    | Checksum_failed \<Rightarrow> 20 \<le> length (py_split t)"
  proof (cases "resolve_tokens 1 (py_split t)")
    case (Inl d')
    have "\<exists>n w. d' = Not_a_share_word n w" if "resolve_tokens k ts = Inl d'" for k ts
      using that by (induction k ts rule: resolve_tokens.induct)
        (auto simp: rbind_def split: sum.splits)
    from this [OF Inl] obtain n w where "d' = Not_a_share_word n w" by blast
    with Inl Some show ?thesis by (auto simp: check_share_def)
  next
    case (Inr js)
    with len [OF Inr] Some show ?thesis
      by (auto simp: check_share_def Let_def not_less split: if_splits)
  qed
  ultimately show ?thesis using Some first [of 1 "py_split t"]
    by (fastforce split: share_diagnosis.splits)
qed



end
