(* ===== verification/Catalog_Db.thy ===== *)
theory Catalog_Db
  imports Lcsas_Prelude Py_Text "HOL-Library.List_Lexorder" "HOL-Library.Char_ord"
    "HOL-Library.Product_Lexorder"
begin

text \<open>
  The catalog: the rows of \<open>db/models.py\<close>, the tables and constraints of \<open>db/schema.py\<close>, and
  the SQLite connection the CRUD modules work on.

  A connection holds the catalog as the program sees it (\<open>db\<close>) and as it is on disk
  (\<open>durable\<close>). A data-changing statement opens a transaction when none is open, as Python's
  sqlite3 module does; \<open>commit\<close>, \<open>rollback\<close> and the three savepoint statements behave as SQLite
  documents them. A statement whose result would violate a constraint of the schema raises
  IntegrityError and changes nothing. The clock of the database and of Python are fields of the
  connection, since the code reads the time through them.
\<close>

section \<open>Rows\<close>

record volume =
  v_id :: int
  v_label :: string
  v_uuid :: string
  v_media_type :: string
  v_capacity_bytes :: int
  v_used_bytes :: int
  v_location :: string
  v_status :: string
  v_created_at :: string
  v_closed_at :: "string option"
  v_verified_at :: "string option"

record pack =
  p_id :: int
  p_sha256 :: string
  p_size_bytes :: int
  p_repo_id :: string
  p_is_pruned :: bool
  p_created_at :: string

record repository =
  r_id :: string
  r_name :: string
  r_mirror_path :: string
  r_encryption_key_id :: string
  r_created_at :: string
  r_status :: string

record snapshot =
  sn_id :: string
  sn_repo_id :: string
  sn_hostname :: string
  sn_timestamp :: string
  sn_paths :: string
  sn_tags :: string
  sn_description :: string

record location =
  l_name :: string
  l_created_at :: string
  l_description :: string

record volume_copy =
  vc_id :: int
  vc_volume_id :: int
  vc_location :: string
  vc_status :: string
  vc_burn_date :: string
  vc_notes :: string
  vc_iso_sha256 :: "string option"
  vc_last_verified_at :: "string option"
  vc_media_serial :: string
  vc_iso_size_bytes :: "int option"

record burn_session =
  s_id :: string
  s_created_at :: string
  s_media_type :: string
  s_status :: string
  s_staging_dir :: string

record session_volume =
  sv_session_id :: string
  sv_volume_id :: int
  sv_iso_path :: string
  sv_iso_sha256 :: "string option"
  sv_iso_size_bytes :: "int option"

record volume_event =
  e_id :: int
  e_volume_id :: int
  e_type :: string
  e_date :: string
  e_location :: "string option"
  e_detail :: string

record key_escrow =
  k_repo_id :: string
  k_threshold :: int
  k_shares :: int
  k_slip39_id :: int
  k_split_at :: string

section \<open>Tables\<close>

text \<open>The rows of each table in row order, and for the AUTOINCREMENT tables the largest id ever
  given. The table \<open>key_escrow\<close> may be absent (catalogs before schema version 9).\<close>

record catalog =
  volumes :: "volume list"
  packs :: "pack list"
  repositories :: "repository list"
  volume_packs :: "(int \<times> int) list"
  snapshots :: "snapshot list"
  locations :: "location list"
  volume_copies :: "volume_copy list"
  burn_sessions :: "burn_session list"
  session_volumes :: "session_volume list"
  volume_events :: "volume_event list"
  key_escrows :: "key_escrow list option"
  seq_volumes :: int
  seq_packs :: int
  seq_copies :: int
  seq_events :: int

definition VOLUME_STATUSES :: "string list" where
  "VOLUME_STATUSES = [''STAGING'', ''BURNING'', ''BURNED'', ''VERIFIED'', ''CONSOLIDATING'',
     ''DEPRECATED'', ''DESTROYED'']"

definition COPY_STATUSES :: "string list" where
  "COPY_STATUSES = [''ACTIVE'', ''DEPRECATED'', ''DESTROYED'']"

definition SESSION_STATUSES :: "string list" where
  "SESSION_STATUSES = [''STAGED'', ''PARTIAL'', ''COMPLETE'', ''CLEANED'']"

definition EVENT_TYPES :: "string list" where
  "EVENT_TYPES = [''VERIFY_PASS'', ''VERIFY_FAIL'', ''VERIFY_FAIL_REBURN'', ''ECC_REPAIR'',
     ''LOCATION_MOVE'', ''CONDITION_CHECK'', ''NOTE'', ''BURN_RECEIPT_IMPORTED'']"

text \<open>The constraints of the CREATE TABLE statements: primary keys and UNIQUE, CHECK, and foreign
  keys; and that AUTOINCREMENT ids stay below their sequence.\<close>

definition volumes_ok :: "catalog \<Rightarrow> bool" where
  "volumes_ok c \<longleftrightarrow> distinct (map v_id (volumes c)) \<and> distinct (map v_label (volumes c)) \<and>
     distinct (map v_uuid (volumes c)) \<and>
     list_all (\<lambda>v. v_status v \<in> set VOLUME_STATUSES \<and> v_id v \<le> seq_volumes c) (volumes c)"

definition packs_ok :: "catalog \<Rightarrow> bool" where
  "packs_ok c \<longleftrightarrow> distinct (map p_id (packs c)) \<and> distinct (map p_sha256 (packs c)) \<and>
     list_all (\<lambda>p. p_repo_id p \<in> r_id ` set (repositories c) \<and> p_id p \<le> seq_packs c) (packs c)"

definition volume_packs_ok :: "catalog \<Rightarrow> bool" where
  "volume_packs_ok c \<longleftrightarrow> distinct (volume_packs c) \<and>
     list_all (\<lambda>(v, p). v \<in> v_id ` set (volumes c) \<and> p \<in> p_id ` set (packs c)) (volume_packs c)"

definition names_ok :: "catalog \<Rightarrow> bool" where
  "names_ok c \<longleftrightarrow> distinct (map r_id (repositories c)) \<and> distinct (map l_name (locations c)) \<and>
     distinct (map sn_id (snapshots c)) \<and>
     list_all (\<lambda>s. sn_repo_id s \<in> r_id ` set (repositories c)) (snapshots c) \<and>
     (case key_escrows c of None \<Rightarrow> True | Some ks \<Rightarrow> distinct (map k_repo_id ks))"

definition copies_ok :: "catalog \<Rightarrow> bool" where
  "copies_ok c \<longleftrightarrow> distinct (map vc_id (volume_copies c)) \<and>
     distinct (map (\<lambda>d. (vc_volume_id d, vc_location d)) (volume_copies c)) \<and>
     list_all (\<lambda>d. vc_status d \<in> set COPY_STATUSES \<and> vc_id d \<le> seq_copies c \<and>
       vc_volume_id d \<in> v_id ` set (volumes c) \<and> vc_location d \<in> l_name ` set (locations c))
       (volume_copies c)"

definition sessions_ok :: "catalog \<Rightarrow> bool" where
  "sessions_ok c \<longleftrightarrow> distinct (map s_id (burn_sessions c)) \<and>
     list_all (\<lambda>s. s_status s \<in> set SESSION_STATUSES) (burn_sessions c) \<and>
     distinct (map (\<lambda>x. (sv_session_id x, sv_volume_id x)) (session_volumes c)) \<and>
     list_all (\<lambda>x. sv_session_id x \<in> s_id ` set (burn_sessions c) \<and>
       sv_volume_id x \<in> v_id ` set (volumes c)) (session_volumes c)"

definition events_ok :: "catalog \<Rightarrow> bool" where
  "events_ok c \<longleftrightarrow> distinct (map e_id (volume_events c)) \<and>
     list_all (\<lambda>e. e_type e \<in> set EVENT_TYPES \<and> e_id e \<le> seq_events c \<and>
       e_volume_id e \<in> v_id ` set (volumes c) \<and>
       (case e_location e of None \<Rightarrow> True | Some l \<Rightarrow> l \<in> l_name ` set (locations c)))
       (volume_events c)"

definition schema_ok :: "catalog \<Rightarrow> bool" where
  "schema_ok c \<longleftrightarrow> volumes_ok c \<and> packs_ok c \<and> volume_packs_ok c \<and> names_ok c \<and> copies_ok c \<and>
     sessions_ok c \<and> events_ok c"

definition empty_catalog :: catalog where
  "empty_catalog = \<lparr>volumes = [], packs = [], repositories = [], volume_packs = [], snapshots = [],
     locations = [], volume_copies = [], burn_sessions = [], session_volumes = [],
     volume_events = [], key_escrows = Some [], seq_volumes = 0, seq_packs = 0, seq_copies = 0,
     seq_events = 0\<rparr>"

section \<open>Connections\<close>

record connection =
  db :: catalog
  durable :: catalog
  in_tx :: bool
  tx_by_savepoint :: bool
  savepoints :: "(string \<times> catalog) list"
  now_iso :: string
  now_sql :: string
  sql_hours_ago :: "int \<Rightarrow> string"
  iso_days_ago :: "int \<Rightarrow> string"

datatype db_error =
    Integrity_error
  | Operational_error
  | Volume_not_found int
  | Invalid_transition int string string
  | Deprecation_unsafe int nat
  | Invalid_event_type string
  | Event_not_found int
  | Copy_not_found int
  | Copy_not_recorded int string
  | Copy_already_at int string
  | No_active_copy int string
  | No_copy int string
  | Pack_not_found int
  | Pack_vanished string
  | Session_not_found string
  | No_sessions
  | Repo_not_found string
  | Repo_name_ambiguous string "string list"
  | Invalid_repo_status string
  | Repo_has_packs string nat
  | Location_not_found string
  | Unknown_location string "string list"
  | Location_referenced string nat nat
  | Location_exists string
  | Assertion_failed
  | Key_missing

type_synonym 'a dbop = "connection \<Rightarrow> (db_error, 'a) result \<times> connection"

definition op_ret :: "'a \<Rightarrow> 'a dbop" where
  "op_ret a c = (Inr a, c)"

definition op_raise :: "db_error \<Rightarrow> 'a dbop" where
  "op_raise e c = (Inl e, c)"

definition op_bind :: "'a dbop \<Rightarrow> ('a \<Rightarrow> 'b dbop) \<Rightarrow> 'b dbop" where
  "op_bind m f c = (case m c of (Inl e, c') \<Rightarrow> (Inl e, c') | (Inr a, c') \<Rightarrow> f a c')"

text \<open>A query reads the catalog (and the clock).\<close>

definition op_query :: "(catalog \<Rightarrow> 'a) \<Rightarrow> 'a dbop" where
  "op_query q c = (Inr (q (db c)), c)"

definition op_clock :: "(connection \<Rightarrow> 'a) \<Rightarrow> 'a dbop" where
  "op_clock q c = (Inr (q c), c)"

text \<open>A data-changing statement: it opens a transaction if none is open, and is refused as a whole
  when a constraint would be violated.\<close>

definition op_dml :: "(catalog \<Rightarrow> 'a \<times> catalog) \<Rightarrow> 'a dbop" where
  "op_dml f c =
     (let (a, d) = f (db c); c' = c\<lparr>in_tx := True\<rparr>
      in if schema_ok d then (Inr a, c'\<lparr>db := d\<rparr>) else (Inl Integrity_error, c'))"

definition op_commit :: "unit dbop" where
  "op_commit c = (Inr (), c\<lparr>durable := db c, in_tx := False, tx_by_savepoint := False, savepoints := []\<rparr>)"

definition op_commit_if :: "bool \<Rightarrow> unit dbop" where
  "op_commit_if b = (if b then op_commit else op_ret ())"

definition op_rollback :: "unit dbop" where
  "op_rollback c = (Inr (), c\<lparr>db := durable c, in_tx := False, tx_by_savepoint := False, savepoints := []\<rparr>)"

text \<open>\<open>SAVEPOINT\<close> outside a transaction starts one; \<open>RELEASE\<close> of the savepoint that started the
  transaction commits it; \<open>ROLLBACK TO\<close> keeps the savepoint.\<close>

definition op_savepoint :: "string \<Rightarrow> unit dbop" where
  "op_savepoint n c =
     (Inr (), c\<lparr>savepoints := (n, db c) # savepoints c,
                in_tx := True,
                tx_by_savepoint := (if in_tx c then tx_by_savepoint c else True)\<rparr>)"

definition op_release :: "string \<Rightarrow> unit dbop" where
  "op_release n c =
     (case dropWhile (\<lambda>(m, _). m \<noteq> n) (savepoints c) of
        [] \<Rightarrow> (Inl Operational_error, c)
      | _ # rest \<Rightarrow>
          if rest = [] \<and> tx_by_savepoint c then op_commit c
          else (Inr (), c\<lparr>savepoints := rest\<rparr>))"

definition op_rollback_to :: "string \<Rightarrow> unit dbop" where
  "op_rollback_to n c =
     (case dropWhile (\<lambda>(m, _). m \<noteq> n) (savepoints c) of
        [] \<Rightarrow> (Inl Operational_error, c)
      | (m, d) # rest \<Rightarrow> (Inr (), c\<lparr>db := d, savepoints := (m, d) # rest\<rparr>))"

text \<open>\<open>try: ... except Exception: handler; raise\<close>.\<close>

definition op_on_error :: "'a dbop \<Rightarrow> unit dbop \<Rightarrow> 'a dbop" where
  "op_on_error m handler c =
     (case m c of (Inr a, c') \<Rightarrow> (Inr a, c') | (Inl e, c') \<Rightarrow> (Inl e, snd (handler c')))"

definition op_raise_if :: "bool \<Rightarrow> db_error \<Rightarrow> unit dbop" where
  "op_raise_if b e = (if b then op_raise e else op_ret ())"

text \<open>A loop over a list.\<close>

fun op_for :: "'a list \<Rightarrow> ('a \<Rightarrow> unit dbop) \<Rightarrow> unit dbop" where
  "op_for [] f = op_ret ()"
| "op_for (x # xs) f = op_bind (f x) (\<lambda>_. op_for xs f)"

section \<open>SQL fragments\<close>

text \<open>\<open>UPDATE t SET f WHERE P\<close>: the new rows and the row count.\<close>

definition sql_update :: "('r \<Rightarrow> bool) \<Rightarrow> ('r \<Rightarrow> 'r) \<Rightarrow> 'r list \<Rightarrow> 'r list" where
  "sql_update P f rows = map (\<lambda>r. if P r then f r else r) rows"

definition sql_count :: "('r \<Rightarrow> bool) \<Rightarrow> 'r list \<Rightarrow> nat" where
  "sql_count P rows = length (filter P rows)"

text \<open>\<open>ORDER BY k DESC\<close>, ties in row order.\<close>

definition sort_desc_key :: "('r \<Rightarrow> 'k :: linorder) \<Rightarrow> 'r list \<Rightarrow> 'r list" where
  "sort_desc_key k rows = rev (sort_key k (rev rows))"

section \<open>The statement calculus\<close>

named_theorems op_simps \<open>evaluation of database operations\<close>

lemma op_bind_simps [op_simps]:
  "op_bind (op_ret a) f c = f a c" "op_bind (op_raise e) f c = (Inl e, c)"
  "op_bind (op_query q) f c = f (q (db c)) c" "op_bind (op_clock g) f c = f (g c) c"
  by (simp_all add: op_bind_def op_ret_def op_raise_def op_query_def op_clock_def)

lemma op_bind_assoc: "op_bind (op_bind m f) g c = op_bind m (\<lambda>a. op_bind (f a) g) c"
  by (simp add: op_bind_def split: prod.splits sum.splits)

lemma op_bind_Inr:
  "op_bind m f c = (Inr b, c'') \<longleftrightarrow> (\<exists>a c'. m c = (Inr a, c') \<and> f a c' = (Inr b, c''))"
  by (auto simp: op_bind_def split: prod.splits sum.splits)

lemma op_bind_Inl:
  "op_bind m f c = (Inl e, c'') \<longleftrightarrow>
     m c = (Inl e, c'') \<or> (\<exists>a c'. m c = (Inr a, c') \<and> f a c' = (Inl e, c''))"
  by (auto simp: op_bind_def split: prod.splits sum.splits)

lemma op_dml_Inr:
  "op_dml f c = (Inr a, c') \<longleftrightarrow>
     (\<exists>d. f (db c) = (a, d) \<and> schema_ok d \<and> c' = c\<lparr>in_tx := True, db := d\<rparr>)"
  by (auto simp: op_dml_def Let_def split: prod.splits)

lemma op_dml_Inl:
  "op_dml f c = (Inl e, c') \<longleftrightarrow>
     \<not> schema_ok (snd (f (db c))) \<and> e = Integrity_error \<and> c' = c\<lparr>in_tx := True\<rparr>"
  by (auto simp: op_dml_def Let_def split: prod.splits)

lemma op_raise_if_simps [op_simps]:
  "op_raise_if True e = op_raise e" "op_raise_if False e = op_ret ()"
  "op_commit_if True = op_commit" "op_commit_if False = op_ret ()"
  by (simp_all add: op_raise_if_def op_commit_if_def)

lemma set_sort_desc_key [simp]: "set (sort_desc_key k rows) = set rows"
  by (simp add: sort_desc_key_def)

lemma sorted_sort_desc_key: "sorted_wrt (\<lambda>a b. k a \<ge> k b) (sort_desc_key k rows)"
  using sorted_sort_key [of k "rev rows"]
  by (simp add: sort_desc_key_def sorted_wrt_rev sorted_map)

lemma map_sql_update:
  assumes "\<And>r. g (f r) = g r" shows "map g (sql_update P f rows) = map g rows"
  using assms by (simp add: sql_update_def)

end
