(* ===== verification/Catalog_Order.thy ===== *)
theory Catalog_Order
  imports Catalog_Db
begin

text \<open>
  Preservation over database operations. \<open>catalog_order\<close> is the interface of a relation between an
  earlier and a later catalog: reflexive and transitive on catalogs that meet the schema. Its
  lemmas carry the relation through every statement of the calculus, rollbacks and savepoints
  included, so that an operation only has to be checked at its data-changing statements.
\<close>

definition catalogs_of :: "connection \<Rightarrow> catalog set" where
  "catalogs_of c = {db c, durable c} \<union> snd ` set (savepoints c)"

text \<open>Outside a transaction the program sees what is on disk.\<close>

definition conn_ok :: "connection \<Rightarrow> bool" where
  "conn_ok c \<longleftrightarrow> (\<forall>d\<in>catalogs_of c. schema_ok d) \<and>
     (\<not> in_tx c \<longrightarrow> db c = durable c \<and> savepoints c = [])"

locale catalog_order =
  fixes R :: "catalog \<Rightarrow> catalog \<Rightarrow> bool"
  assumes order_refl: "R d d"
    and order_trans: "schema_ok a \<Longrightarrow> schema_ok b \<Longrightarrow> schema_ok c \<Longrightarrow> R a b \<Longrightarrow> R b c \<Longrightarrow> R a c"
begin

definition after :: "catalog \<Rightarrow> connection \<Rightarrow> bool" where
  "after d0 c \<longleftrightarrow> schema_ok d0 \<and> conn_ok c \<and> (\<forall>d\<in>catalogs_of c. R d0 d)"

definition op_keeps :: "'a dbop \<Rightarrow> bool" where
  "op_keeps m \<longleftrightarrow> (\<forall>d0 c. after d0 c \<longrightarrow> after d0 (snd (m c)))"

lemma op_keepsI: "(\<And>d0 c. after d0 c \<Longrightarrow> after d0 (snd (m c))) \<Longrightarrow> op_keeps m"
  by (simp add: op_keeps_def)

lemma op_keepsD: "op_keeps m \<Longrightarrow> after d0 c \<Longrightarrow> after d0 (snd (m c))"
  by (simp add: op_keeps_def)

lemma after_db: "after d0 c \<Longrightarrow> schema_ok (db c) \<and> R d0 (db c)"
  by (simp add: after_def conn_ok_def catalogs_of_def)

lemma keeps_pure:
  "op_keeps (op_ret a)" "op_keeps (op_raise e)" "op_keeps (op_query q)" "op_keeps (op_clock g)"
  "op_keeps (op_raise_if b e)"
  by (simp_all add: op_keeps_def op_ret_def op_raise_def op_query_def op_clock_def op_raise_if_def)

lemma keeps_commit: "op_keeps op_commit" "op_keeps (op_commit_if b)"
  by (auto simp: op_keeps_def op_commit_if_def op_commit_def op_ret_def after_def conn_ok_def catalogs_of_def)

lemma keeps_rollback: "op_keeps op_rollback"
  by (auto simp: op_keeps_def op_rollback_def after_def conn_ok_def catalogs_of_def)

lemma keeps_savepoint: "op_keeps (op_savepoint n)"
  by (auto simp: op_keeps_def op_savepoint_def after_def conn_ok_def catalogs_of_def)

lemma after_fewer: "after d0 c \<Longrightarrow> catalogs_of c' \<subseteq> catalogs_of c \<Longrightarrow> in_tx c' \<Longrightarrow> after d0 c'"
  by (auto simp: after_def conn_ok_def)

lemma dropWhile_savepoints:
  "dropWhile P sps = (n, d) # rest \<Longrightarrow> (n, d) \<in> set sps \<and> set rest \<subseteq> set sps"
  by (metis insert_subset list.simps(15) set_dropWhileD subsetI)

lemma keeps_release: "op_keeps (op_release n)"
proof (rule op_keepsI)
  fix d0 c assume a: "after d0 c"
  show "after d0 (snd (op_release n c))"
  proof (cases "dropWhile (\<lambda>(m, _). m \<noteq> n) (savepoints c)")
    case Nil then show ?thesis using a by (simp add: op_release_def del: dropWhile_eq_Nil_conv)
  next
    case (Cons sp rest)
    obtain m d where sp: "sp = (m, d)" by fastforce
    have "set rest \<subseteq> set (savepoints c)" using dropWhile_savepoints [OF Cons [unfolded sp]] by simp
    moreover have "in_tx c" using a Cons by (auto simp: after_def conn_ok_def)
    ultimately have "after d0 (c\<lparr>savepoints := rest\<rparr>)"
      by (intro after_fewer [OF a]) (auto simp: catalogs_of_def)
    then show ?thesis using op_keepsD [OF keeps_commit(1) a] Cons by (simp add: op_release_def)
  qed
qed

lemma keeps_rollback_to: "op_keeps (op_rollback_to n)"
proof (rule op_keepsI)
  fix d0 c assume a: "after d0 c"
  show "after d0 (snd (op_rollback_to n c))"
  proof (cases "dropWhile (\<lambda>(m, _). m \<noteq> n) (savepoints c)")
    case Nil then show ?thesis using a by (simp add: op_rollback_to_def del: dropWhile_eq_Nil_conv)
  next
    case (Cons sp rest)
    obtain m d where sp: "sp = (m, d)" by fastforce
    have s: "(m, d) \<in> set (savepoints c) \<and> set rest \<subseteq> set (savepoints c)"
      using dropWhile_savepoints [OF Cons [unfolded sp]] .
    moreover have "in_tx c" using a Cons by (auto simp: after_def conn_ok_def)
    ultimately have "after d0 (c\<lparr>db := d, savepoints := (m, d) # rest\<rparr>)"
      by (intro after_fewer [OF a]) (force simp: catalogs_of_def)+
    then show ?thesis using Cons sp by (simp add: op_rollback_to_def)
  qed
qed

lemma after_dml:
  assumes "after d0 c"
    and "schema_ok (db c) \<Longrightarrow> schema_ok (snd (f (db c))) \<Longrightarrow> R (db c) (snd (f (db c)))"
  shows "after d0 (snd (op_dml f c))"
proof (cases "schema_ok (snd (f (db c)))")
  case True
  have "R d0 (snd (f (db c)))"
    using order_trans [of d0 "db c" "snd (f (db c))"] after_db [OF assms(1)] assms True
    by (simp add: after_def)
  then show ?thesis
    using assms(1) True
    by (auto simp: op_dml_def Let_def after_def conn_ok_def catalogs_of_def split: prod.splits)
next
  case False
  then show ?thesis
    using assms(1) by (auto simp: op_dml_def Let_def after_def conn_ok_def catalogs_of_def split: prod.splits)
qed

lemma keeps_dml:
  "(\<And>d. schema_ok d \<Longrightarrow> schema_ok (snd (f d)) \<Longrightarrow> R d (snd (f d))) \<Longrightarrow> op_keeps (op_dml f)"
  by (auto intro: op_keepsI after_dml)

lemma keeps_bind: "op_keeps m \<Longrightarrow> (\<And>a. op_keeps (f a)) \<Longrightarrow> op_keeps (op_bind m f)"
  by (fastforce simp: op_keeps_def op_bind_def split: prod.splits sum.splits)

lemma keeps_on_error: "op_keeps m \<Longrightarrow> op_keeps h \<Longrightarrow> op_keeps (op_on_error m h)"
  by (fastforce simp: op_keeps_def op_on_error_def split: prod.splits sum.splits)

lemma keeps_for: "(\<And>x. op_keeps (f x)) \<Longrightarrow> op_keeps (op_for xs f)"
  by (induction xs) (simp_all add: keeps_pure keeps_bind)

lemma after_bind: "after d0 (snd (m c)) \<Longrightarrow> (\<And>a. op_keeps (f a)) \<Longrightarrow> after d0 (snd (op_bind m f c))"
  by (auto simp: op_keeps_def op_bind_def split: prod.splits sum.splits)

lemma after_on_error: "after d0 (snd (m c)) \<Longrightarrow> op_keeps h \<Longrightarrow> after d0 (snd (op_on_error m h c))"
  by (auto simp: op_keeps_def op_on_error_def split: prod.splits sum.splits)

lemma keeps_query_bind:
  "(\<And>d0 c. after d0 c \<Longrightarrow> after d0 (snd (f (q (db c)) c))) \<Longrightarrow> op_keeps (op_bind (op_query q) f)"
  by (simp add: op_keeps_def op_bind_def op_query_def)

lemma keeps_option: "op_keeps m \<Longrightarrow> (\<And>a. op_keeps (f a)) \<Longrightarrow> op_keeps (case x of None \<Rightarrow> m | Some a \<Rightarrow> f a)"
  by (cases x) simp_all

lemma keeps_if: "op_keeps m \<Longrightarrow> op_keeps m' \<Longrightarrow> op_keeps (if b then m else m')"
  by simp

lemma keeps_prod: "(\<And>a b. op_keeps (f a b)) \<Longrightarrow> op_keeps (case x of (a, b) \<Rightarrow> f a b)"
  by (cases x) simp

lemmas keeps_intros = keeps_pure keeps_commit keeps_rollback keeps_savepoint keeps_release
  keeps_rollback_to keeps_bind keeps_on_error keeps_for keeps_option keeps_if keeps_prod

end

end
