(* ===== verification/Catalog_Names.thy ===== *)
theory Catalog_Names
  imports Catalog_Db
begin

text \<open>
  The tables keyed by name: \<open>db/locations.py\<close>, \<open>db/repos.py\<close>, \<open>db/snapshots.py\<close> and
  \<open>db/volume_events.py\<close>. \<open>difflib.get_close_matches\<close>, which only fills the suggestion list of
  an error, is a parameter.
\<close>

section \<open>locations.py\<close>

definition get_location :: "string \<Rightarrow> location dbop" where
  "get_location name =
     op_bind (op_query (\<lambda>d. find (\<lambda>l. l_name l = name) (locations d))) (\<lambda>row.
     case row of None \<Rightarrow> op_raise (Location_not_found name) | Some l \<Rightarrow> op_ret l)"

definition create_location :: "string \<Rightarrow> string \<Rightarrow> location dbop" where
  "create_location name description =
     op_bind (op_clock now_sql) (\<lambda>now.
     op_bind (op_dml (\<lambda>d. ((), d\<lparr>locations := locations d @
       [\<lparr>l_name = name, l_created_at = now, l_description = description\<rparr>]\<rparr>))) (\<lambda>_.
     op_bind op_commit (\<lambda>_.
     get_location name)))"

definition ensure_location :: "string \<Rightarrow> string \<Rightarrow> bool \<Rightarrow> location dbop" where
  "ensure_location name description commit =
     op_bind (op_clock now_sql) (\<lambda>now.
     op_bind (op_dml (\<lambda>d. ((),
       if name \<in> l_name ` set (locations d) then d
       else d\<lparr>locations := locations d @
         [\<lparr>l_name = name, l_created_at = now, l_description = description\<rparr>]\<rparr>))) (\<lambda>_.
     op_bind (op_commit_if commit) (\<lambda>_.
     get_location name)))"

definition resolve_location ::
  "(string \<Rightarrow> string list \<Rightarrow> string list) \<Rightarrow> string \<Rightarrow> bool \<Rightarrow> string \<Rightarrow> location dbop" where
  "resolve_location close_matches name create description =
     op_bind (op_query (\<lambda>d. find (\<lambda>l. l_name l = name) (locations d))) (\<lambda>row.
     case row of
       Some l \<Rightarrow> op_ret l
     | None \<Rightarrow>
         if create then ensure_location name description True
         else op_bind (op_query (\<lambda>d. sort (map l_name (locations d)))) (\<lambda>existing.
              op_raise (Unknown_location name (close_matches name existing))))"

definition list_locations :: "location list dbop" where
  "list_locations = op_query (\<lambda>d. sort_key l_name (locations d))"

definition location_references :: "string \<Rightarrow> (nat \<times> nat) dbop" where
  "location_references name =
     op_query (\<lambda>d. (sql_count (\<lambda>c. vc_location c = name) (volume_copies d),
                    sql_count (\<lambda>e. e_location e = Some name) (volume_events d)))"

definition delete_location :: "string \<Rightarrow> unit dbop" where
  "delete_location name =
     op_bind (get_location name) (\<lambda>_.
     op_bind (location_references name) (\<lambda>(discs, events).
     op_bind (op_raise_if (discs \<noteq> 0 \<or> events \<noteq> 0) (Location_referenced name discs events)) (\<lambda>_.
     op_bind (op_dml (\<lambda>d. ((), d\<lparr>locations := filter (\<lambda>l. l_name l \<noteq> name) (locations d)\<rparr>))) (\<lambda>_.
     op_commit))))"

text \<open>\<open>rename_location\<close> runs its four statements with the foreign-key check deferred to the commit:
  the constraints are checked on the final state only.\<close>

definition repoint_location :: "string \<Rightarrow> string \<Rightarrow> location \<Rightarrow> catalog \<Rightarrow> nat \<times> catalog" where
  "repoint_location old new loc d =
     (let d1 = d\<lparr>locations := locations d @
            [\<lparr>l_name = new, l_created_at = l_created_at loc, l_description = l_description loc\<rparr>]\<rparr>;
          moved = sql_count (\<lambda>c. vc_location c = old) (volume_copies d1)
                + sql_count (\<lambda>e. e_location e = Some old) (volume_events d1)
                + sql_count (\<lambda>v. v_location v = old) (volumes d1);
          d2 = d1\<lparr>volume_copies := sql_update (\<lambda>c. vc_location c = old)
                     (\<lambda>c. c\<lparr>vc_location := new\<rparr>) (volume_copies d1)\<rparr>;
          d3 = d2\<lparr>volume_events := sql_update (\<lambda>e. e_location e = Some old)
                     (\<lambda>e. e\<lparr>e_location := Some new\<rparr>) (volume_events d2)\<rparr>;
          d4 = d3\<lparr>volumes := sql_update (\<lambda>v. v_location v = old)
                     (\<lambda>v. v\<lparr>v_location := new\<rparr>) (volumes d3)\<rparr>
      in (moved, d4\<lparr>locations := filter (\<lambda>l. l_name l \<noteq> old) (locations d4)\<rparr>))"

definition rename_location :: "string \<Rightarrow> string \<Rightarrow> nat dbop" where
  "rename_location old new =
     op_bind (get_location old) (\<lambda>loc.
     op_bind (op_query (\<lambda>d. find (\<lambda>l. l_name l = new) (locations d))) (\<lambda>row.
     op_bind (op_raise_if (row \<noteq> None) (Location_exists new)) (\<lambda>_.
     op_bind op_commit (\<lambda>_.
     op_on_error
       (op_bind (op_dml (repoint_location old new loc)) (\<lambda>moved.
        op_bind op_commit (\<lambda>_. op_ret moved)))
       op_rollback))))"

section \<open>repos.py\<close>

definition REPO_STATUSES :: "string list" where
  "REPO_STATUSES = [''active'', ''retired'']"

definition get_repo :: "string \<Rightarrow> repository dbop" where
  "get_repo repo_id =
     op_bind (op_query (\<lambda>d. find (\<lambda>r. r_id r = repo_id) (repositories d))) (\<lambda>row.
     case row of None \<Rightarrow> op_raise (Repo_not_found repo_id) | Some r \<Rightarrow> op_ret r)"

definition register_repo :: "string \<Rightarrow> string \<Rightarrow> string \<Rightarrow> string \<Rightarrow> repository dbop" where
  "register_repo repo_id name mirror_path encryption_key_id =
     op_bind (op_clock now_sql) (\<lambda>now.
     op_bind (op_dml (\<lambda>d. ((), d\<lparr>repositories := repositories d @
       [\<lparr>r_id = repo_id, r_name = name, r_mirror_path = mirror_path,
         r_encryption_key_id = encryption_key_id, r_created_at = now, r_status = ''active''\<rparr>]\<rparr>))) (\<lambda>_.
     op_bind op_commit (\<lambda>_.
     get_repo repo_id)))"

definition get_repo_by_name :: "string \<Rightarrow> repository option dbop" where
  "get_repo_by_name name =
     op_bind (op_query (\<lambda>d. sort_key r_id (filter (\<lambda>r. r_name r = name) (repositories d)))) (\<lambda>rows.
     case rows of
       [] \<Rightarrow> op_ret None
     | [r] \<Rightarrow> op_ret (Some r)
     | _ \<Rightarrow> op_raise (Repo_name_ambiguous name (map r_id rows)))"

definition list_repos :: "repository list dbop" where
  "list_repos = op_query (\<lambda>d. sort_key r_name (repositories d))"

definition set_repo_status :: "string \<Rightarrow> string \<Rightarrow> repository dbop" where
  "set_repo_status repo_id status =
     op_bind (op_raise_if (status \<notin> set REPO_STATUSES) (Invalid_repo_status status)) (\<lambda>_.
     op_bind (get_repo repo_id) (\<lambda>_.
     op_bind (op_dml (\<lambda>d. ((), d\<lparr>repositories :=
       sql_update (\<lambda>r. r_id r = repo_id) (\<lambda>r. r\<lparr>r_status := status\<rparr>) (repositories d)\<rparr>))) (\<lambda>_.
     op_bind op_commit (\<lambda>_.
     get_repo repo_id))))"

definition delete_repo :: "string \<Rightarrow> unit dbop" where
  "delete_repo repo_id =
     op_bind (op_query (\<lambda>d. sql_count (\<lambda>p. p_repo_id p = repo_id) (packs d))) (\<lambda>n.
     op_bind (op_raise_if (n > 0) (Repo_has_packs repo_id n)) (\<lambda>_.
     op_bind (op_dml (\<lambda>d. ((), d\<lparr>repositories := filter (\<lambda>r. r_id r \<noteq> repo_id) (repositories d)\<rparr>))) (\<lambda>_.
     op_commit)))"

section \<open>snapshots.py\<close>

text \<open>\<open>INSERT OR REPLACE\<close>: a row with the same key is deleted and the new one added.\<close>

definition replace_snapshot :: "snapshot \<Rightarrow> snapshot list \<Rightarrow> snapshot list" where
  "replace_snapshot s rows = filter (\<lambda>r. sn_id r \<noteq> sn_id s) rows @ [s]"

definition upsert_snapshot :: "snapshot \<Rightarrow> bool \<Rightarrow> snapshot dbop" where
  "upsert_snapshot s commit =
     op_bind (op_dml (\<lambda>d. ((), d\<lparr>snapshots := replace_snapshot s (snapshots d)\<rparr>))) (\<lambda>_.
     op_bind (op_commit_if commit) (\<lambda>_.
     op_ret s))"

definition bulk_upsert_snapshots :: "snapshot list \<Rightarrow> bool \<Rightarrow> nat dbop" where
  "bulk_upsert_snapshots ss commit =
     (if ss = [] then op_ret 0
      else
        op_bind (op_for ss (\<lambda>s.
          op_dml (\<lambda>d. ((), d\<lparr>snapshots := replace_snapshot s (snapshots d)\<rparr>)))) (\<lambda>_.
        op_bind (op_commit_if commit) (\<lambda>_.
        op_ret (length ss))))"

definition list_snapshots :: "string option \<Rightarrow> snapshot list dbop" where
  "list_snapshots repo_id =
     op_query (\<lambda>d. sort_key sn_timestamp
       (filter (\<lambda>s. case repo_id of None \<Rightarrow> True | Some r \<Rightarrow> sn_repo_id s = r) (snapshots d)))"

definition get_snapshot :: "string \<Rightarrow> snapshot option dbop" where
  "get_snapshot snapshot_id = op_query (\<lambda>d. find (\<lambda>s. sn_id s = snapshot_id) (snapshots d))"

definition delete_snapshots_for_repo :: "string \<Rightarrow> nat dbop" where
  "delete_snapshots_for_repo repo_id =
     op_bind (op_dml (\<lambda>d. (sql_count (\<lambda>s. sn_repo_id s = repo_id) (snapshots d),
       d\<lparr>snapshots := filter (\<lambda>s. sn_repo_id s \<noteq> repo_id) (snapshots d)\<rparr>))) (\<lambda>n.
     op_bind op_commit (\<lambda>_. op_ret n))"

definition delete_blank_snapshots :: "nat dbop" where
  "delete_blank_snapshots =
     op_bind (op_dml (\<lambda>d. (sql_count (\<lambda>s. sn_id s = []) (snapshots d),
       d\<lparr>snapshots := filter (\<lambda>s. sn_id s \<noteq> []) (snapshots d)\<rparr>))) (\<lambda>n.
     op_bind op_commit (\<lambda>_. op_ret n))"

section \<open>volume\_events.py\<close>

definition get_event :: "int \<Rightarrow> volume_event dbop" where
  "get_event event_id =
     op_bind (op_query (\<lambda>d. find (\<lambda>e. e_id e = event_id) (volume_events d))) (\<lambda>row.
     case row of None \<Rightarrow> op_raise (Event_not_found event_id) | Some e \<Rightarrow> op_ret e)"

text \<open>\<open>INSERT INTO volume_events\<close>; the result is \<open>cursor.lastrowid\<close>.\<close>

definition insert_event ::
  "int \<Rightarrow> string \<Rightarrow> string \<Rightarrow> string option \<Rightarrow> string \<Rightarrow> catalog \<Rightarrow> int \<times> catalog" where
  "insert_event volume_id event_type event_date loc detail d =
     (let i = seq_events d + 1 in
      (i, d\<lparr>volume_events := volume_events d @
             [\<lparr>e_id = i, e_volume_id = volume_id, e_type = event_type, e_date = event_date,
               e_location = loc, e_detail = detail\<rparr>],
            seq_events := i\<rparr>))"

definition add_event ::
  "int \<Rightarrow> string \<Rightarrow> string option \<Rightarrow> string \<Rightarrow> string option \<Rightarrow> bool \<Rightarrow> volume_event dbop" where
  "add_event volume_id event_type loc detail event_date commit =
     op_bind (op_raise_if (event_type \<notin> set EVENT_TYPES) (Invalid_event_type event_type)) (\<lambda>_.
     op_bind (op_clock now_iso) (\<lambda>now.
     op_bind (op_dml (insert_event volume_id event_type
       (case event_date of None \<Rightarrow> now | Some t \<Rightarrow> t) loc detail)) (\<lambda>event_id.
     op_bind (op_commit_if commit) (\<lambda>_.
     get_event event_id))))"

definition get_events_for_volume :: "int \<Rightarrow> string option \<Rightarrow> volume_event list dbop" where
  "get_events_for_volume volume_id event_type =
     op_query (\<lambda>d. sort_desc_key e_date (filter (\<lambda>e. e_volume_id e = volume_id \<and>
       (case event_type of None \<Rightarrow> True | Some t \<Rightarrow> t = [] \<or> e_type e = t)) (volume_events d)))"

definition get_latest_event :: "int \<Rightarrow> string option \<Rightarrow> volume_event option dbop" where
  "get_latest_event volume_id event_type =
     op_bind (get_events_for_volume volume_id event_type) (\<lambda>rows.
     op_ret (case rows of [] \<Rightarrow> None | e # _ \<Rightarrow> Some e))"

definition get_events_by_type :: "string \<Rightarrow> nat \<Rightarrow> volume_event list dbop" where
  "get_events_by_type event_type limit =
     op_query (\<lambda>d. take limit (sort_desc_key e_date
       (filter (\<lambda>e. e_type e = event_type) (volume_events d))))"

end
