(* ===== verification/Catalog_Queries.thy ===== *)
theory Catalog_Queries
  imports Catalog_Names
begin

text \<open>
  The cross-table queries of \<open>db/queries.py\<close>, as functions of the catalog. A SQL join is a list
  comprehension over the tables in row order; \<open>ORDER BY\<close> is a stable sort; a query whose
  parameters exceed SQLite's variable limit runs in batches of \<open>_SQLITE_BATCH\<close>, which the model
  keeps. A Python dictionary is an association list in insertion order. SQLite's \<open>json_each\<close> is a
  parameter of the two snapshot searches.
\<close>

section \<open>Vocabulary\<close>

definition SQLITE_BATCH :: nat where "SQLITE_BATCH = 900"

definition DURABLE_VOLUME_STATUSES :: "string list" where
  "DURABLE_VOLUME_STATUSES = [''BURNED'', ''VERIFIED'', ''CONSOLIDATING'']"

definition AUTO_DEPRECATED_NOTE_PREFIX :: string where
  "AUTO_DEPRECATED_NOTE_PREFIX = ''auto-deprecated:''"

definition DISPLAY_STATUS_LOST :: string where "DISPLAY_STATUS_LOST = ''LOST''"

definition durable_volume :: "volume \<Rightarrow> bool" where
  "durable_volume v \<longleftrightarrow> v_status v \<in> set DURABLE_VOLUME_STATUSES"

definition in_service :: "volume \<Rightarrow> bool" where
  "in_service v \<longleftrightarrow> v_status v \<notin> {''DEPRECATED'', ''DESTROYED''}"

definition never_burned :: "volume \<Rightarrow> bool" where
  "never_burned v \<longleftrightarrow> v_status v \<in> {''STAGING'', ''BURNING''}"

text \<open>\<open>volume_packs JOIN volumes\<close> for one pack.\<close>

definition holders :: "catalog \<Rightarrow> int \<Rightarrow> volume list" where
  "holders d pid = [v. (vi, pi) \<leftarrow> volume_packs d, pi = pid, v \<leftarrow> volumes d, v_id v = vi]"

text \<open>\<open>packs JOIN volume_packs JOIN volumes\<close>.\<close>

definition pack_volume_rows :: "catalog \<Rightarrow> (pack \<times> volume) list" where
  "pack_volume_rows d = [(p, v). p \<leftarrow> packs d, v \<leftarrow> holders d (p_id p)]"

definition copies_of :: "catalog \<Rightarrow> int \<Rightarrow> volume_copy list" where
  "copies_of d vid = filter (\<lambda>c. vc_volume_id c = vid) (volume_copies d)"

definition active_copies_of :: "catalog \<Rightarrow> int \<Rightarrow> volume_copy list" where
  "active_copies_of d vid = filter (\<lambda>c. vc_status c = ''ACTIVE'') (copies_of d vid)"

text \<open>The replica rule of BURN-10: an active disc, or no disc record at all.\<close>

definition disc_or_legacy :: "catalog \<Rightarrow> volume \<Rightarrow> bool" where
  "disc_or_legacy d v \<longleftrightarrow> active_copies_of d (v_id v) \<noteq> [] \<or> copies_of d (v_id v) = []"

definition has_durable_link :: "catalog \<Rightarrow> pack \<Rightarrow> bool" where
  "has_durable_link d p \<longleftrightarrow> list_ex durable_volume (holders d (p_id p))"

definition repo_filter :: "string option \<Rightarrow> pack \<Rightarrow> bool" where
  "repo_filter repo_id p \<longleftrightarrow> (case repo_id of None \<Rightarrow> True | Some r \<Rightarrow> r = [] \<or> p_repo_id p = r)"

text \<open>\<open>dict.setdefault(k, []).append(x)\<close>.\<close>

fun dict_append :: "'k \<Rightarrow> 'x \<Rightarrow> ('k \<times> 'x list) list \<Rightarrow> ('k \<times> 'x list) list" where
  "dict_append k x [] = [(k, [x])]"
| "dict_append k x ((k', xs) # rest) =
     (if k' = k then (k', xs @ [x]) # rest else (k', xs) # dict_append k x rest)"

text \<open>\<open>dict[k] = x\<close>.\<close>

fun dict_put :: "'k \<Rightarrow> 'x \<Rightarrow> ('k \<times> 'x) list \<Rightarrow> ('k \<times> 'x) list" where
  "dict_put k x [] = [(k, x)]"
| "dict_put k x ((k', y) # rest) = (if k' = k then (k', x) # rest else (k', y) # dict_put k x rest)"

section \<open>Lost volumes\<close>

definition lost_volume :: "catalog \<Rightarrow> volume \<Rightarrow> bool" where
  "lost_volume d v \<longleftrightarrow>
     copies_of d (v_id v) \<noteq> [] \<and> active_copies_of d (v_id v) = [] \<and>
     (durable_volume v \<or>
      v_status v = ''DEPRECATED'' \<and>
      list_ex (\<lambda>e. e_volume_id e = v_id v \<and> e_type e = ''NOTE'' \<and>
          take (length AUTO_DEPRECATED_NOTE_PREFIX) (e_detail e) = AUTO_DEPRECATED_NOTE_PREFIX)
        (volume_events d))"

definition get_lost_volume_ids :: "catalog \<Rightarrow> int set" where
  "get_lost_volume_ids d = v_id ` set (filter (lost_volume d) (volumes d))"

definition volume_display_status :: "volume \<Rightarrow> int set \<Rightarrow> string" where
  "volume_display_status v lost_ids = (if v_id v \<in> lost_ids then DISPLAY_STATUS_LOST else v_status v)"

section \<open>Archived and unarchived packs\<close>

definition get_unarchived_packs :: "catalog \<Rightarrow> string option \<Rightarrow> pack list" where
  "get_unarchived_packs d repo_id =
     sort_key p_created_at (filter (\<lambda>p. \<not> p_is_pruned p \<and> repo_filter repo_id p \<and>
       \<not> has_durable_link d p) (packs d))"

definition get_total_unarchived_bytes :: "catalog \<Rightarrow> string option \<Rightarrow> int" where
  "get_total_unarchived_bytes d repo_id =
     sum_list (map p_size_bytes (filter (\<lambda>p. \<not> p_is_pruned p \<and> repo_filter repo_id p \<and>
       \<not> has_durable_link d p) (packs d)))"

definition get_packs_for_volume :: "catalog \<Rightarrow> int \<Rightarrow> pack list" where
  "get_packs_for_volume d vid =
     sort_key p_sha256 [p. p \<leftarrow> packs d, (vi, pi) \<leftarrow> volume_packs d, pi = p_id p \<and> vi = vid]"

definition get_volumes_for_pack :: "catalog \<Rightarrow> int \<Rightarrow> volume list" where
  "get_volumes_for_pack d pid =
     sort_key v_label [v. v \<leftarrow> volumes d, (vi, pi) \<leftarrow> volume_packs d, vi = v_id v \<and> pi = pid]"

section \<open>Pick lists\<close>

definition bit_rank :: "bool \<Rightarrow> nat" where "bit_rank b = (if b then 0 else 1)"

text \<open>The \<open>ORDER BY\<close> of the pick list; without a preferred location its term is constant.\<close>

definition pick_rank :: "string \<Rightarrow> volume \<Rightarrow> nat \<times> nat \<times> string" where
  "pick_rank loc v =
     (bit_rank (durable_volume v), bit_rank (loc = [] \<or> v_location v = loc), v_label v)"

definition pick_rows :: "catalog \<Rightarrow> string \<Rightarrow> string list \<Rightarrow> (pack \<times> volume) list" where
  "pick_rows d loc batch =
     sort_key (\<lambda>(p, v). pick_rank loc v)
       (filter (\<lambda>(p, v). p_sha256 p \<in> set batch \<and> in_service v) (pack_volume_rows d))"

definition pick_step ::
  "string list \<times> (string \<times> pack list) list \<Rightarrow> pack \<times> volume \<Rightarrow> string list \<times> (string \<times> pack list) list" where
  "pick_step st row =
     (case st of (seen, result) \<Rightarrow> case row of (p, v) \<Rightarrow>
        if p_sha256 p \<in> set seen then (seen, result)
        else (p_sha256 p # seen, dict_append (v_label v) p result))"

definition get_pick_list :: "catalog \<Rightarrow> string list \<Rightarrow> string \<Rightarrow> (string \<times> pack list) list" where
  "get_pick_list d shas loc =
     (if shas = [] then []
      else snd (foldl (\<lambda>st batch. foldl pick_step st (pick_rows d loc batch)) ([], [])
                  (chunks SQLITE_BATCH shas)))"

record pick_entry =
  pe_pack :: pack
  pe_primary_label :: string
  pe_primary_volume_id :: int
  pe_alternates :: "string list"

definition alternate_rank :: "string \<Rightarrow> volume \<Rightarrow> nat \<times> nat \<times> nat \<times> string" where
  "alternate_rank loc v =
     (bit_rank (durable_volume v), bit_rank (loc = [] \<or> v_location v = loc),
      (if v_status v = ''VERIFIED'' then 0 else if v_status v = ''BURNED'' then 1 else 2), v_label v)"

fun alternate_step :: "(string \<times> pick_entry) list \<Rightarrow> pack \<times> volume \<Rightarrow> (string \<times> pick_entry) list" where
  "alternate_step [] (p, v) =
     [(p_sha256 p, \<lparr>pe_pack = p, pe_primary_label = v_label v, pe_primary_volume_id = v_id v,
        pe_alternates = []\<rparr>)]"
| "alternate_step ((k, e) # rest) (p, v) =
     (if k = p_sha256 p then (k, e\<lparr>pe_alternates := pe_alternates e @ [v_label v]\<rparr>) # rest
      else (k, e) # alternate_step rest (p, v))"

definition get_pick_list_with_alternates ::
  "catalog \<Rightarrow> string list \<Rightarrow> string \<Rightarrow> (string \<times> pick_entry) list" where
  "get_pick_list_with_alternates d shas loc =
     (if shas = [] then []
      else foldl (\<lambda>result batch. foldl alternate_step result
             (sort_key (\<lambda>(p, v). alternate_rank loc v)
               (filter (\<lambda>(p, v). p_sha256 p \<in> set batch \<and> in_service v) (pack_volume_rows d))))
           [] (chunks SQLITE_BATCH shas))"

definition get_unconfirmed_volume_labels :: "catalog \<Rightarrow> string list \<Rightarrow> string set" where
  "get_unconfirmed_volume_labels d labels =
     (if labels = [] then {}
      else foldl (\<lambda>acc batch. acc \<union> v_label ` set (filter (\<lambda>v.
             v_label v \<in> set batch \<and> never_burned v \<and> copies_of d (v_id v) = []) (volumes d)))
           {} (chunks SQLITE_BATCH labels))"

definition accessible :: "catalog \<Rightarrow> pack \<Rightarrow> bool" where
  "accessible d p \<longleftrightarrow> list_ex in_service (holders d (p_id p))"

definition missing_step :: "catalog \<Rightarrow> string list \<Rightarrow> string list \<Rightarrow> string list" where
  "missing_step d missing batch =
     (let archived = p_sha256 ` set (filter (\<lambda>p. p_sha256 p \<in> set batch) (packs d));
          missing1 = missing @ filter (\<lambda>h. h \<notin> archived) batch;
          no_active = map p_sha256 (filter (\<lambda>p. p_sha256 p \<in> set batch \<and> \<not> accessible d p) (packs d))
      in foldl (\<lambda>acc h. if h \<in> set acc then acc else acc @ [h]) missing1 no_active)"

definition get_missing_packs :: "catalog \<Rightarrow> string list \<Rightarrow> string list" where
  "get_missing_packs d shas =
     (if shas = [] then [] else foldl (missing_step d) [] (chunks SQLITE_BATCH shas))"

definition get_deprecated_only_packs :: "catalog \<Rightarrow> string list \<Rightarrow> (string \<times> string list) list" where
  "get_deprecated_only_packs d shas =
     (if shas = [] then []
      else foldl (\<lambda>result batch.
             foldl (\<lambda>result (p, v). dict_append (v_label v) (p_sha256 p) result) result
               (sort_key (\<lambda>(p, v). v_label v)
                 (filter (\<lambda>(p, v). p_sha256 p \<in> set batch \<and> \<not> in_service v \<and> \<not> accessible d p)
                   (pack_volume_rows d))))
           [] (chunks SQLITE_BATCH shas))"

section \<open>Consolidation\<close>

definition packs_on_volumes :: "catalog \<Rightarrow> bool \<Rightarrow> int list \<Rightarrow> pack list" where
  "packs_on_volumes d pruned vids =
     (if vids = [] then []
      else sort_key p_sha256 (map snd
             (foldl (\<lambda>m batch. foldl (\<lambda>m p. dict_put (p_id p) p m) m
                 (sort_key p_sha256 (remdups [p. p \<leftarrow> packs d, (vi, pi) \<leftarrow> volume_packs d,
                    pi = p_id p \<and> vi \<in> set batch \<and> p_is_pruned p = pruned])))
               [] (chunks SQLITE_BATCH vids))))"

definition get_packs_only_on_volumes :: "catalog \<Rightarrow> int list \<Rightarrow> pack list" where
  "get_packs_only_on_volumes d vids = packs_on_volumes d False vids"

definition get_pruned_packs_on_volumes :: "catalog \<Rightarrow> int list \<Rightarrow> pack list" where
  "get_pruned_packs_on_volumes d vids = packs_on_volumes d True vids"

section \<open>Redundancy\<close>

text \<open>The discs one joined volume contributes: one for a volume without disc records.\<close>

definition disc_count :: "catalog \<Rightarrow> volume \<Rightarrow> nat" where
  "disc_count d v =
     (if copies_of d (v_id v) = [] then 1 else length (active_copies_of d (v_id v)))"

definition copy_count :: "catalog \<Rightarrow> pack \<Rightarrow> nat" where
  "copy_count d p = sum_list (map (disc_count d) (filter in_service (holders d (p_id p))))"

definition get_redundancy_report :: "catalog \<Rightarrow> int \<Rightarrow> pack list" where
  "get_redundancy_report d min_copies =
     sort_key (\<lambda>p. (copy_count d p, p_sha256 p))
       (filter (\<lambda>p. \<not> p_is_pruned p \<and> int (copy_count d p) < min_copies) (packs d))"

definition get_live_volumes_for_packs :: "catalog \<Rightarrow> int list \<Rightarrow> (int \<times> volume list) list" where
  "get_live_volumes_for_packs d pids =
     foldl (\<lambda>result batch.
         foldl (\<lambda>result (pid, v). dict_append pid v result) result
           (sort_key (\<lambda>(pid, v). v_label v)
             [(pi, v). (vi, pi) \<leftarrow> volume_packs d, pi \<in> set batch, v \<leftarrow> volumes d,
                v_id v = vi \<and> in_service v \<and> disc_or_legacy d v]))
       [] (chunks SQLITE_BATCH pids)"

text \<open>Another volume that counts as a replica in the deprecation guard.\<close>

definition other_replica :: "catalog \<Rightarrow> int \<Rightarrow> volume \<Rightarrow> bool" where
  "other_replica d vid v \<longleftrightarrow>
     v_id v \<noteq> vid \<and> v_status v \<in> {''BURNED'', ''VERIFIED''} \<and> disc_or_legacy d v"

definition get_at_risk_packs_for_volume :: "catalog \<Rightarrow> int \<Rightarrow> pack list" where
  "get_at_risk_packs_for_volume d vid =
     sort_key (\<lambda>p. (p_repo_id p, p_sha256 p))
       [p. (vi, pi) \<leftarrow> volume_packs d, vi = vid, p \<leftarrow> packs d,
          p_id p = pi \<and> \<not> p_is_pruned p \<and> \<not> list_ex (other_replica d vid) (holders d pi)]"

section \<open>Reconciliation\<close>

definition get_packs_stranded_on_unburned_volumes :: "catalog \<Rightarrow> string \<Rightarrow> pack list" where
  "get_packs_stranded_on_unburned_volumes d cutoff =
     sort_key p_created_at (filter (\<lambda>p. \<not> p_is_pruned p \<and>
       list_ex (\<lambda>(vi, pi). pi = p_id p) (volume_packs d) \<and>
       \<not> list_ex (\<lambda>v. \<not> never_burned v \<or> v_created_at v > cutoff) (holders d (p_id p))) (packs d))"

definition get_ghost_volumes :: "catalog \<Rightarrow> string \<Rightarrow> volume list" where
  "get_ghost_volumes d cutoff =
     sort_key v_label (filter (\<lambda>v. never_burned v \<and> copies_of d (v_id v) = [] \<and>
       v_created_at v \<le> cutoff) (volumes d))"

definition get_durable_volumes_without_active_copies :: "catalog \<Rightarrow> volume list" where
  "get_durable_volumes_without_active_copies d =
     sort_key v_label (filter (\<lambda>v. durable_volume v \<and> active_copies_of d (v_id v) = []) (volumes d))"

record lost_volume_packs =
  mirror_only :: "pack list"
  gone :: "pack list"

definition get_lost_volume_packs :: "catalog \<Rightarrow> int \<Rightarrow> lost_volume_packs" where
  "get_lost_volume_packs d vid =
     (let ps = sort_key (\<lambda>p. (p_repo_id p, p_sha256 p))
          [p. p \<leftarrow> packs d, (vi, pi) \<leftarrow> volume_packs d, pi = p_id p \<and> vi = vid \<and> \<not> has_durable_link d p]
      in \<lparr>mirror_only = filter (\<lambda>p. \<not> p_is_pruned p) ps, gone = filter p_is_pruned ps\<rparr>)"

definition get_volume_pack_stats_by_repo :: "catalog \<Rightarrow> int \<Rightarrow> (string \<times> nat \<times> int) list" where
  "get_volume_pack_stats_by_repo d vid =
     (let ps = [p. p \<leftarrow> packs d, (vi, pi) \<leftarrow> volume_packs d, pi = p_id p \<and> vi = vid] in
      map (\<lambda>r. (r, sql_count (\<lambda>p. p_repo_id p = r) ps,
              sum_list (map p_size_bytes (filter (\<lambda>p. p_repo_id p = r) ps))))
        (sort (remdups (map p_repo_id ps))))"

record archive_summary =
  a_total :: nat
  a_pruned :: nat
  a_archived :: nat
  a_staged :: nat
  a_unarchived :: nat

definition get_archive_status_summary :: "catalog \<Rightarrow> archive_summary" where
  "get_archive_status_summary d =
     \<lparr>a_total = length (packs d),
      a_pruned = sql_count p_is_pruned (packs d),
      a_archived = sql_count (\<lambda>p. \<not> p_is_pruned p \<and> list_ex durable_volume (holders d (p_id p))) (packs d),
      a_staged = sql_count (\<lambda>p. \<not> p_is_pruned p \<and> list_ex never_burned (holders d (p_id p)) \<and>
        \<not> list_ex durable_volume (holders d (p_id p))) (packs d),
      a_unarchived = sql_count (\<lambda>p. \<not> p_is_pruned p \<and> \<not> list_ex in_service (holders d (p_id p))) (packs d)\<rparr>"

section \<open>Locations\<close>

definition get_packs_at_location :: "catalog \<Rightarrow> string \<Rightarrow> int set" where
  "get_packs_at_location d loc =
     set [pi. (vi, pi) \<leftarrow> volume_packs d, c \<leftarrow> volume_copies d,
            vc_volume_id c = vi \<and> vc_location c = loc \<and> vc_status c = ''ACTIVE'']"

definition get_unarchived_or_missing_at_location :: "catalog \<Rightarrow> string \<Rightarrow> pack list" where
  "get_unarchived_or_missing_at_location d loc =
     sort_key p_created_at (filter (\<lambda>p. \<not> p_is_pruned p \<and> p_id p \<notin> get_packs_at_location d loc) (packs d))"

definition get_packs_missing_at_location :: "catalog \<Rightarrow> string \<Rightarrow> pack list" where
  "get_packs_missing_at_location d loc =
     sort_key p_created_at (filter (\<lambda>p. \<not> p_is_pruned p \<and> p_id p \<in> snd ` set (volume_packs d) \<and>
       p_id p \<notin> get_packs_at_location d loc) (packs d))"

record location_summary =
  ls_location :: string
  ls_volumes :: nat
  ls_packs :: nat
  ls_missing :: int

definition get_location_summary :: "catalog \<Rightarrow> location_summary list" where
  "get_location_summary d =
     (let total_archived = card (snd ` set (volume_packs d));
          rows = [(c, pi). c \<leftarrow> volume_copies d, (vi, pi) \<leftarrow> volume_packs d, v \<leftarrow> volumes d,
                   vi = vc_volume_id c \<and> v_id v = vc_volume_id c \<and> vc_status c = ''ACTIVE'' \<and> in_service v]
      in map (\<lambda>l.
           let mine = filter (\<lambda>(c, pi). vc_location c = l) rows;
               n = card (snd ` set mine)
           in \<lparr>ls_location = l, ls_volumes = card ((\<lambda>(c, pi). vc_volume_id c) ` set mine),
               ls_packs = n, ls_missing = int total_archived - int n\<rparr>)
         (sort (remdups (map (\<lambda>(c, pi). vc_location c) rows))))"

section \<open>Snapshots\<close>

text \<open>\<open>value LIKE pattern\<close>: \<open>%\<close> matches any text, \<open>_\<close> one character, ASCII letters of either case agree.\<close>

definition ascii_fold :: "char \<Rightarrow> char" where
  "ascii_fold c = (if 65 \<le> code c \<and> code c \<le> 90 then char_of (code c + 32) else c)"

fun sql_like :: "string \<Rightarrow> string \<Rightarrow> bool" where
  "sql_like [] s = (s = [])"
| "sql_like (p # ps) [] = (p = CHR ''%'' \<and> sql_like ps [])"
| "sql_like (p # ps) (c # cs) =
     (if p = CHR ''%'' then sql_like ps (c # cs) \<or> sql_like (p # ps) cs
      else (p = CHR ''_'' \<or> ascii_fold p = ascii_fold c) \<and> sql_like ps cs)"

definition snapshot_repo_filter :: "string option \<Rightarrow> snapshot \<Rightarrow> bool" where
  "snapshot_repo_filter repo_id s \<longleftrightarrow>
     (case repo_id of None \<Rightarrow> True | Some r \<Rightarrow> r = [] \<or> sn_repo_id s = r)"

definition get_snapshots_by_path ::
  "(string \<Rightarrow> string list) \<Rightarrow> catalog \<Rightarrow> string \<Rightarrow> string option \<Rightarrow> snapshot list" where
  "get_snapshots_by_path json_each d path_pattern repo_id =
     sort_desc_key sn_timestamp (filter (\<lambda>s. snapshot_repo_filter repo_id s \<and>
       list_ex (sql_like path_pattern) (json_each (sn_paths s))) (snapshots d))"

definition get_snapshots_by_tag ::
  "(string \<Rightarrow> string list) \<Rightarrow> catalog \<Rightarrow> string \<Rightarrow> string option \<Rightarrow> snapshot list" where
  "get_snapshots_by_tag json_each d tag repo_id =
     sort_desc_key sn_timestamp (filter (\<lambda>s. snapshot_repo_filter repo_id s \<and>
       tag \<in> set (json_each (sn_tags s))) (snapshots d))"

end
