(* ===== verification/Catalog_Volumes.thy ===== *)
theory Catalog_Volumes
  imports Catalog_Queries
begin

text \<open>
  \<open>db/volumes.py\<close>, \<open>db/volume_copies.py\<close>, \<open>db/packs.py\<close>, \<open>db/volume_packs.py\<close> and
  \<open>db/sessions.py\<close>. The arrow in the text of a status note, a character outside the code points
  of the model, is written as two ASCII characters.
\<close>

section \<open>packs.py\<close>

definition get_pack_by_id :: "int \<Rightarrow> pack dbop" where
  "get_pack_by_id pack_id =
     op_bind (op_query (\<lambda>d. find (\<lambda>p. p_id p = pack_id) (packs d))) (\<lambda>row.
     case row of None \<Rightarrow> op_raise (Pack_not_found pack_id) | Some p \<Rightarrow> op_ret p)"

definition get_pack_by_sha256 :: "string \<Rightarrow> pack option dbop" where
  "get_pack_by_sha256 sha256 = op_query (\<lambda>d. find (\<lambda>p. p_sha256 p = sha256) (packs d))"

text \<open>\<open>INSERT OR IGNORE INTO packs\<close>.\<close>

definition insert_pack :: "string \<Rightarrow> string \<Rightarrow> int \<Rightarrow> string \<Rightarrow> catalog \<Rightarrow> unit \<times> catalog" where
  "insert_pack now sha256 size_bytes repo_id d =
     ((), if sha256 \<in> p_sha256 ` set (packs d) then d
          else d\<lparr>packs := packs d @ [\<lparr>p_id = seq_packs d + 1, p_sha256 = sha256,
                   p_size_bytes = size_bytes, p_repo_id = repo_id, p_is_pruned = False,
                   p_created_at = now\<rparr>],
                 seq_packs := seq_packs d + 1\<rparr>)"

definition register_pack :: "string \<Rightarrow> int \<Rightarrow> string \<Rightarrow> pack dbop" where
  "register_pack sha256 size_bytes repo_id =
     op_bind (op_clock now_sql) (\<lambda>now.
     op_bind (op_dml (insert_pack now sha256 size_bytes repo_id)) (\<lambda>_.
     op_bind op_commit (\<lambda>_.
     op_bind (get_pack_by_sha256 sha256) (\<lambda>row.
     case row of None \<Rightarrow> op_raise (Pack_vanished sha256) | Some p \<Rightarrow> op_ret p))))"

definition set_pruned :: "bool \<Rightarrow> (pack \<Rightarrow> bool) \<Rightarrow> catalog \<Rightarrow> nat \<times> catalog" where
  "set_pruned b P d =
     (sql_count P (packs d), d\<lparr>packs := sql_update P (\<lambda>p. p\<lparr>p_is_pruned := b\<rparr>) (packs d)\<rparr>)"

definition mark_pruned :: "int \<Rightarrow> unit dbop" where
  "mark_pruned pack_id = op_bind (op_dml (set_pruned True (\<lambda>p. p_id p = pack_id))) (\<lambda>_. op_commit)"

definition unmark_pruned :: "int \<Rightarrow> unit dbop" where
  "unmark_pruned pack_id = op_bind (op_dml (set_pruned False (\<lambda>p. p_id p = pack_id))) (\<lambda>_. op_commit)"

fun mark_batches :: "int list list \<Rightarrow> nat \<Rightarrow> nat dbop" where
  "mark_batches [] updated = op_ret updated"
| "mark_batches (batch # rest) updated =
     op_bind (op_dml (set_pruned True (\<lambda>p. p_id p \<in> set batch \<and> \<not> p_is_pruned p))) (\<lambda>n.
     mark_batches rest (updated + n))"

definition bulk_mark_pruned :: "int list \<Rightarrow> nat dbop" where
  "bulk_mark_pruned pack_ids =
     (if pack_ids = [] then op_ret 0
      else op_bind (mark_batches (chunks SQLITE_BATCH pack_ids) 0) (\<lambda>updated.
           op_bind op_commit (\<lambda>_. op_ret updated)))"

text \<open>The dictionary the registered packs are read back through; a missing key raises KeyError.\<close>

definition pack_map :: "string list \<Rightarrow> catalog \<Rightarrow> (string \<times> pack) list" where
  "pack_map shas d =
     foldl (\<lambda>m batch. foldl (\<lambda>m p. dict_put (p_sha256 p) p m) m
        (filter (\<lambda>p. p_sha256 p \<in> set batch) (packs d))) [] (chunks SQLITE_BATCH shas)"

definition bulk_register :: "(string \<times> int \<times> string) list \<Rightarrow> pack list dbop" where
  "bulk_register ps =
     (if ps = [] then op_ret []
      else
        op_bind (op_clock now_sql) (\<lambda>now.
        op_bind (op_for ps (\<lambda>(sha256, size_bytes, repo_id).
          op_dml (insert_pack now sha256 size_bytes repo_id))) (\<lambda>_.
        op_bind op_commit (\<lambda>_.
        op_bind (op_query (pack_map (map fst ps))) (\<lambda>m.
        if list_all (\<lambda>p. map_of m (fst p) \<noteq> None) ps
        then op_ret (map (\<lambda>p. the (map_of m (fst p))) ps) else op_raise Key_missing)))))"

definition list_packs :: "string option \<Rightarrow> bool \<Rightarrow> pack list dbop" where
  "list_packs repo_id include_pruned =
     op_query (\<lambda>d. sort_key p_created_at (filter (\<lambda>p.
       (case repo_id of None \<Rightarrow> True | Some r \<Rightarrow> p_repo_id p = r) \<and>
       (include_pruned \<or> \<not> p_is_pruned p)) (packs d)))"

section \<open>volume\_packs.py\<close>

definition insert_link :: "int \<Rightarrow> int \<Rightarrow> catalog \<Rightarrow> unit \<times> catalog" where
  "insert_link volume_id pack_id d =
     ((), if (volume_id, pack_id) \<in> set (volume_packs d) then d
          else d\<lparr>volume_packs := volume_packs d @ [(volume_id, pack_id)]\<rparr>)"

definition link_pack_to_volume :: "int \<Rightarrow> int \<Rightarrow> unit dbop" where
  "link_pack_to_volume volume_id pack_id =
     op_bind (op_dml (insert_link volume_id pack_id)) (\<lambda>_. op_commit)"

definition bulk_link_packs :: "int \<Rightarrow> int list \<Rightarrow> bool \<Rightarrow> unit dbop" where
  "bulk_link_packs volume_id pack_ids commit =
     op_bind (op_for pack_ids (\<lambda>pid. op_dml (insert_link volume_id pid))) (\<lambda>_.
     op_commit_if commit)"

definition unlink_pack_from_volume :: "int \<Rightarrow> int \<Rightarrow> unit dbop" where
  "unlink_pack_from_volume volume_id pack_id =
     op_bind (op_dml (\<lambda>d. ((), d\<lparr>volume_packs :=
       filter (\<lambda>x. x \<noteq> (volume_id, pack_id)) (volume_packs d)\<rparr>))) (\<lambda>_. op_commit)"

definition get_pack_ids_for_volume :: "int \<Rightarrow> int list dbop" where
  "get_pack_ids_for_volume volume_id =
     op_query (\<lambda>d. map snd (filter (\<lambda>(v, p). v = volume_id) (volume_packs d)))"

definition get_volume_ids_for_pack :: "int \<Rightarrow> int list dbop" where
  "get_volume_ids_for_pack pack_id =
     op_query (\<lambda>d. map fst (filter (\<lambda>(v, p). p = pack_id) (volume_packs d)))"

section \<open>volumes.py\<close>

definition VALID_TRANSITIONS :: "string \<Rightarrow> string list" where
  "VALID_TRANSITIONS s =
     (if s = ''STAGING'' then [''BURNING'', ''DEPRECATED'', ''DESTROYED'']
      else if s = ''BURNING'' then [''BURNED'', ''VERIFIED'', ''STAGING'', ''DESTROYED'']
      else if s = ''BURNED'' then [''BURNING'', ''VERIFIED'', ''STAGING'', ''DESTROYED'']
      else if s = ''VERIFIED'' then [''DEPRECATED'', ''DESTROYED'', ''CONSOLIDATING'']
      else if s = ''CONSOLIDATING'' then [''DEPRECATED'', ''VERIFIED'']
      else if s = ''DEPRECATED'' then [''DESTROYED'']
      else [])"

definition get_volume_by_id :: "int \<Rightarrow> volume dbop" where
  "get_volume_by_id volume_id =
     op_bind (op_query (\<lambda>d. find (\<lambda>v. v_id v = volume_id) (volumes d))) (\<lambda>row.
     case row of None \<Rightarrow> op_raise (Volume_not_found volume_id) | Some v \<Rightarrow> op_ret v)"

definition get_volume_by_label :: "string \<Rightarrow> volume option dbop" where
  "get_volume_by_label label = op_query (\<lambda>d. find (\<lambda>v. v_label v = label) (volumes d))"

definition get_volume_by_uuid :: "string \<Rightarrow> volume option dbop" where
  "get_volume_by_uuid uuid = op_query (\<lambda>d. find (\<lambda>v. v_uuid v = uuid) (volumes d))"

definition insert_volume ::
  "string \<Rightarrow> string \<Rightarrow> string \<Rightarrow> string \<Rightarrow> int \<Rightarrow> string \<Rightarrow> string \<Rightarrow> catalog \<Rightarrow> int \<times> catalog" where
  "insert_volume now label uuid media_type capacity_bytes loc status d =
     (let i = seq_volumes d + 1 in
      (i, d\<lparr>volumes := volumes d @ [\<lparr>v_id = i, v_label = label, v_uuid = uuid, v_media_type = media_type,
              v_capacity_bytes = capacity_bytes, v_used_bytes = 0, v_location = loc,
              v_status = status, v_created_at = now, v_closed_at = None, v_verified_at = None\<rparr>],
            seq_volumes := i\<rparr>))"

definition create_volume ::
  "string \<Rightarrow> string \<Rightarrow> string \<Rightarrow> int \<Rightarrow> string \<Rightarrow> string \<Rightarrow> bool \<Rightarrow> volume dbop" where
  "create_volume label uuid media_type capacity_bytes loc status commit =
     op_bind (op_clock now_sql) (\<lambda>now.
     op_bind (op_dml (insert_volume now label uuid media_type capacity_bytes loc status)) (\<lambda>i.
     op_bind (op_commit_if commit) (\<lambda>_.
     get_volume_by_id i)))"

definition check_deprecation_safe :: "int \<Rightarrow> string list dbop" where
  "check_deprecation_safe volume_id =
     op_query (\<lambda>d. map p_sha256 (get_at_risk_packs_for_volume d volume_id))"

definition set_volume :: "int \<Rightarrow> (volume \<Rightarrow> volume) \<Rightarrow> catalog \<Rightarrow> unit \<times> catalog" where
  "set_volume volume_id f d =
     ((), d\<lparr>volumes := sql_update (\<lambda>v. v_id v = volume_id) f (volumes d)\<rparr>)"

definition status_note :: "string \<Rightarrow> string \<Rightarrow> string" where
  "status_note current status = ''Status changed: '' @ current @ '' -> '' @ status"

definition deprecate_guarded :: "int \<Rightarrow> string \<Rightarrow> string \<Rightarrow> bool \<Rightarrow> unit dbop" where
  "deprecate_guarded volume_id current status commit =
     op_bind (op_savepoint ''deprecate_check'') (\<lambda>_.
     op_on_error
       (op_bind (check_deprecation_safe volume_id) (\<lambda>at_risk.
        op_bind (if at_risk \<noteq> [] then op_bind (op_rollback_to ''deprecate_check'')
                   (\<lambda>_. op_raise (Deprecation_unsafe volume_id (length at_risk)))
                 else op_ret ()) (\<lambda>_.
        op_bind (op_dml (set_volume volume_id (\<lambda>v. v\<lparr>v_status := status\<rparr>))) (\<lambda>_.
        op_bind (op_release ''deprecate_check'') (\<lambda>_.
        op_bind (add_event volume_id ''NOTE'' None (status_note current status) None False) (\<lambda>_.
        op_commit_if commit))))))
       (op_rollback_to ''deprecate_check''))"

definition write_status :: "int \<Rightarrow> string \<Rightarrow> string \<Rightarrow> bool \<Rightarrow> unit dbop" where
  "write_status volume_id current status commit =
     op_bind (op_clock now_iso) (\<lambda>now.
     op_bind (op_dml (set_volume volume_id (\<lambda>v.
       if status = ''VERIFIED'' then v\<lparr>v_status := status, v_verified_at := Some now\<rparr>
       else v\<lparr>v_status := status\<rparr>))) (\<lambda>_.
     op_bind (add_event volume_id ''NOTE'' None (status_note current status) None False) (\<lambda>_.
     op_commit_if commit)))"

definition update_status :: "int \<Rightarrow> string \<Rightarrow> bool \<Rightarrow> bool \<Rightarrow> unit dbop" where
  "update_status volume_id status commit force =
     op_bind (get_volume_by_id volume_id) (\<lambda>v.
     let current = v_status v in
     if \<not> force then
       op_bind (op_raise_if (status \<notin> set (VALID_TRANSITIONS current))
                  (Invalid_transition volume_id current status)) (\<lambda>_.
       if status = ''DEPRECATED'' then deprecate_guarded volume_id current status commit
       else write_status volume_id current status commit)
     else write_status volume_id current status commit)"

definition mark_closed :: "int \<Rightarrow> bool \<Rightarrow> unit dbop" where
  "mark_closed volume_id commit =
     op_bind (op_clock now_iso) (\<lambda>now.
     op_bind (op_dml (set_volume volume_id (\<lambda>v. v\<lparr>v_closed_at := Some now\<rparr>))) (\<lambda>_.
     op_commit_if commit))"

definition update_used_bytes :: "int \<Rightarrow> int \<Rightarrow> bool \<Rightarrow> unit dbop" where
  "update_used_bytes volume_id used_bytes commit =
     op_bind (op_dml (set_volume volume_id (\<lambda>v. v\<lparr>v_used_bytes := used_bytes\<rparr>))) (\<lambda>_.
     op_commit_if commit)"

definition list_volumes :: "string option \<Rightarrow> volume list dbop" where
  "list_volumes status_filter =
     op_query (\<lambda>d. sort_key v_created_at (filter (\<lambda>v.
       case status_filter of None \<Rightarrow> True | Some s \<Rightarrow> s = [] \<or> v_status v = s) (volumes d)))"

text \<open>\<open>DELETE FROM volumes\<close> cascades to the discs, events and pack links of the volume.\<close>

definition delete_volume_row :: "int \<Rightarrow> catalog \<Rightarrow> unit \<times> catalog" where
  "delete_volume_row volume_id d =
     ((), d\<lparr>volumes := filter (\<lambda>v. v_id v \<noteq> volume_id) (volumes d),
            volume_packs := filter (\<lambda>(v, p). v \<noteq> volume_id) (volume_packs d),
            volume_copies := filter (\<lambda>c. vc_volume_id c \<noteq> volume_id) (volume_copies d),
            volume_events := filter (\<lambda>e. e_volume_id e \<noteq> volume_id) (volume_events d)\<rparr>)"

definition delete_volume :: "int \<Rightarrow> unit dbop" where
  "delete_volume volume_id =
     op_bind (op_dml (\<lambda>d. ((), d\<lparr>session_volumes :=
       filter (\<lambda>x. sv_volume_id x \<noteq> volume_id) (session_volumes d)\<rparr>))) (\<lambda>_.
     op_bind (op_dml (\<lambda>d. ((), d\<lparr>volume_packs :=
       filter (\<lambda>(v, p). v \<noteq> volume_id) (volume_packs d)\<rparr>))) (\<lambda>_.
     op_bind (op_dml (delete_volume_row volume_id)) (\<lambda>_.
     op_commit)))"

section \<open>volume\_copies.py\<close>

definition coalesce :: "'a option \<Rightarrow> 'a option \<Rightarrow> 'a option" where
  "coalesce a b = (case a of None \<Rightarrow> b | Some _ \<Rightarrow> a)"

definition upsert_copy :: "volume_copy \<Rightarrow> catalog \<Rightarrow> unit \<times> catalog" where
  "upsert_copy new d =
     (let same = (\<lambda>c. vc_volume_id c = vc_volume_id new \<and> vc_location c = vc_location new) in
      ((), if list_ex same (volume_copies d) then
             d\<lparr>volume_copies := sql_update same (\<lambda>c.
                 c\<lparr>vc_burn_date := vc_burn_date new, vc_notes := vc_notes new, vc_status := ''ACTIVE'',
                   vc_iso_sha256 := coalesce (vc_iso_sha256 new) (vc_iso_sha256 c),
                   vc_iso_size_bytes := coalesce (vc_iso_size_bytes new) (vc_iso_size_bytes c),
                   vc_last_verified_at := vc_last_verified_at new,
                   vc_media_serial := (if vc_media_serial new \<noteq> [] then vc_media_serial new
                                       else vc_media_serial c)\<rparr>) (volume_copies d)\<rparr>
           else d\<lparr>volume_copies := volume_copies d @ [new\<lparr>vc_id := seq_copies d + 1\<rparr>],
                  seq_copies := seq_copies d + 1\<rparr>))"

definition add_volume_copy ::
  "int \<Rightarrow> string \<Rightarrow> string option \<Rightarrow> string \<Rightarrow> string option \<Rightarrow> int option \<Rightarrow> string option \<Rightarrow> string \<Rightarrow> bool
     \<Rightarrow> volume_copy dbop" where
  "add_volume_copy volume_id loc burn_date notes iso_sha256 iso_size_bytes last_verified_at media_serial commit =
     op_bind (op_clock now_iso) (\<lambda>now.
     op_bind (op_dml (upsert_copy \<lparr>vc_id = 0, vc_volume_id = volume_id, vc_location = loc,
       vc_status = ''ACTIVE'', vc_burn_date = (case burn_date of None \<Rightarrow> now | Some t \<Rightarrow> t),
       vc_notes = notes, vc_iso_sha256 = iso_sha256, vc_last_verified_at = last_verified_at,
       vc_media_serial = media_serial, vc_iso_size_bytes = iso_size_bytes\<rparr>)) (\<lambda>_.
     op_bind (op_commit_if commit) (\<lambda>_.
     op_bind (op_query (\<lambda>d. find (\<lambda>c. vc_volume_id c = volume_id \<and> vc_location c = loc \<and>
       vc_status c = ''ACTIVE'') (volume_copies d))) (\<lambda>row.
     case row of None \<Rightarrow> op_raise (Copy_not_recorded volume_id loc) | Some c \<Rightarrow> op_ret c))))"

definition get_volume_copy :: "int \<Rightarrow> volume_copy dbop" where
  "get_volume_copy copy_id =
     op_bind (op_query (\<lambda>d. find (\<lambda>c. vc_id c = copy_id) (volume_copies d))) (\<lambda>row.
     case row of None \<Rightarrow> op_raise (Copy_not_found copy_id) | Some c \<Rightarrow> op_ret c)"

definition get_copies_for_volume :: "int \<Rightarrow> bool \<Rightarrow> volume_copy list dbop" where
  "get_copies_for_volume volume_id active_only =
     op_query (\<lambda>d. if active_only then active_copies_of d volume_id else copies_of d volume_id)"

definition get_iso_sha256_for_label :: "string \<Rightarrow> string option dbop" where
  "get_iso_sha256_for_label volume_label =
     op_bind (get_volume_by_label volume_label) (\<lambda>vol.
     case vol of
       None \<Rightarrow> op_ret None
     | Some v \<Rightarrow>
         op_bind (get_copies_for_volume (v_id v) False) (\<lambda>copies.
         case find (\<lambda>c. vc_iso_sha256 c \<noteq> None \<and> vc_iso_sha256 c \<noteq> Some []) copies of
           Some c \<Rightarrow> op_ret (vc_iso_sha256 c)
         | None \<Rightarrow>
             op_bind (op_query (\<lambda>d. sort_desc_key snd
               [(h, s_created_at s). x \<leftarrow> session_volumes d, s \<leftarrow> burn_sessions d,
                  s_id s = sv_session_id x \<and> sv_volume_id x = v_id v,
                  h \<leftarrow> (case sv_iso_sha256 x of None \<Rightarrow> [] | Some h \<Rightarrow> [h])])) (\<lambda>rows.
             op_ret (case rows of [] \<Rightarrow> None | (h, _) # _ \<Rightarrow> if h = [] then None else Some h))))"

definition get_copies_at_location :: "string \<Rightarrow> bool \<Rightarrow> volume_copy list dbop" where
  "get_copies_at_location loc active_only =
     op_query (\<lambda>d. filter (\<lambda>c. vc_location c = loc \<and> (active_only \<longrightarrow> vc_status c = ''ACTIVE''))
       (volume_copies d))"

text \<open>\<open>json.dumps\<close> of a string: quote, backslash and control characters escaped, other characters
  beyond ASCII as code point escapes.\<close>

definition hex_digit :: "nat \<Rightarrow> char" where
  "hex_digit n = ''0123456789abcdef'' ! (n mod 16)"

definition json_char :: "char \<Rightarrow> string" where
  "json_char c =
     (if code c = 34 then [CHR 92, c]
      else if code c = 92 then [CHR 92, c]
      else if code c = 10 then [CHR 92, CHR ''n'']
      else if code c = 13 then [CHR 92, CHR ''r'']
      else if code c = 9 then [CHR 92, CHR ''t'']
      else if code c = 8 then [CHR 92, CHR ''b'']
      else if code c = 12 then [CHR 92, CHR ''f'']
      else if code c < 32 \<or> 126 < code c
      then [CHR 92, CHR ''u'', CHR ''0'', CHR ''0'', hex_digit (code c div 16), hex_digit (code c)]
      else [c])"

definition json_string :: "string \<Rightarrow> string" where
  "json_string s = [CHR 34] @ concat (map json_char s) @ [CHR 34]"

definition move_detail :: "string \<Rightarrow> string \<Rightarrow> string" where
  "move_detail from_location to_location =
     ''{'' @ json_string ''from_location'' @ '': '' @ json_string from_location @ '', '' @
     json_string ''to_location'' @ '': '' @ json_string to_location @ ''}''"

definition on_integrity_error :: "'a dbop \<Rightarrow> db_error \<Rightarrow> 'a dbop" where
  "on_integrity_error m e c =
     (case m c of (Inl Integrity_error, c') \<Rightarrow> (Inl e, c') | r \<Rightarrow> r)"

definition move_copies :: "string \<Rightarrow> int \<Rightarrow> string \<Rightarrow> string \<Rightarrow> catalog \<Rightarrow> nat \<times> catalog" where
  "move_copies now volume_id from_location to_location d =
     (let P = (\<lambda>c. vc_volume_id c = volume_id \<and> vc_location c = from_location \<and> vc_status c = ''ACTIVE'') in
      (sql_count P (volume_copies d),
       d\<lparr>volume_copies := sql_update P (\<lambda>c. c\<lparr>vc_location := to_location,
           vc_notes := vc_notes c @ ''Moved from '' @ from_location @ '' on '' @ now @ [CHR 10]\<rparr>)
           (volume_copies d)\<rparr>))"

definition move_volume_copy :: "int \<Rightarrow> string \<Rightarrow> string \<Rightarrow> unit dbop" where
  "move_volume_copy volume_id from_location to_location =
     op_bind (op_clock now_iso) (\<lambda>now.
     op_bind (on_integrity_error (op_dml (move_copies now volume_id from_location to_location))
                (Copy_already_at volume_id to_location)) (\<lambda>n.
     op_bind (op_raise_if (n = 0) (No_active_copy volume_id from_location)) (\<lambda>_.
     op_bind (op_dml (insert_event volume_id ''LOCATION_MOVE'' now (Some to_location)
                (move_detail from_location to_location))) (\<lambda>_.
     op_commit))))"

definition set_copies :: "(volume_copy \<Rightarrow> bool) \<Rightarrow> (volume_copy \<Rightarrow> volume_copy) \<Rightarrow> catalog \<Rightarrow> nat \<times> catalog" where
  "set_copies P f d = (sql_count P (volume_copies d), d\<lparr>volume_copies := sql_update P f (volume_copies d)\<rparr>)"

definition active_at :: "int \<Rightarrow> string \<Rightarrow> volume_copy \<Rightarrow> bool" where
  "active_at volume_id loc c \<longleftrightarrow>
     vc_volume_id c = volume_id \<and> vc_location c = loc \<and> vc_status c = ''ACTIVE''"

definition touch_last_verified :: "int \<Rightarrow> string \<Rightarrow> bool \<Rightarrow> bool dbop" where
  "touch_last_verified volume_id loc commit =
     op_bind (op_clock now_iso) (\<lambda>now.
     op_bind (op_dml (set_copies (active_at volume_id loc) (\<lambda>c. c\<lparr>vc_last_verified_at := Some now\<rparr>))) (\<lambda>n.
     op_bind (op_commit_if commit) (\<lambda>_.
     op_ret (n > 0))))"

definition stale_rank :: "string \<times> string \<times> string option \<Rightarrow> nat \<times> string \<times> string \<times> string" where
  "stale_rank r =
     (case r of (label, loc, t) \<Rightarrow>
        (case t of None \<Rightarrow> (0, [], label, loc) | Some t \<Rightarrow> (1, t, label, loc)))"

definition find_stale_copies :: "int \<Rightarrow> (string \<times> string \<times> string option) list dbop" where
  "find_stale_copies older_than_days =
     op_bind (op_clock (\<lambda>c. iso_days_ago c older_than_days)) (\<lambda>cutoff.
     op_query (\<lambda>d. sort_key stale_rank
       [(v_label v, vc_location c, vc_last_verified_at c). c \<leftarrow> volume_copies d, v \<leftarrow> volumes d,
          v_id v = vc_volume_id c \<and> vc_status c = ''ACTIVE'' \<and> in_service v \<and>
          (case vc_last_verified_at c of None \<Rightarrow> True | Some t \<Rightarrow> t < cutoff)]))"

definition demote_volume :: "int \<Rightarrow> catalog \<Rightarrow> nat \<times> catalog" where
  "demote_volume volume_id d =
     (let P = (\<lambda>v. v_id v = volume_id \<and> in_service v) in
      (sql_count P (volumes d),
       d\<lparr>volumes := sql_update P (\<lambda>v. v\<lparr>v_status := ''DEPRECATED''\<rparr>) (volumes d)\<rparr>))"

definition auto_deprecated_note :: "string \<Rightarrow> string \<Rightarrow> string" where
  "auto_deprecated_note action loc =
     AUTO_DEPRECATED_NOTE_PREFIX @ '' last in-service disc '' @ action @ '' at '' @ loc"

definition demote_volume_if_last_copy_lost :: "int \<Rightarrow> string \<Rightarrow> string \<Rightarrow> bool dbop" where
  "demote_volume_if_last_copy_lost volume_id loc action =
     op_bind (op_query (\<lambda>d. (length (copies_of d volume_id), length (active_copies_of d volume_id))))
       (\<lambda>(total, active).
     if total = 0 \<or> active > 0 then op_ret False
     else
       op_bind (op_dml (demote_volume volume_id)) (\<lambda>n.
       if n = 0 then op_ret False
       else
         op_bind (add_event volume_id ''NOTE'' (Some loc) (auto_deprecated_note action loc) None False)
           (\<lambda>_. op_ret True)))"

definition disc_fate_note :: "string \<Rightarrow> string \<Rightarrow> string" where
  "disc_fate_note loc fate = ''disc at '' @ loc @ '' recorded as '' @ fate"

definition record_disc_fate :: "int \<Rightarrow> string \<Rightarrow> string \<Rightarrow> unit dbop" where
  "record_disc_fate volume_id loc fate =
     op_bind (add_event volume_id ''NOTE'' (Some loc) (disc_fate_note loc fate) None False) (\<lambda>_. op_ret ())"

definition deprecate_copy :: "int \<Rightarrow> string \<Rightarrow> bool dbop" where
  "deprecate_copy volume_id loc =
     op_bind (op_dml (set_copies (active_at volume_id loc) (\<lambda>c. c\<lparr>vc_status := ''DEPRECATED''\<rparr>))) (\<lambda>n.
     op_bind (op_raise_if (n = 0) (No_active_copy volume_id loc)) (\<lambda>_.
     op_bind (record_disc_fate volume_id loc ''deprecated (out of service)'') (\<lambda>_.
     op_bind (demote_volume_if_last_copy_lost volume_id loc ''deprecated'') (\<lambda>demoted.
     op_bind op_commit (\<lambda>_.
     op_ret demoted)))))"

definition destroy_copy :: "int \<Rightarrow> string \<Rightarrow> bool \<Rightarrow> bool dbop" where
  "destroy_copy volume_id loc lost =
     op_bind (op_dml (set_copies (\<lambda>c. vc_volume_id c = volume_id \<and> vc_location c = loc)
       (\<lambda>c. c\<lparr>vc_status := ''DESTROYED''\<rparr>))) (\<lambda>n.
     op_bind (op_raise_if (n = 0) (No_copy volume_id loc)) (\<lambda>_.
     op_bind (record_disc_fate volume_id loc
       (if lost then ''lost (whereabouts unknown)'' else ''destroyed'')) (\<lambda>_.
     op_bind (demote_volume_if_last_copy_lost volume_id loc (if lost then ''lost'' else ''destroyed'')) (\<lambda>demoted.
     op_bind op_commit (\<lambda>_.
     op_ret demoted)))))"

section \<open>sessions.py\<close>

definition get_session :: "string \<Rightarrow> burn_session dbop" where
  "get_session session_id =
     op_bind (op_query (\<lambda>d. find (\<lambda>s. s_id s = session_id) (burn_sessions d))) (\<lambda>row.
     case row of None \<Rightarrow> op_raise (Session_not_found session_id) | Some s \<Rightarrow> op_ret s)"

text \<open>The session id is given: a caller that passes none uses \<open>generate_session_id()\<close>.\<close>

definition create_session :: "string \<Rightarrow> string \<Rightarrow> string \<Rightarrow> bool \<Rightarrow> burn_session dbop" where
  "create_session media_type staging_dir session_id commit =
     op_bind (op_clock now_sql) (\<lambda>now.
     op_bind (op_dml (\<lambda>d. ((), d\<lparr>burn_sessions := burn_sessions d @
       [\<lparr>s_id = session_id, s_created_at = now, s_media_type = media_type, s_status = ''STAGED'',
         s_staging_dir = staging_dir\<rparr>]\<rparr>))) (\<lambda>_.
     op_bind (op_commit_if commit) (\<lambda>_.
     get_session session_id)))"

definition get_latest_session :: "burn_session dbop" where
  "get_latest_session =
     op_bind (op_query (\<lambda>d. sort_desc_key s_created_at (burn_sessions d))) (\<lambda>rows.
     case rows of [] \<Rightarrow> op_raise No_sessions | s # _ \<Rightarrow> op_ret s)"

definition resolve_session_id :: "string \<Rightarrow> string dbop" where
  "resolve_session_id session_ref =
     (if session_ref = ''latest'' then op_bind get_latest_session (\<lambda>s. op_ret (s_id s))
      else op_bind (get_session session_ref) (\<lambda>_. op_ret session_ref))"

definition update_session_status :: "string \<Rightarrow> string \<Rightarrow> unit dbop" where
  "update_session_status session_id status =
     op_bind (op_dml (\<lambda>d. ((), d\<lparr>burn_sessions := sql_update (\<lambda>s. s_id s = session_id)
       (\<lambda>s. s\<lparr>s_status := status\<rparr>) (burn_sessions d)\<rparr>))) (\<lambda>_. op_commit)"

definition list_sessions :: "string option \<Rightarrow> burn_session list dbop" where
  "list_sessions status_filter =
     op_query (\<lambda>d. sort_key s_created_at (filter (\<lambda>s.
       case status_filter of None \<Rightarrow> True | Some x \<Rightarrow> x = [] \<or> s_status s = x) (burn_sessions d)))"

definition add_session_volume ::
  "string \<Rightarrow> int \<Rightarrow> string \<Rightarrow> string option \<Rightarrow> int option \<Rightarrow> bool \<Rightarrow> session_volume dbop" where
  "add_session_volume session_id volume_id iso_path iso_sha256 iso_size_bytes commit =
     (let row = \<lparr>sv_session_id = session_id, sv_volume_id = volume_id, sv_iso_path = iso_path,
                 sv_iso_sha256 = iso_sha256, sv_iso_size_bytes = iso_size_bytes\<rparr> in
      op_bind (op_dml (\<lambda>d. ((), d\<lparr>session_volumes := session_volumes d @ [row]\<rparr>))) (\<lambda>_.
      op_bind (op_commit_if commit) (\<lambda>_. op_ret row)))"

definition get_session_volumes :: "string \<Rightarrow> session_volume list dbop" where
  "get_session_volumes session_id =
     op_query (\<lambda>d. sort_key sv_volume_id
       (filter (\<lambda>x. sv_session_id x = session_id) (session_volumes d)))"

definition set_session_volume ::
  "string \<Rightarrow> int \<Rightarrow> (session_volume \<Rightarrow> session_volume) \<Rightarrow> catalog \<Rightarrow> unit \<times> catalog" where
  "set_session_volume session_id volume_id f d =
     ((), d\<lparr>session_volumes := sql_update (\<lambda>x. sv_session_id x = session_id \<and> sv_volume_id x = volume_id)
       f (session_volumes d)\<rparr>)"

definition update_session_volume_iso :: "string \<Rightarrow> int \<Rightarrow> string \<Rightarrow> string \<Rightarrow> int option \<Rightarrow> unit dbop" where
  "update_session_volume_iso session_id volume_id iso_path iso_sha256 iso_size_bytes =
     op_bind (op_dml (set_session_volume session_id volume_id (\<lambda>x. x\<lparr>sv_iso_path := iso_path,
       sv_iso_sha256 := Some iso_sha256, sv_iso_size_bytes := iso_size_bytes\<rparr>))) (\<lambda>_. op_commit)"

definition update_iso_sha256 :: "string \<Rightarrow> int \<Rightarrow> string \<Rightarrow> unit dbop" where
  "update_iso_sha256 session_id volume_id iso_sha256 =
     op_bind (op_dml (set_session_volume session_id volume_id (\<lambda>x. x\<lparr>sv_iso_sha256 := Some iso_sha256\<rparr>)))
       (\<lambda>_. op_commit)"

text \<open>\<open>with conn:\<close> commits on success and rolls back on an exception.\<close>

definition delete_session :: "string \<Rightarrow> unit dbop" where
  "delete_session session_id =
     op_on_error
       (op_bind (op_dml (\<lambda>d. ((), d\<lparr>session_volumes :=
          filter (\<lambda>x. sv_session_id x \<noteq> session_id) (session_volumes d)\<rparr>))) (\<lambda>_.
        op_bind (op_dml (\<lambda>d. ((), d\<lparr>burn_sessions :=
          filter (\<lambda>s. s_id s \<noteq> session_id) (burn_sessions d)\<rparr>))) (\<lambda>_.
        op_commit)))
       op_rollback"

end
