(* ===== verification/Catalog_Escrow.thy ===== *)
theory Catalog_Escrow
  imports Catalog_Volumes
begin

text \<open>
  \<open>db/key_escrow.py\<close>: the record of the password splits and the drift guard of the burn. A
  mapping argument is an association list with different keys. The text of a drift message is
  represented by the values it is built from.
\<close>

section \<open>os.path.normpath\<close>

fun norm_components :: "bool \<Rightarrow> string list \<Rightarrow> string list \<Rightarrow> string list" where
  "norm_components rooted acc [] = acc"
| "norm_components rooted acc (c # cs) =
     (if c = [] \<or> c = ''.'' then norm_components rooted acc cs
      else if c \<noteq> ''..'' \<or> (\<not> rooted \<and> acc = []) \<or> (acc \<noteq> [] \<and> last acc = ''..'')
      then norm_components rooted (acc @ [c]) cs
      else norm_components rooted (butlast acc) cs)"

definition normpath :: "string \<Rightarrow> string" where
  "normpath path =
     (let slashes = (if starts_with path ''//'' \<and> \<not> starts_with path ''///'' then ''//''
                     else if starts_with path ''/'' then ''/'' else []);
          p = slashes @ py_join ''/'' (norm_components (slashes \<noteq> []) [] (py_split_on (CHR ''/'') path))
      in if p = [] then ''.'' else p)"

section \<open>Records\<close>

definition table_exists :: "catalog \<Rightarrow> bool" where
  "table_exists d \<longleftrightarrow> key_escrows d \<noteq> None"

definition can_record_splits :: "bool dbop" where
  "can_record_splits = op_query table_exists"

definition find_split :: "string \<Rightarrow> catalog \<Rightarrow> key_escrow option" where
  "find_split repo_id d =
     (case key_escrows d of None \<Rightarrow> None | Some ks \<Rightarrow> find (\<lambda>k. k_repo_id k = repo_id) ks)"

definition get_split :: "string \<Rightarrow> key_escrow option dbop" where
  "get_split repo_id = op_query (find_split repo_id)"

definition put_split :: "key_escrow \<Rightarrow> catalog \<Rightarrow> unit \<times> catalog" where
  "put_split k d =
     ((), d\<lparr>key_escrows := map_option (\<lambda>ks.
        if k_repo_id k \<in> k_repo_id ` set ks then sql_update (\<lambda>r. k_repo_id r = k_repo_id k) (\<lambda>_. k) ks
        else ks @ [k]) (key_escrows d)\<rparr>)"

definition record_split ::
  "string \<Rightarrow> int \<Rightarrow> int \<Rightarrow> int \<Rightarrow> string option \<Rightarrow> bool \<Rightarrow> key_escrow dbop" where
  "record_split repo_id threshold shares slip39_id split_at commit =
     op_bind (op_clock now_iso) (\<lambda>now.
     op_bind (op_query table_exists) (\<lambda>there.
     op_bind (op_raise_if (\<not> there) Operational_error) (\<lambda>_.
     op_bind (op_dml (put_split \<lparr>k_repo_id = repo_id, k_threshold = threshold, k_shares = shares,
       k_slip39_id = slip39_id, k_split_at = (case split_at of None \<Rightarrow> now | Some t \<Rightarrow> t)\<rparr>)) (\<lambda>_.
     op_bind (op_commit_if commit) (\<lambda>_.
     op_bind (get_split repo_id) (\<lambda>got.
     case got of None \<Rightarrow> op_raise Assertion_failed | Some k \<Rightarrow> op_ret k))))))"

definition clear_split :: "string \<Rightarrow> bool \<Rightarrow> unit dbop" where
  "clear_split repo_id commit =
     op_bind (op_query table_exists) (\<lambda>there.
     if \<not> there then op_ret ()
     else
       op_bind (op_dml (\<lambda>d. ((), d\<lparr>key_escrows :=
         map_option (filter (\<lambda>k. k_repo_id k \<noteq> repo_id)) (key_escrows d)\<rparr>))) (\<lambda>_.
       op_commit_if commit))"

definition repo_name :: "string \<Rightarrow> catalog \<Rightarrow> string option" where
  "repo_name repo_id d = map_option r_name (find (\<lambda>r. r_id r = repo_id) (repositories d))"

definition get_split_for_repo :: "string \<Rightarrow> catalog \<Rightarrow> key_escrow option" where
  "get_split_for_repo repo_id d =
     (case find_split repo_id d of
        Some k \<Rightarrow> Some k
      | None \<Rightarrow>
          (case repo_name repo_id d of
             None \<Rightarrow> None
           | Some name \<Rightarrow> if name = repo_id then None else find_split name d))"

section \<open>Configuration keys\<close>

definition config_key :: "(string \<times> string) list \<Rightarrow> repository \<Rightarrow> string option" where
  "config_key mirrors r =
     (let by_path = foldl (\<lambda>m (key, path). dict_put (normpath path) key m) [] mirrors;
          by_lower = foldl (\<lambda>m (key, path). dict_put (py_lower key) key m) [] mirrors
      in case map_of by_path (normpath (r_mirror_path r)) of
           Some key \<Rightarrow> Some key
         | None \<Rightarrow>
             if r_name r \<in> fst ` set mirrors then Some (r_name r)
             else map_of by_lower (py_lower (r_name r)))"

definition config_names_by_repo_id :: "(string \<times> string) list \<Rightarrow> catalog \<Rightarrow> (string \<times> string) list" where
  "config_names_by_repo_id mirrors d =
     foldl (\<lambda>out r. case config_key mirrors r of None \<Rightarrow> out | Some key \<Rightarrow> dict_put (r_id r) key out)
       [] (repositories d)"

definition recorded_splits :: "(string \<times> string) list \<Rightarrow> catalog \<Rightarrow> (string \<times> int \<times> int) list" where
  "recorded_splits config_names d =
     foldl (\<lambda>out (repo_id, key).
         case get_split_for_repo repo_id d of
           None \<Rightarrow> out
         | Some k \<Rightarrow> dict_put key (k_threshold k, k_shares k) out) [] config_names"

definition recorded_splits_by_name ::
  "(string \<times> string) list \<Rightarrow> catalog \<Rightarrow> (string \<times> int \<times> int) list" where
  "recorded_splits_by_name mirrors d =
     (let names = config_names_by_repo_id mirrors d;
          matched = snd ` set names
      in foldl (\<lambda>out key.
           if key \<in> fst ` set out \<or> key \<in> matched then out
           else case find_split key d of
                  None \<Rightarrow> out
                | Some k \<Rightarrow> dict_put key (k_threshold k, k_shares k) out)
         (recorded_splits names d) (map fst mirrors))"

section \<open>Drift\<close>

datatype escrow_drift =
    No_recorded_split string string int int
  | Split_mismatch string string "int \<times> int" "int \<times> int" string
  | Split_superseded string string "int \<times> int" string

definition repo_drift ::
  "(string \<Rightarrow> bool \<times> int \<times> int) option \<Rightarrow> bool \<times> int \<times> int \<Rightarrow> (string \<times> string) list \<Rightarrow> catalog
     \<Rightarrow> string \<Rightarrow> escrow_drift option" where
  "repo_drift split_for defaults config_names d repo_id =
     (let record = get_split_for_repo repo_id d;
          name = (case repo_name repo_id d of None \<Rightarrow> repo_id | Some n \<Rightarrow> if n = [] then repo_id else n);
          key = (case map_of config_names repo_id of None \<Rightarrow> name | Some k \<Rightarrow> k)
      in case (case split_for of None \<Rightarrow> defaults | Some f \<Rightarrow> f key) of
           (split, threshold, shares) \<Rightarrow>
             if split then
               (case record of
                  None \<Rightarrow> Some (No_recorded_split name key threshold shares)
                | Some k \<Rightarrow>
                    if (k_threshold k, k_shares k) \<noteq> (threshold, shares)
                    then Some (Split_mismatch name key (threshold, shares)
                      (k_threshold k, k_shares k) (k_split_at k))
                    else None)
             else map_option (\<lambda>k. Split_superseded name key (k_threshold k, k_shares k) (k_split_at k)) record)"

fun first_some :: "('a \<Rightarrow> 'b option) \<Rightarrow> 'a list \<Rightarrow> 'b option" where
  "first_some f [] = None"
| "first_some f (x # xs) = (case f x of None \<Rightarrow> first_some f xs | Some y \<Rightarrow> Some y)"

definition detect_escrow_drift ::
  "string list \<Rightarrow> bool \<times> int \<times> int \<Rightarrow> (string \<Rightarrow> bool \<times> int \<times> int) option \<Rightarrow> (string \<times> string) list
     \<Rightarrow> escrow_drift option dbop" where
  "detect_escrow_drift repo_ids defaults split_for config_names =
     op_query (\<lambda>d. first_some (repo_drift split_for defaults config_names d) (sort (remdups repo_ids)))"

lemma first_some_None [simp]: "first_some f xs = None \<longleftrightarrow> (\<forall>x\<in>set xs. f x = None)"
  by (induction xs) (auto split: option.splits)

end
