(* ===== verification/Catalog_Steps.thy ===== *)
theory Catalog_Steps
  imports Catalog_Order Catalog_Escrow
begin

text \<open>
  The catalog as a state machine: \<open>catalog_step\<close> has one rule per operation of the \<open>db\<close> package
  that changes the catalog (status changes without \<open>force\<close>), succeeding or raising, and one for a
  connection that is dropped. \<open>evolves\<close> relates an earlier to a later catalog and is shown to hold
  along every run: volumes keep their identity and move along the legal status changes, ids are
  not reused, packs are never forgotten or altered, and events are never rewritten while their
  volume exists.
\<close>

section \<open>Status changes\<close>

inductive status_step :: "string \<Rightarrow> string \<Rightarrow> bool" where
  allowed: "t \<in> set (VALID_TRANSITIONS s) \<Longrightarrow> status_step s t"
| last_disc_lost: "s \<notin> {''DEPRECATED'', ''DESTROYED''} \<Longrightarrow> status_step s ''DEPRECATED''"

inductive_cases status_stepE: "status_step s t"

lemma status_step_destroyed: "\<not> status_step ''DESTROYED'' t"
  by (auto simp: VALID_TRANSITIONS_def elim!: status_stepE)

lemma status_step_deprecated: "status_step ''DEPRECATED'' t \<longleftrightarrow> t = ''DESTROYED''"
  by (auto simp: VALID_TRANSITIONS_def intro: status_step.allowed elim!: status_stepE)

lemma status_steps_destroyed: "status_step\<^sup>*\<^sup>* ''DESTROYED'' t \<Longrightarrow> t = ''DESTROYED''"
  by (auto simp: status_step_destroyed elim: converse_rtranclpE)

lemma status_steps_deprecated:
  "status_step\<^sup>*\<^sup>* ''DEPRECATED'' t \<Longrightarrow> t = ''DEPRECATED'' \<or> t = ''DESTROYED''"
  by (metis converse_rtranclpE status_step_deprecated status_steps_destroyed)

definition verified_statuses :: "string set" where
  "verified_statuses = {''VERIFIED'', ''CONSOLIDATING'', ''DEPRECATED'', ''DESTROYED''}"

lemma status_step_verified: "status_step s t \<Longrightarrow> s \<in> verified_statuses \<Longrightarrow> t \<in> verified_statuses"
  by (auto simp: VALID_TRANSITIONS_def verified_statuses_def elim!: status_stepE)

lemma status_steps_verified: "status_step\<^sup>*\<^sup>* s t \<Longrightarrow> s \<in> verified_statuses \<Longrightarrow> t \<in> verified_statuses"
  by (induction rule: rtranclp_induct) (auto intro: status_step_verified)

section \<open>Evolution of a catalog\<close>

definition same_volume :: "volume \<Rightarrow> volume \<Rightarrow> bool" where
  "same_volume v w \<longleftrightarrow> v_id v = v_id w \<and> v_label v = v_label w \<and> v_uuid v = v_uuid w \<and>
     v_media_type v = v_media_type w \<and> v_capacity_bytes v = v_capacity_bytes w \<and>
     v_created_at v = v_created_at w"

definition volumes_evolve :: "catalog \<Rightarrow> catalog \<Rightarrow> bool" where
  "volumes_evolve d d' \<longleftrightarrow> seq_volumes d \<le> seq_volumes d' \<and>
     (\<forall>w\<in>set (volumes d'). v_id w \<le> seq_volumes d \<longrightarrow>
        (\<exists>v\<in>set (volumes d). same_volume v w \<and> status_step\<^sup>*\<^sup>* (v_status v) (v_status w)))"

definition same_pack :: "pack \<Rightarrow> pack \<Rightarrow> bool" where
  "same_pack p q \<longleftrightarrow> p_id p = p_id q \<and> p_sha256 p = p_sha256 q \<and> p_size_bytes p = p_size_bytes q \<and>
     p_repo_id p = p_repo_id q \<and> p_created_at p = p_created_at q"

definition packs_evolve :: "catalog \<Rightarrow> catalog \<Rightarrow> bool" where
  "packs_evolve d d' \<longleftrightarrow> (\<forall>p\<in>set (packs d). \<exists>q\<in>set (packs d'). same_pack p q)"

definition same_event :: "volume_event \<Rightarrow> volume_event \<Rightarrow> bool" where
  "same_event e f \<longleftrightarrow> e_id e = e_id f \<and> e_volume_id e = e_volume_id f \<and> e_type e = e_type f \<and>
     e_date e = e_date f \<and> e_detail e = e_detail f \<and> (e_location e = None \<longleftrightarrow> e_location f = None)"

definition events_evolve :: "catalog \<Rightarrow> catalog \<Rightarrow> bool" where
  "events_evolve d d' \<longleftrightarrow>
     (\<forall>e\<in>set (volume_events d). e_volume_id e \<in> v_id ` set (volumes d') \<longrightarrow>
        (\<exists>f\<in>set (volume_events d'). same_event e f))"

definition evolves :: "catalog \<Rightarrow> catalog \<Rightarrow> bool" where
  "evolves d d' \<longleftrightarrow> volumes_evolve d d' \<and> packs_evolve d d' \<and> events_evolve d d'"

lemma same_refl [simp]: "same_volume v v" "same_pack p p" "same_event e e"
  by (simp_all add: same_volume_def same_pack_def same_event_def)

lemma same_trans:
  "same_volume a b \<Longrightarrow> same_volume b c \<Longrightarrow> same_volume a c"
  "same_pack p q \<Longrightarrow> same_pack q r \<Longrightarrow> same_pack p r"
  "same_event e f \<Longrightarrow> same_event f g \<Longrightarrow> same_event e g"
  by (simp_all add: same_volume_def same_pack_def same_event_def)

lemma volumes_evolve_trans:
  assumes "volumes_evolve a b" "volumes_evolve b c" shows "volumes_evolve a c"
  unfolding volumes_evolve_def
proof (intro conjI ballI impI)
  show "seq_volumes a \<le> seq_volumes c" using assms by (simp add: volumes_evolve_def)
  fix w assume w: "w \<in> set (volumes c)" "v_id w \<le> seq_volumes a"
  then obtain v where v: "v \<in> set (volumes b)" "same_volume v w" "status_step\<^sup>*\<^sup>* (v_status v) (v_status w)"
    using assms by (force simp: volumes_evolve_def)
  then obtain u where "u \<in> set (volumes a)" "same_volume u v" "status_step\<^sup>*\<^sup>* (v_status u) (v_status v)"
    using assms(1) w(2) by (force simp: volumes_evolve_def same_volume_def)
  then show "\<exists>u\<in>set (volumes a). same_volume u w \<and> status_step\<^sup>*\<^sup>* (v_status u) (v_status w)"
    using v by (meson rtranclp_trans same_trans(1))
qed

lemma events_evolve_trans:
  assumes "schema_ok a" "volumes_evolve a b" "volumes_evolve b c" "events_evolve a b" "events_evolve b c"
  shows "events_evolve a c"
  unfolding events_evolve_def
proof (intro ballI impI)
  fix e assume e: "e \<in> set (volume_events a)" "e_volume_id e \<in> v_id ` set (volumes c)"
  then obtain w where w: "w \<in> set (volumes c)" "v_id w = e_volume_id e" by force
  have "e_volume_id e \<in> v_id ` set (volumes a)"
    using assms(1) e by (auto simp: schema_ok_def events_ok_def list_all_iff)
  then have "e_volume_id e \<le> seq_volumes a"
    using assms(1) by (auto simp: schema_ok_def volumes_ok_def list_all_iff)
  then have "v_id w \<le> seq_volumes b" using assms(2) w by (simp add: volumes_evolve_def)
  then obtain v where "v \<in> set (volumes b)" "same_volume v w"
    using assms(3) w by (force simp: volumes_evolve_def)
  then have "e_volume_id e \<in> v_id ` set (volumes b)" using w by (force simp: same_volume_def)
  then obtain f where "f \<in> set (volume_events b)" "same_event e f"
    using assms(4) e by (force simp: events_evolve_def)
  moreover from this have "e_volume_id f \<in> v_id ` set (volumes c)" using e by (simp add: same_event_def)
  ultimately obtain g where "g \<in> set (volume_events c)" "same_event f g"
    using assms(5) unfolding events_evolve_def by blast
  then show "\<exists>g\<in>set (volume_events c). same_event e g"
    using \<open>same_event e f\<close> same_trans(3) by blast
qed

lemma evolves_frame:
  assumes "volumes d' = volumes d" "packs d' = packs d" "volume_events d' = volume_events d"
    "seq_volumes d' = seq_volumes d"
  shows "evolves d d'"
  unfolding evolves_def volumes_evolve_def packs_evolve_def events_evolve_def assms
  by (blast intro: same_refl)

interpretation ev: catalog_order evolves
proof unfold_locales
  show "evolves d d" for d by (rule evolves_frame) simp_all
  show "evolves a c" if "schema_ok a" "schema_ok b" "schema_ok c" "evolves a b" "evolves b c" for a b c
    using that volumes_evolve_trans [of a b c] events_evolve_trans [of a b c]
    unfolding evolves_def packs_evolve_def by (meson same_trans(2))
qed

section \<open>Statements\<close>

lemma evolvesI:
  assumes "seq_volumes d \<le> seq_volumes d'"
    "\<And>w. w \<in> set (volumes d') \<Longrightarrow> v_id w \<le> seq_volumes d \<Longrightarrow>
       \<exists>v\<in>set (volumes d). same_volume v w \<and> status_step\<^sup>*\<^sup>* (v_status v) (v_status w)"
    "\<And>p. p \<in> set (packs d) \<Longrightarrow> \<exists>q\<in>set (packs d'). same_pack p q"
    "\<And>e. e \<in> set (volume_events d) \<Longrightarrow> e_volume_id e \<in> v_id ` set (volumes d') \<Longrightarrow>
       \<exists>f\<in>set (volume_events d'). same_event e f"
  shows "evolves d d'"
  using assms by (simp add: evolves_def volumes_evolve_def packs_evolve_def events_evolve_def)

lemma same_in:
  "v \<in> A \<Longrightarrow> \<exists>w\<in>A. same_volume w v \<and> status_step\<^sup>*\<^sup>* (v_status w) (v_status v)"
  "p \<in> B \<Longrightarrow> \<exists>q\<in>B. same_pack p q" "e \<in> C \<Longrightarrow> \<exists>f\<in>C. same_event e f"
  by (blast intro: same_refl)+

lemma evolves_volumes:
  assumes "\<And>v. v \<in> set (volumes d) \<Longrightarrow> P v \<Longrightarrow> same_volume v (f v) \<and> status_step\<^sup>*\<^sup>* (v_status v) (v_status (f v))"
  shows "evolves d (snd (a, d\<lparr>volumes := sql_update P f (volumes d)\<rparr>))"
proof (rule evolvesI)
  fix w assume "w \<in> set (volumes (snd (a, d\<lparr>volumes := sql_update P f (volumes d)\<rparr>)))"
  then obtain v where "v \<in> set (volumes d)" "w = (if P v then f v else v)"
    by (auto simp: sql_update_def)
  then show "\<exists>v\<in>set (volumes d). same_volume v w \<and> status_step\<^sup>*\<^sup>* (v_status v) (v_status w)"
    using assms same_in(1) by (cases "P v") auto
qed (simp_all add: same_in)

lemma evolves_packs:
  assumes "volumes d' = volumes d" "volume_events d' = volume_events d" "seq_volumes d' = seq_volumes d"
    "\<And>p. p \<in> set (packs d) \<Longrightarrow> \<exists>q\<in>set (packs d'). same_pack p q"
  shows "evolves d d'"
  by (rule evolvesI) (simp_all add: assms same_in)

lemma evolves_insert_pack: "evolves d (snd (insert_pack now h n r d))"
  by (rule evolves_packs) (auto simp: insert_pack_def same_in)

lemma evolves_set_pruned: "evolves d (snd (set_pruned b P d))"
proof (rule evolves_packs)
  fix p assume "p \<in> set (packs d)"
  then show "\<exists>q\<in>set (packs (snd (set_pruned b P d))). same_pack p q"
    by (intro bexI [of _ "if P p then p\<lparr>p_is_pruned := b\<rparr> else p"])
      (auto simp: set_pruned_def sql_update_def same_pack_def)
qed (simp_all add: set_pruned_def)

lemma evolves_insert_event: "evolves d (snd (insert_event i t da l x d))"
  by (rule evolvesI) (auto simp: insert_event_def Let_def same_in)

lemma evolves_insert_volume: "schema_ok d \<Longrightarrow> evolves d (snd (insert_volume now a b c e f g d))"
  by (rule evolvesI) (auto simp: insert_volume_def Let_def same_in)

lemma evolves_delete_volume_row: "evolves d (snd (delete_volume_row i d))"
  by (rule evolvesI) (auto simp: delete_volume_row_def same_in)

lemma evolves_repoint: "evolves d (snd (repoint_location a b l d))"
proof (rule evolvesI)
  fix w assume "w \<in> set (volumes (snd (repoint_location a b l d)))"
  then obtain v where "v \<in> set (volumes d)" "w = (if v_location v = a then v\<lparr>v_location := b\<rparr> else v)"
    by (auto simp: repoint_location_def Let_def sql_update_def)
  then show "\<exists>v\<in>set (volumes d). same_volume v w \<and> status_step\<^sup>*\<^sup>* (v_status v) (v_status w)"
    by (intro bexI [of _ v]) (simp_all add: same_volume_def)
next
  fix e assume "e \<in> set (volume_events d)"
  then show "\<exists>f\<in>set (volume_events (snd (repoint_location a b l d))). same_event e f"
    by (intro bexI [of _ "if e_location e = Some a then e\<lparr>e_location := Some b\<rparr> else e"])
      (auto simp: repoint_location_def Let_def sql_update_def same_event_def)
qed (simp_all add: repoint_location_def Let_def same_in)

lemma evolves_demote_volume: "evolves d (snd (demote_volume i d))"
  unfolding demote_volume_def Let_def
  by (rule evolves_volumes)
    (auto simp: same_volume_def in_service_def intro: status_step.last_disc_lost)

lemmas evolves_statements = evolves_insert_pack evolves_set_pruned evolves_insert_event
  evolves_insert_volume evolves_delete_volume_row evolves_repoint evolves_demote_volume

section \<open>Operations\<close>

named_theorems ev_ops \<open>operations that carry the evolution of the catalog\<close>

lemma ev_reads [ev_ops]:
  "ev.op_keeps (get_location n)" "ev.op_keeps (get_repo r)" "ev.op_keeps (get_event i)"
  "ev.op_keeps (get_pack_by_sha256 h)" "ev.op_keeps (get_volume_by_id j)"
  "ev.op_keeps (get_session s)" "ev.op_keeps (get_split r)" "ev.op_keeps (location_references n)"
  "ev.op_keeps (check_deprecation_safe j)"
  unfolding get_location_def get_repo_def get_event_def get_pack_by_sha256_def get_volume_by_id_def
    get_session_def get_split_def location_references_def check_deprecation_safe_def
  by (intro ev.keeps_intros)+

lemma ev_dml [ev_ops]:
  "(\<And>d. schema_ok d \<Longrightarrow> evolves d (snd (f d))) \<Longrightarrow> ev.op_keeps (op_dml f)"
  by (rule ev.keeps_dml)

lemma ev_add_event [ev_ops]: "ev.op_keeps (add_event i t l x da b)"
  unfolding add_event_def by (intro ev.keeps_intros ev_ops evolves_statements)

lemma ev_on_integrity_error [ev_ops]: "ev.op_keeps m \<Longrightarrow> ev.op_keeps (on_integrity_error m e)"
  by (fastforce simp: ev.op_keeps_def on_integrity_error_def split: prod.splits sum.splits db_error.splits)

lemma ev_names:
  "ev.op_keeps (create_location n x)" "ev.op_keeps (ensure_location n x b)"
  "ev.op_keeps (resolve_location cm n b x)" "ev.op_keeps (delete_location n)"
  "ev.op_keeps (rename_location n n')" "ev.op_keeps (register_repo r n x k)"
  "ev.op_keeps (set_repo_status r x)" "ev.op_keeps (delete_repo r)"
  "ev.op_keeps (upsert_snapshot sn b)" "ev.op_keeps (bulk_upsert_snapshots sns b)"
  "ev.op_keeps (delete_snapshots_for_repo r)" "ev.op_keeps delete_blank_snapshots"
  unfolding create_location_def ensure_location_def resolve_location_def delete_location_def
    rename_location_def register_repo_def set_repo_status_def delete_repo_def upsert_snapshot_def
    bulk_upsert_snapshots_def delete_snapshots_for_repo_def delete_blank_snapshots_def
  by (intro ev.keeps_intros ev_ops evolves_statements evolves_frame; simp)+

lemma ev_mark_batches [ev_ops]: "ev.op_keeps (mark_batches bs n)"
  by (induction bs arbitrary: n) (auto intro!: ev.keeps_intros ev_ops evolves_statements)

lemma ev_packs:
  "ev.op_keeps (register_pack h n r)" "ev.op_keeps (mark_pruned i)" "ev.op_keeps (unmark_pruned i)"
  "ev.op_keeps (bulk_mark_pruned is)" "ev.op_keeps (bulk_register ps)"
  "ev.op_keeps (link_pack_to_volume i j)" "ev.op_keeps (bulk_link_packs i js b)"
  "ev.op_keeps (unlink_pack_from_volume i j)"
  unfolding register_pack_def mark_pruned_def unmark_pruned_def bulk_mark_pruned_def bulk_register_def
    link_pack_to_volume_def bulk_link_packs_def unlink_pack_from_volume_def
  by (intro ev.keeps_intros ev_ops evolves_statements evolves_frame; simp add: insert_link_def)+

lemma ev_set_volume:
  assumes "\<And>v. same_volume v (f v)" "\<And>v. v_status (f v) = v_status v"
  shows "ev.op_keeps (op_dml (set_volume i f))"
  unfolding set_volume_def by (intro ev_dml evolves_volumes) (simp add: assms)

lemma ev_volumes:
  "ev.op_keeps (create_volume a b x n l s k)" "ev.op_keeps (mark_closed i k)"
  "ev.op_keeps (update_used_bytes i n k)" "ev.op_keeps (delete_volume i)"
  unfolding create_volume_def mark_closed_def update_used_bytes_def delete_volume_def
  by (intro ev.keeps_intros ev_ops evolves_statements ev_set_volume evolves_frame;
      simp add: same_volume_def)+

lemma ev_demote [ev_ops]: "ev.op_keeps (demote_volume_if_last_copy_lost i l a)"
  unfolding demote_volume_if_last_copy_lost_def
  by (intro ev.keeps_intros ev_ops evolves_statements)

lemma ev_fate [ev_ops]: "ev.op_keeps (record_disc_fate i l a)"
  unfolding record_disc_fate_def by (intro ev.keeps_intros ev_ops)

lemma ev_copies:
  "ev.op_keeps (add_volume_copy i l t x h n w y k)" "ev.op_keeps (move_volume_copy i l l')"
  "ev.op_keeps (touch_last_verified i l k)" "ev.op_keeps (deprecate_copy i l)"
  "ev.op_keeps (destroy_copy i l k)"
  unfolding add_volume_copy_def move_volume_copy_def touch_last_verified_def deprecate_copy_def
    destroy_copy_def
  by (intro ev.keeps_intros ev_ops evolves_statements evolves_frame;
      simp add: upsert_copy_def move_copies_def set_copies_def Let_def)+

lemma ev_sessions:
  "ev.op_keeps (create_session a b s k)" "ev.op_keeps (update_session_status s x)"
  "ev.op_keeps (add_session_volume s i p h n k)" "ev.op_keeps (update_session_volume_iso s i p g n)"
  "ev.op_keeps (update_iso_sha256 s i g)" "ev.op_keeps (delete_session s)"
  "ev.op_keeps (record_split r i j l t k)" "ev.op_keeps (clear_split r k)"
  unfolding create_session_def update_session_status_def add_session_volume_def Let_def
    update_session_volume_iso_def update_iso_sha256_def delete_session_def record_split_def clear_split_def
  by (intro ev.keeps_intros ev_ops evolves_statements evolves_frame;
      simp add: set_session_volume_def put_split_def)+

text \<open>An unforced status change writes a legal successor of the status it has read.\<close>

lemma evolves_set_status:
  assumes "schema_ok d" "find (\<lambda>v. v_id v = i) (volumes d) = Some v" "status_step (v_status v) s"
    "\<And>w. same_volume w (f w)" "\<And>w. v_status (f w) = s"
  shows "evolves d (snd (set_volume i f d))"
  unfolding set_volume_def
proof (rule evolves_volumes)
  fix w assume w: "w \<in> set (volumes d)" "v_id w = i"
  moreover have "v \<in> set (volumes d)" "v_id v = i"
    using assms(2) by (auto simp: find_Some_iff)
  moreover have "distinct (map v_id (volumes d))"
    using assms(1) by (simp add: schema_ok_def volumes_ok_def)
  ultimately have "w = v" by (auto simp: distinct_map inj_on_def)
  then show "same_volume w (f w) \<and> status_step\<^sup>*\<^sup>* (v_status w) (v_status (f w))"
    using assms by auto
qed

lemma after_write_status:
  assumes "ev.after d0 c" "find (\<lambda>v. v_id v = i) (volumes (db c)) = Some v" "status_step (v_status v) s"
  shows "ev.after d0 (snd (write_status i x s k c))"
  unfolding write_status_def op_bind_simps
  by (intro ev.after_bind ev.after_dml assms(1) ev.keeps_intros ev_ops evolves_set_status [OF _ assms(2,3)])
    (simp_all add: same_volume_def)

lemma op_bind_savepoint: "op_bind (op_savepoint n) f c = f () (snd (op_savepoint n c))"
  by (simp add: op_bind_def op_savepoint_def)

lemma op_bind_raise: "op_bind (op_bind m (\<lambda>_. op_raise e)) f c = op_bind m (\<lambda>_. op_raise e) c"
  by (simp add: op_bind_def op_raise_def split: prod.splits sum.splits)

lemma after_deprecate_guarded:
  assumes "ev.after d0 c" "find (\<lambda>v. v_id v = i) (volumes (db c)) = Some v" "status_step (v_status v) s"
  shows "ev.after d0 (snd (deprecate_guarded i x s k c))"
proof -
  let ?c = "snd (op_savepoint ''deprecate_check'' c)"
  have c: "db ?c = db c" by (simp add: op_savepoint_def)
  have a: "ev.after d0 ?c" using ev.op_keepsD [OF ev.keeps_savepoint assms(1)] .
  have f: "find (\<lambda>v. v_id v = i) (volumes (db ?c)) = Some v" using assms(2) c by simp
  let ?safe = "\<lambda>_. op_bind (op_dml (set_volume i (\<lambda>v. v\<lparr>v_status := s\<rparr>))) (\<lambda>_.
        op_bind (op_release ''deprecate_check'') (\<lambda>_.
        op_bind (add_event i ''NOTE'' None (status_note x s) None False) (\<lambda>_. op_commit_if k)))"
  have "ev.after d0 (snd (?safe u ?c))" for u
    by (intro ev.after_bind ev.after_dml a ev.keeps_intros ev_ops evolves_set_status [OF _ f assms(3)])
      (simp_all add: same_volume_def)
  moreover have "ev.after d0 (snd (op_bind (op_rollback_to ''deprecate_check'') (\<lambda>_. op_raise e) ?c))" for e
    by (rule ev.op_keepsD [OF _ a]) (intro ev.keeps_intros)
  ultimately have "ev.after d0 (snd (op_bind (check_deprecation_safe i) (\<lambda>at_risk.
      op_bind (if at_risk \<noteq> [] then op_bind (op_rollback_to ''deprecate_check'')
                 (\<lambda>_. op_raise (Deprecation_unsafe i (length at_risk))) else op_ret ()) ?safe) ?c))"
    by (simp only: check_deprecation_safe_def op_bind_simps op_bind_raise split: if_split) blast
  then show ?thesis
    unfolding deprecate_guarded_def op_bind_savepoint
    by (rule ev.after_on_error) (rule ev.keeps_rollback_to)
qed

lemma ev_update_status: "ev.op_keeps (update_status i s k False)"
proof (rule ev.op_keepsI)
  fix d0 c assume a: "ev.after d0 c"
  show "ev.after d0 (snd (update_status i s k False c))"
  proof (cases "find (\<lambda>v. v_id v = i) (volumes (db c))")
    case None
    then show ?thesis using a
      by (simp add: update_status_def get_volume_by_id_def op_bind_def op_query_def op_raise_def)
  next
    case (Some v)
    have g: "get_volume_by_id i c = (Inr v, c)"
      using Some by (simp add: get_volume_by_id_def op_bind_def op_query_def op_ret_def)
    show ?thesis
    proof (cases "s \<in> set (VALID_TRANSITIONS (v_status v))")
      case True
      then have "status_step (v_status v) s" by (rule status_step.allowed)
      then show ?thesis
        using after_write_status [OF a Some] after_deprecate_guarded [OF a Some] g True
        by (auto simp: update_status_def op_bind_def op_raise_if_def op_ret_def Let_def)
    next
      case False
      then show ?thesis
        using a g by (simp add: update_status_def op_bind_def op_raise_if_def op_raise_def Let_def)
    qed
  qed
qed

section \<open>Runs\<close>

inductive catalog_step :: "connection \<Rightarrow> connection \<Rightarrow> bool" where
  create_location_step: "catalog_step c (snd (create_location n x c))"
| ensure_location_step: "catalog_step c (snd (ensure_location n x k c))"
| resolve_location_step: "catalog_step c (snd (resolve_location cm n k x c))"
| delete_location_step: "catalog_step c (snd (delete_location n c))"
| rename_location_step: "catalog_step c (snd (rename_location n n' c))"
| register_repo_step: "catalog_step c (snd (register_repo r n x y c))"
| set_repo_status_step: "catalog_step c (snd (set_repo_status r x c))"
| delete_repo_step: "catalog_step c (snd (delete_repo r c))"
| upsert_snapshot_step: "catalog_step c (snd (upsert_snapshot sn k c))"
| bulk_upsert_snapshots_step: "catalog_step c (snd (bulk_upsert_snapshots sns k c))"
| delete_snapshots_step: "catalog_step c (snd (delete_snapshots_for_repo r c))"
| delete_blank_step: "catalog_step c (snd (delete_blank_snapshots c))"
| add_event_step: "catalog_step c (snd (add_event i t l x da k c))"
| register_pack_step: "catalog_step c (snd (register_pack h n' r c))"
| mark_pruned_step: "catalog_step c (snd (mark_pruned i c))"
| unmark_pruned_step: "catalog_step c (snd (unmark_pruned i c))"
| bulk_mark_pruned_step: "catalog_step c (snd (bulk_mark_pruned js c))"
| bulk_register_step: "catalog_step c (snd (bulk_register ps c))"
| link_pack_step: "catalog_step c (snd (link_pack_to_volume i j c))"
| bulk_link_packs_step: "catalog_step c (snd (bulk_link_packs i js k c))"
| unlink_pack_step: "catalog_step c (snd (unlink_pack_from_volume i j c))"
| create_volume_step: "catalog_step c (snd (create_volume a b x j l s k c))"
| update_status_step: "catalog_step c (snd (update_status i s k False c))"
| mark_closed_step: "catalog_step c (snd (mark_closed i k c))"
| update_used_bytes_step: "catalog_step c (snd (update_used_bytes i j k c))"
| delete_volume_step: "catalog_step c (snd (delete_volume i c))"
| add_volume_copy_step: "catalog_step c (snd (add_volume_copy i l' da x h sz w y k c))"
| move_volume_copy_step: "catalog_step c (snd (move_volume_copy i n n' c))"
| touch_last_verified_step: "catalog_step c (snd (touch_last_verified i n k c))"
| deprecate_copy_step: "catalog_step c (snd (deprecate_copy i n c))"
| destroy_copy_step: "catalog_step c (snd (destroy_copy i n k c))"
| create_session_step: "catalog_step c (snd (create_session x y s k c))"
| update_session_status_step: "catalog_step c (snd (update_session_status s x c))"
| add_session_volume_step: "catalog_step c (snd (add_session_volume s i x h sz k c))"
| update_session_volume_iso_step: "catalog_step c (snd (update_session_volume_iso s i x y sz c))"
| update_iso_sha256_step: "catalog_step c (snd (update_iso_sha256 s i y c))"
| delete_session_step: "catalog_step c (snd (delete_session s c))"
| record_split_step: "catalog_step c (snd (record_split r i j j' da k c))"
| clear_split_step: "catalog_step c (snd (clear_split r k c))"
| commit_step: "catalog_step c (snd (op_commit c))"
| dropped_step: "catalog_step c (snd (op_rollback c))"

lemma catalog_step_after: "catalog_step c c' \<Longrightarrow> ev.after d0 c \<Longrightarrow> ev.after d0 c'"
  by (erule catalog_step.cases; hypsubst; erule ev.op_keepsD [rotated];
      (intro ev_names ev_packs ev_volumes ev_copies ev_sessions ev_update_status ev_add_event
         ev.keeps_commit ev.keeps_rollback))

lemma catalog_run_after: "catalog_step\<^sup>*\<^sup>* c c' \<Longrightarrow> ev.after d0 c \<Longrightarrow> ev.after d0 c'"
  by (induction rule: rtranclp_induct) (auto intro: catalog_step_after)

end
