(* ===== verification/Catalog_Runs.thy ===== *)
theory Catalog_Runs
  imports Catalog_Steps
begin

text \<open>
  What holds along every run of catalog operations: the properties of \<open>evolves\<close>, read off the
  catalog on disk at any later point of the run.
\<close>

text \<open>A connection as it is opened: nothing pending, the catalog on disk meets the schema.\<close>

definition clean :: "connection \<Rightarrow> bool" where
  "clean c \<longleftrightarrow> conn_ok c \<and> \<not> in_tx c"

definition open_connection :: "catalog \<Rightarrow> connection" where
  "open_connection d = \<lparr>db = d, durable = d, in_tx = False, tx_by_savepoint = False, savepoints = [],
     now_iso = ''2026-01-02T03:04:05+00:00'', now_sql = ''2026-01-02 03:04:05'',
     sql_hours_ago = (\<lambda>_. ''2026-01-01 03:04:05''), iso_days_ago = (\<lambda>_. ''2025-12-01T00:00:00+00:00'')\<rparr>"

lemma clean_open: "clean (open_connection d) \<longleftrightarrow> schema_ok d"
  by (simp add: clean_def conn_ok_def catalogs_of_def open_connection_def)

lemma clean_after: "clean c \<Longrightarrow> ev.after (db c) c"
  by (auto simp: clean_def ev.after_def conn_ok_def catalogs_of_def intro: ev.order_refl)

lemma catalog_run_evolves:
  assumes "clean c" "catalog_step\<^sup>*\<^sup>* c c'"
  shows "evolves (db c) (durable c')" "conn_ok c'"
  using catalog_run_after [OF assms(2) clean_after [OF assms(1)]]
  by (simp_all add: ev.after_def catalogs_of_def)

lemma schema_volume_id:
  "schema_ok d \<Longrightarrow> v \<in> set (volumes d) \<Longrightarrow> v_id v \<le> seq_volumes d"
  by (auto simp: schema_ok_def volumes_ok_def list_all_iff)

lemma schema_volume_unique:
  "schema_ok d \<Longrightarrow> v \<in> set (volumes d) \<Longrightarrow> w \<in> set (volumes d) \<Longrightarrow> v_id v = v_id w \<Longrightarrow> v = w"
  by (auto simp: schema_ok_def volumes_ok_def distinct_map inj_on_def)

text \<open>A small catalog for the witnesses: one repository, one location, a verified volume with its
  disc, a staged volume, and a pack on both.\<close>

definition demo_catalog :: catalog where
  "demo_catalog = empty_catalog\<lparr>
     repositories := [\<lparr>r_id = ''R'', r_name = ''docs'', r_mirror_path = ''/m'', r_encryption_key_id = [],
       r_created_at = ''t0'', r_status = ''active''\<rparr>],
     locations := [\<lparr>l_name = ''Home'', l_created_at = ''t0'', l_description = []\<rparr>],
     volumes :=
       [\<lparr>v_id = 1, v_label = ''A1'', v_uuid = ''u1'', v_media_type = ''BD25'', v_capacity_bytes = 100,
         v_used_bytes = 7, v_location = ''Home'', v_status = ''VERIFIED'', v_created_at = ''t1'',
         v_closed_at = None, v_verified_at = Some ''t2''\<rparr>,
        \<lparr>v_id = 2, v_label = ''A2'', v_uuid = ''u2'', v_media_type = ''BD25'', v_capacity_bytes = 100,
         v_used_bytes = 7, v_location = ''Home'', v_status = ''STAGING'', v_created_at = ''t3'',
         v_closed_at = None, v_verified_at = None\<rparr>],
     packs := [\<lparr>p_id = 1, p_sha256 = ''aa'', p_size_bytes = 7, p_repo_id = ''R'', p_is_pruned = False,
       p_created_at = ''t0''\<rparr>],
     volume_packs := [(1, 1), (2, 1)],
     volume_copies := [\<lparr>vc_id = 1, vc_volume_id = 1, vc_location = ''Home'', vc_status = ''ACTIVE'',
       vc_burn_date = ''t2'', vc_notes = [], vc_iso_sha256 = None, vc_last_verified_at = None,
       vc_media_serial = [], vc_iso_size_bytes = None\<rparr>],
     volume_events := [\<lparr>e_id = 1, e_volume_id = 1, e_type = ''VERIFY_PASS'', e_date = ''t2'',
       e_location = Some ''Home'', e_detail = []\<rparr>],
     seq_volumes := 2, seq_packs := 1, seq_copies := 1, seq_events := 1\<rparr>"

lemma demo_ok [simp]: "schema_ok demo_catalog" "clean (open_connection demo_catalog)"
  by (simp_all add: clean_open schema_ok_def volumes_ok_def packs_ok_def volume_packs_ok_def names_ok_def
      copies_ok_def sessions_ok_def events_ok_def demo_catalog_def empty_catalog_def
      VOLUME_STATUSES_def COPY_STATUSES_def EVENT_TYPES_def)

definition demo_run :: connection where
  "demo_run = snd (update_status 2 ''BURNING'' True False (open_connection demo_catalog))"

lemma demo_run: "catalog_step\<^sup>*\<^sup>* (open_connection demo_catalog) demo_run"
  unfolding demo_run_def by (intro r_into_rtranclp catalog_step.update_status_step)

section \<open>Properties\<close>

text \<open>
  C7. The life of a volume. Along any run of catalog operations without forced status changes, a
  volume row that is still on disk at the end is the row of the same id from the start: same
  label, UUID, medium, capacity and creation time, and a status reached over legal changes only.
  In particular a DESTROYED volume stays DESTROYED, a DEPRECATED one can only become DESTROYED, and
  one that was verified is never staged, burning or merely burned again.
\<close>

theorem volume_lifecycle:
  assumes "clean c" "catalog_step\<^sup>*\<^sup>* c c'"
    and "v \<in> set (volumes (db c))" "w \<in> set (volumes (durable c'))" "v_id v = v_id w"
  shows "same_volume v w \<and> status_step\<^sup>*\<^sup>* (v_status v) (v_status w) \<and>
     (if v_status v = ''DESTROYED'' then v_status w = ''DESTROYED'' else True) \<and>
     (if v_status v = ''DEPRECATED'' then v_status w \<in> {''DEPRECATED'', ''DESTROYED''} else True) \<and>
     (if v_status v = ''VERIFIED'' then v_status w \<in> verified_statuses else True)"
proof -
  have ok: "schema_ok (db c)" using assms(1) by (simp add: clean_def conn_ok_def catalogs_of_def)
  then have "v_id w \<le> seq_volumes (db c)" using assms(3,5) schema_volume_id by force
  then obtain u where u: "u \<in> set (volumes (db c))" "same_volume u w" "status_step\<^sup>*\<^sup>* (v_status u) (v_status w)"
    using catalog_run_evolves(1) [OF assms(1,2)] assms(4) by (force simp: evolves_def volumes_evolve_def)
  then have "u = v" using schema_volume_unique [OF ok u(1) assms(3)] assms(5) by (simp add: same_volume_def)
  then show ?thesis
    using u status_steps_destroyed [of "v_status w"] status_steps_deprecated [of "v_status w"]
      status_steps_verified [of "v_status v" "v_status w"]
    by (auto simp: verified_statuses_def)
qed

theorem volume_lifecycle_witness:
  "same_volume (volumes demo_catalog ! 1) (volumes (durable demo_run) ! 1) \<and>
   v_status (volumes (durable demo_run) ! 1) = ''BURNING''"
proof -
  have "same_volume (volumes demo_catalog ! 1) (volumes (durable demo_run) ! 1)"
    by (rule conjunct1 [OF volume_lifecycle [OF demo_ok(2) demo_run]]) (code_simp+)
  moreover have "v_status (volumes (durable demo_run) ! 1) = ''BURNING''" by code_simp
  ultimately show ?thesis by blast
qed



end
