(* ===== verification/Catalog_Schema.thy ===== *)
theory Catalog_Schema
  imports Catalog_Runs
begin

text \<open>
  Statements that cannot violate a constraint, so that the operations built from them succeed: a
  lemma per statement that the schema holds afterwards, and the resulting run of the statement.
\<close>

lemmas schema_defs = schema_ok_def volumes_ok_def packs_ok_def volume_packs_ok_def names_ok_def
  copies_ok_def sessions_ok_def events_ok_def

lemma ids_sql_update: "(\<And>r. k (f r) = k r) \<Longrightarrow> k ` set (sql_update P f rows) = k ` set rows"
  by (metis list.set_map map_sql_update)

lemma ball_sql_update:
  "(\<forall>r\<in>set (sql_update P f rows). Q r) \<longleftrightarrow> (\<forall>r\<in>set rows. if P r then Q (f r) else Q r)"
  by (auto simp: sql_update_def)

lemma schema_okI:
  "volumes_ok d \<Longrightarrow> packs_ok d \<Longrightarrow> volume_packs_ok d \<Longrightarrow> names_ok d \<Longrightarrow> copies_ok d \<Longrightarrow> sessions_ok d \<Longrightarrow>
     events_ok d \<Longrightarrow> schema_ok d"
  by (simp add: schema_ok_def)

lemma schema_okD:
  "schema_ok d \<Longrightarrow> volumes_ok d" "schema_ok d \<Longrightarrow> packs_ok d" "schema_ok d \<Longrightarrow> volume_packs_ok d"
  "schema_ok d \<Longrightarrow> names_ok d" "schema_ok d \<Longrightarrow> copies_ok d" "schema_ok d \<Longrightarrow> sessions_ok d"
  "schema_ok d \<Longrightarrow> events_ok d"
  by (simp_all add: schema_ok_def)

lemma schema_update_volumes:
  assumes ok: "schema_ok d" and f: "\<And>v. v_id (f v) = v_id v" "\<And>v. v_label (f v) = v_label v"
    "\<And>v. v_uuid (f v) = v_uuid v"
    and s: "\<And>v. v \<in> set (volumes d) \<Longrightarrow> P v \<Longrightarrow> v_status (f v) \<in> set VOLUME_STATUSES"
  shows "schema_ok (d\<lparr>volumes := sql_update P f (volumes d)\<rparr>)" (is "schema_ok ?d")
proof (rule schema_okI)
  show "volumes_ok ?d"
    using schema_okD(1) [OF ok] f s by (simp add: volumes_ok_def map_sql_update ball_sql_update list_all_iff)
  show "packs_ok ?d" using schema_okD(2) [OF ok] by (simp add: packs_ok_def)
  show "volume_packs_ok ?d" using schema_okD(3) [OF ok] by (simp add: volume_packs_ok_def ids_sql_update f)
  show "names_ok ?d" using schema_okD(4) [OF ok] by (simp add: names_ok_def)
  show "copies_ok ?d" using schema_okD(5) [OF ok] by (simp add: copies_ok_def ids_sql_update f)
  show "sessions_ok ?d" using schema_okD(6) [OF ok] by (simp add: sessions_ok_def ids_sql_update f)
  show "events_ok ?d" using schema_okD(7) [OF ok]
    by (simp add: events_ok_def ids_sql_update f cong: option.case_cong)
qed

lemma schema_update_copies:
  assumes ok: "schema_ok d" and f: "\<And>v. vc_id (f v) = vc_id v" "\<And>v. vc_volume_id (f v) = vc_volume_id v"
    "\<And>v. vc_location (f v) = vc_location v"
    and s: "\<And>v. v \<in> set (volume_copies d) \<Longrightarrow> P v \<Longrightarrow> vc_status (f v) \<in> set COPY_STATUSES"
  shows "schema_ok (d\<lparr>volume_copies := sql_update P f (volume_copies d)\<rparr>)" (is "schema_ok ?d")
proof (rule schema_okI)
  show "copies_ok ?d"
    using schema_okD(5) [OF ok] f s by (simp add: copies_ok_def map_sql_update ball_sql_update list_all_iff)
qed (use schema_okD [OF ok] in \<open>simp_all add: volumes_ok_def packs_ok_def volume_packs_ok_def names_ok_def
  sessions_ok_def events_ok_def cong: option.case_cong\<close>)

lemma schema_insert_event:
  assumes ok: "schema_ok d" and t: "t \<in> set EVENT_TYPES" and i: "i \<in> v_id ` set (volumes d)"
    and l: "case l of None \<Rightarrow> True | Some n \<Rightarrow> n \<in> l_name ` set (locations d)"
  shows "schema_ok (snd (insert_event i t da l x d))" (is "schema_ok ?d")
proof (rule schema_okI)
  have "\<forall>e\<in>set (volume_events d). e_id e \<le> seq_events d"
    using schema_okD(7) [OF ok] by (simp add: events_ok_def list_all_iff)
  then have "seq_events d + 1 \<notin> e_id ` set (volume_events d)" by force
  then show "events_ok ?d"
    using schema_okD(7) [OF ok] t i l
    by (auto simp: events_ok_def list_all_iff insert_event_def Let_def cong: option.case_cong)
qed (use schema_okD [OF ok] in \<open>simp_all add: volumes_ok_def packs_ok_def volume_packs_ok_def names_ok_def
  sessions_ok_def copies_ok_def insert_event_def Let_def cong: option.case_cong\<close>)

lemma schema_set_pruned:
  assumes ok: "schema_ok d" shows "schema_ok (snd (set_pruned b P d))" (is "schema_ok ?d")
proof (rule schema_okI)
  show "packs_ok ?d"
    using schema_okD(2) [OF ok]
    by (simp add: packs_ok_def set_pruned_def map_sql_update ball_sql_update list_all_iff)
  show "volume_packs_ok ?d"
    using schema_okD(3) [OF ok] by (simp add: volume_packs_ok_def set_pruned_def ids_sql_update)
qed (use schema_okD [OF ok] in \<open>simp_all add: volumes_ok_def names_ok_def
  sessions_ok_def copies_ok_def events_ok_def set_pruned_def cong: option.case_cong\<close>)

lemma schema_insert_pack:
  assumes ok: "schema_ok d" and r: "r \<in> r_id ` set (repositories d)"
  shows "schema_ok (snd (insert_pack now h n r d))" (is "schema_ok ?d")
proof (cases "h \<in> p_sha256 ` set (packs d)")
  case False
  show ?thesis
  proof (rule schema_okI)
    have "\<forall>p\<in>set (packs d). p_id p \<le> seq_packs d"
      using schema_okD(2) [OF ok] by (simp add: packs_ok_def list_all_iff)
    then have "seq_packs d + 1 \<notin> p_id ` set (packs d)" by force
    then show "packs_ok ?d"
      using schema_okD(2) [OF ok] r False by (auto simp: packs_ok_def list_all_iff insert_pack_def)
    show "volume_packs_ok ?d"
      using schema_okD(3) [OF ok] False by (auto simp: volume_packs_ok_def list_all_iff insert_pack_def)
  qed (use schema_okD [OF ok] False in \<open>simp_all add: volumes_ok_def names_ok_def
    sessions_ok_def copies_ok_def events_ok_def insert_pack_def cong: option.case_cong\<close>)
qed (simp add: insert_pack_def ok)

lemma schema_delete_session_volumes:
  assumes ok: "schema_ok d" shows "schema_ok (d\<lparr>session_volumes := filter P (session_volumes d)\<rparr>)"
  by (rule schema_okI; use schema_okD [OF ok] in \<open>auto simp: volumes_ok_def packs_ok_def volume_packs_ok_def
    names_ok_def copies_ok_def sessions_ok_def events_ok_def distinct_map_filter list_all_iff
    cong: option.case_cong\<close>)

lemma schema_delete_links:
  assumes ok: "schema_ok d" shows "schema_ok (d\<lparr>volume_packs := filter P (volume_packs d)\<rparr>)"
  by (rule schema_okI; use schema_okD [OF ok] in \<open>auto simp: volumes_ok_def packs_ok_def volume_packs_ok_def
    names_ok_def copies_ok_def sessions_ok_def events_ok_def list_all_iff cong: option.case_cong\<close>)

lemma schema_delete_volume_row:
  assumes ok: "schema_ok d" and no_session: "\<forall>x\<in>set (session_volumes d). sv_volume_id x \<noteq> i"
  shows "schema_ok (snd (delete_volume_row i d))" (is "schema_ok ?d")
proof (rule schema_okI)
  have e: "v_id ` (set (volumes d) \<inter> {v. v_id v \<noteq> i}) = v_id ` set (volumes d) - {i}"
    "v_id ` {v \<in> set (volumes d). v_id v \<noteq> i} = v_id ` set (volumes d) - {i}" by auto
  show "volume_packs_ok ?d" "copies_ok ?d" "sessions_ok ?d" "events_ok ?d"
    using schema_okD [OF ok] no_session
    by (auto simp: volume_packs_ok_def copies_ok_def sessions_ok_def events_ok_def delete_volume_row_def
      distinct_map_filter e list_all_iff cong: option.case_cong)
qed (use schema_okD [OF ok] in \<open>auto simp: volumes_ok_def packs_ok_def names_ok_def delete_volume_row_def
  distinct_map_filter list_all_iff cong: option.case_cong\<close>)

text \<open>A statement that keeps the schema runs.\<close>

lemma op_dml_runs:
  "schema_ok (snd (f (db c))) \<Longrightarrow>
     op_dml f c = (Inr (fst (f (db c))), c\<lparr>in_tx := True, db := snd (f (db c))\<rparr>)"
  by (cases "f (db c)") (simp add: op_dml_def)

lemma op_bind_runs: "m c = (Inr a, c') \<Longrightarrow> op_bind m f c = f a c'"
  by (simp add: op_bind_def)

lemma op_bind_dml:
  "schema_ok (snd (f (db c))) \<Longrightarrow>
     op_bind (op_dml f) g c = g (fst (f (db c))) (c\<lparr>in_tx := True, db := snd (f (db c))\<rparr>)"
  by (simp add: op_bind_def op_dml_runs)

lemma find_append: "find P (xs @ ys) = (case find P xs of None \<Rightarrow> find P ys | Some x \<Rightarrow> Some x)"
  by (induction xs) simp_all

lemma find_new_event:
  assumes "schema_ok d"
  shows "find (\<lambda>e. e_id e = seq_events d + 1) (volume_events (snd (insert_event i t da l x d))) =
     Some \<lparr>e_id = seq_events d + 1, e_volume_id = i, e_type = t, e_date = da, e_location = l, e_detail = x\<rparr>"
proof -
  have "find (\<lambda>e. e_id e = seq_events d + 1) (volume_events d) = None"
    using assms by (force simp: schema_defs list_all_iff find_None_iff)
  then show ?thesis by (simp add: insert_event_def Let_def find_append)
qed

lemma add_event_runs:
  assumes "schema_ok (db c)" "t \<in> set EVENT_TYPES" "i \<in> v_id ` set (volumes (db c))"
    "case l of None \<Rightarrow> True | Some n \<Rightarrow> n \<in> l_name ` set (locations (db c))"
  shows "\<exists>e. add_event i t l x None False c =
     (Inr e, c\<lparr>in_tx := True, db := snd (insert_event i t (now_iso c) l x (db c))\<rparr>)"
proof -
  have f: "fst (insert_event i t (now_iso c) l x (db c)) = seq_events (db c) + 1"
    by (simp add: insert_event_def Let_def)
  show ?thesis
    using assms(2) schema_insert_event [OF assms] find_new_event [OF assms(1)]
    by (simp add: add_event_def op_bind_simps op_raise_if_def op_commit_if_def op_bind_dml f get_event_def
        op_ret_def)
qed

end
