(* ===== verification/Catalog_Guards.thy ===== *)
theory Catalog_Guards
  imports Catalog_Schema
begin

text \<open>
  The operations that take discs and volumes out of service: the deprecation guard of
  \<open>update_status\<close>, the recording of a destroyed or deprecated disc, and the deletion of a volume.
\<close>

section \<open>Joins\<close>

lemma set_holders: "v \<in> set (holders d pid) \<longleftrightarrow> v \<in> set (volumes d) \<and> (v_id v, pid) \<in> set (volume_packs d)"
  by (auto simp: holders_def)

lemma list_ex_holders:
  "list_ex P (holders d pid) \<longleftrightarrow> (\<exists>v\<in>set (volumes d). (v_id v, pid) \<in> set (volume_packs d) \<and> P v)"
  by (auto simp: list_ex_iff set_holders)

lemma set_at_risk:
  "set (get_at_risk_packs_for_volume d i) =
     {p \<in> set (packs d). (i, p_id p) \<in> set (volume_packs d) \<and> \<not> p_is_pruned p \<and>
        \<not> (\<exists>v\<in>set (volumes d). (v_id v, p_id p) \<in> set (volume_packs d) \<and> other_replica d i v)}"
  by (auto simp: get_at_risk_packs_for_volume_def list_ex_holders)

section \<open>Deprecation\<close>

lemma find_unique:
  assumes "distinct (map k xs)" "x \<in> set xs" "k x = i"
  shows "find (\<lambda>y. k y = i) xs = Some x"
  using assms by (induction xs) (auto simp: image_iff)

lemma clean_conn:
  assumes "clean c" shows "schema_ok (db c)" "durable c = db c" "savepoints c = []" "in_tx c = False"
  using assms by (simp_all add: clean_def conn_ok_def catalogs_of_def)

lemma get_volume_found:
  assumes "schema_ok (db c)" "v \<in> set (volumes (db c))"
  shows "op_bind (get_volume_by_id (v_id v)) f c = f v c"
proof -
  have "find (\<lambda>w. v_id w = v_id v) (volumes (db c)) = Some v"
    using assms by (intro find_unique) (simp_all add: schema_ok_def volumes_ok_def)
  then show ?thesis by (simp add: get_volume_by_id_def op_bind_def op_query_def op_ret_def)
qed

definition deprecated_catalog :: "connection \<Rightarrow> volume \<Rightarrow> catalog" where
  "deprecated_catalog c v =
     snd (insert_event (v_id v) ''NOTE'' (now_iso c) None (status_note (v_status v) ''DEPRECATED'')
       (snd (set_volume (v_id v) (\<lambda>v. v\<lparr>v_status := ''DEPRECATED''\<rparr>) (db c))))"

lemma deprecate_guarded_refused:
  assumes "clean c" "get_at_risk_packs_for_volume (db c) i \<noteq> []"
  shows "\<exists>c'. deprecate_guarded i x s k c =
      (Inl (Deprecation_unsafe i (length (get_at_risk_packs_for_volume (db c) i))), c') \<and>
      db c' = db c \<and> durable c' = durable c"
  using assms clean_conn [OF assms(1)]
  by (simp add: deprecate_guarded_def op_bind_def op_savepoint_def op_on_error_def check_deprecation_safe_def
      op_query_def op_rollback_to_def op_raise_def)

lemma deprecate_guarded_accepted:
  assumes c: "clean c" and v: "v \<in> set (volumes (db c))"
    and safe: "get_at_risk_packs_for_volume (db c) (v_id v) = []"
  shows "\<exists>c'. deprecate_guarded (v_id v) (v_status v) ''DEPRECATED'' True c = (Inr (), c') \<and>
     db c' = deprecated_catalog c v \<and> durable c' = db c'"
proof -
  let ?i = "v_id v" and ?f = "\<lambda>v. v\<lparr>v_status := ''DEPRECATED''\<rparr>"
  let ?d = "snd (set_volume ?i ?f (db c))"
  have ok: "schema_ok ?d"
    unfolding set_volume_def snd_conv
    by (rule schema_update_volumes) (simp_all add: clean_conn [OF c] VOLUME_STATUSES_def)
  have i: "?i \<in> v_id ` set (volumes ?d)"
    using v by (simp add: set_volume_def ids_sql_update)
  let ?c1 = "c\<lparr>savepoints := [(''deprecate_check'', db c)], in_tx := True, tx_by_savepoint := True\<rparr>"
  let ?c2 = "c\<lparr>db := ?d, durable := ?d, in_tx := False, tx_by_savepoint := False, savepoints := []\<rparr>"
  have dml: "op_dml (set_volume ?i ?f) ?c1 = (Inr (), ?c1\<lparr>db := ?d\<rparr>)"
    using ok op_dml_runs [of "set_volume ?i ?f" ?c1] by (simp add: set_volume_def)
  have rel: "op_release ''deprecate_check'' (?c1\<lparr>db := ?d\<rparr>) = (Inr (), ?c2)"
    by (simp add: op_release_def op_commit_def)
  obtain e where e: "add_event ?i ''NOTE'' None (status_note (v_status v) ''DEPRECATED'') None False ?c2 =
     (Inr e, ?c2\<lparr>in_tx := True, db := deprecated_catalog c v\<rparr>)"
    using add_event_runs [of ?c2 "''NOTE''" ?i None "status_note (v_status v) ''DEPRECATED''"] ok i
    by (auto simp: EVENT_TYPES_def deprecated_catalog_def)
  show ?thesis
    using safe clean_conn [OF c] dml rel e
    by (simp add: deprecate_guarded_def op_bind_def op_savepoint_def op_on_error_def check_deprecation_safe_def
        op_query_def op_ret_def op_commit_if_def op_commit_def)
qed

lemma deprecated_catalog_replica:
  assumes "w \<in> set (volumes (db c))" "other_replica (db c) (v_id v) w"
  shows "w \<in> set (volumes (deprecated_catalog c v)) \<and> other_replica (deprecated_catalog c v) (v_id v) w"
  using assms
  by (auto simp: deprecated_catalog_def other_replica_def disc_or_legacy_def active_copies_of_def
      copies_of_def insert_event_def set_volume_def sql_update_def Let_def)

text \<open>
  C9. Deprecation is guarded. An unforced change of a volume to DEPRECATED, where the state machine
  allows it, either succeeds, and then on disk the volume is DEPRECATED, the change is noted and
  every unpruned pack of the volume is held by another BURNED or VERIFIED volume with an active
  disc (or with no disc record at all); or it raises because some unpruned pack has no such
  replica, and then nothing has changed, neither in the connection nor on disk.
\<close>

theorem deprecation_guard:
  assumes "clean c" "v \<in> set (volumes (db c))" "''DEPRECATED'' \<in> set (VALID_TRANSITIONS (v_status v))"
  shows "case update_status (v_id v) ''DEPRECATED'' True False c of
      (Inr _, c') \<Rightarrow>
        durable c' = db c' \<and> v\<lparr>v_status := ''DEPRECATED''\<rparr> \<in> set (volumes (db c')) \<and>
        list_ex (\<lambda>e. e_volume_id e = v_id v \<and> e_detail e = status_note (v_status v) ''DEPRECATED'')
          (volume_events (db c')) \<and>
        (\<forall>p. p \<notin> set (packs (db c')) \<or> (v_id v, p_id p) \<notin> set (volume_packs (db c')) \<or> p_is_pruned p \<or>
           (\<exists>w\<in>set (volumes (db c')). (v_id w, p_id p) \<in> set (volume_packs (db c')) \<and>
              other_replica (db c') (v_id v) w))
    | (Inl e, c') \<Rightarrow>
        (\<exists>n. e = Deprecation_unsafe (v_id v) (Suc n)) \<and> db c' = db c \<and> durable c' = durable c \<and>
        (\<exists>p\<in>set (packs (db c)). (v_id v, p_id p) \<in> set (volume_packs (db c)) \<and> \<not> p_is_pruned p \<and>
           \<not> (\<exists>w\<in>set (volumes (db c)). (v_id w, p_id p) \<in> set (volume_packs (db c)) \<and>
                other_replica (db c) (v_id v) w))"
proof -
  note ok = clean_conn(1) [OF assms(1)]
  have u: "update_status (v_id v) ''DEPRECATED'' True False c =
      deprecate_guarded (v_id v) (v_status v) ''DEPRECATED'' True c"
    using assms(3)
    by (simp add: update_status_def Let_def op_raise_if_def op_bind_simps get_volume_found [OF ok assms(2)])
  show ?thesis
  proof (cases "get_at_risk_packs_for_volume (db c) (v_id v) = []")
    case True
    let ?d = "deprecated_catalog c v"
    obtain c' where c': "deprecate_guarded (v_id v) (v_status v) ''DEPRECATED'' True c = (Inr (), c')"
      "db c' = ?d" "durable c' = db c'"
      using deprecate_guarded_accepted [OF assms(1,2) True] by blast
    have same: "packs ?d = packs (db c)" "volume_packs ?d = volume_packs (db c)"
      by (simp_all add: deprecated_catalog_def insert_event_def set_volume_def Let_def)
    have here: "v\<lparr>v_status := ''DEPRECATED''\<rparr> \<in> set (volumes ?d)"
      "list_ex (\<lambda>e. e_volume_id e = v_id v \<and> e_detail e = status_note (v_status v) ''DEPRECATED'')
          (volume_events ?d)"
      using assms(2) by (auto simp: deprecated_catalog_def insert_event_def set_volume_def Let_def sql_update_def)
    have "\<exists>w\<in>set (volumes ?d). (v_id w, p_id p) \<in> set (volume_packs ?d) \<and> other_replica ?d (v_id v) w"
      if p: "p \<in> set (packs ?d)" "(v_id v, p_id p) \<in> set (volume_packs ?d)" "\<not> p_is_pruned p" for p
    proof -
      have "p \<notin> set (get_at_risk_packs_for_volume (db c) (v_id v))" using True by simp
      then obtain w where "w \<in> set (volumes (db c))" "(v_id w, p_id p) \<in> set (volume_packs (db c))"
        "other_replica (db c) (v_id v) w"
        using p unfolding set_at_risk same by blast
      then show ?thesis using deprecated_catalog_replica same by metis
    qed
    then show ?thesis using here by (simp add: u c') blast
  next
    case False
    then obtain n where n: "length (get_at_risk_packs_for_volume (db c) (v_id v)) = Suc n"
      by (cases "get_at_risk_packs_for_volume (db c) (v_id v)") auto
    obtain c' where c': "deprecate_guarded (v_id v) (v_status v) ''DEPRECATED'' True c =
        (Inl (Deprecation_unsafe (v_id v) (Suc n)), c')" "db c' = db c" "durable c' = durable c"
      using deprecate_guarded_refused [OF assms(1) False] n by metis
    obtain p where "p \<in> set (get_at_risk_packs_for_volume (db c) (v_id v))"
      using False by (meson last_in_set)
    then show ?thesis unfolding u set_at_risk by (simp add: c') blast
  qed
qed

theorem deprecation_guard_witness:
  "\<exists>c'. update_status 1 ''DEPRECATED'' True False (open_connection demo_catalog) =
      (Inl (Deprecation_unsafe 1 1), c') \<and> durable c' = demo_catalog"
proof -
  let ?c = "open_connection demo_catalog" and ?v = "hd (volumes demo_catalog)"
  have "?v \<in> set (volumes (db ?c))" "''DEPRECATED'' \<in> set (VALID_TRANSITIONS (v_status ?v))" by code_simp+
  note guard = deprecation_guard [OF demo_ok(2) this]
  have i: "v_id ?v = 1" by code_simp
  have "fst (update_status 1 ''DEPRECATED'' True False ?c) = Inl (Deprecation_unsafe 1 1)" by code_simp
  then obtain c' where "update_status 1 ''DEPRECATED'' True False ?c = (Inl (Deprecation_unsafe 1 1), c')"
    by (metis prod.collapse)
  then show ?thesis using guard by (simp add: i open_connection_def)
qed

end
