(* ===== verification/Catalog_Discs.thy ===== *)
theory Catalog_Discs
  imports Catalog_Guards
begin

text \<open>
  Taking a disc out of service. \<open>deprecate_copy\<close> and \<open>destroy_copy\<close> have the same shape: mark the
  disc rows, note the fate of the disc, demote the volume when it was its last disc in service,
  commit. The lemmas follow that shape once for both.
\<close>

section \<open>Demotion\<close>

definition demoted_catalog :: "connection \<Rightarrow> int \<Rightarrow> string \<Rightarrow> string \<Rightarrow> catalog" where
  "demoted_catalog c i l a =
     snd (insert_event i ''NOTE'' (now_iso c) (Some l) (auto_deprecated_note a l)
       (snd (demote_volume i (db c))))"

lemma demote_count:
  assumes "schema_ok d" "v \<in> set (volumes d)"
  shows "fst (demote_volume (v_id v) d) = 0 \<longleftrightarrow> \<not> in_service v"
proof -
  have "(\<forall>w\<in>set (volumes d). v_id w = v_id v \<longrightarrow> \<not> in_service w) \<longleftrightarrow> \<not> in_service v"
    using schema_volume_unique [OF assms(1) _ assms(2)] assms(2) by metis
  then show ?thesis by (simp add: demote_volume_def Let_def sql_count_def filter_empty_conv)
qed

lemma schema_demote: "schema_ok d \<Longrightarrow> schema_ok (snd (demote_volume i d))"
  unfolding demote_volume_def Let_def snd_conv
  by (rule schema_update_volumes) (simp_all add: VOLUME_STATUSES_def)

lemma demote_runs:
  assumes ok: "schema_ok (db c)" and v: "v \<in> set (volumes (db c))"
    and l: "l \<in> l_name ` set (locations (db c))" and disc: "copies_of (db c) (v_id v) \<noteq> []"
  defines "b \<equiv> in_service v \<and> active_copies_of (db c) (v_id v) = []"
  shows "\<exists>c'. demote_volume_if_last_copy_lost (v_id v) l a c = (Inr b, c') \<and> durable c' = durable c \<and>
     db c' = (if b then demoted_catalog c (v_id v) l a else db c)"
proof (cases "active_copies_of (db c) (v_id v) = []")
  case False
  then show ?thesis
    using disc by (simp add: demote_volume_if_last_copy_lost_def op_bind_simps op_ret_def b_def)
next
  case True
  let ?d = "snd (demote_volume (v_id v) (db c))"
  let ?c = "c\<lparr>in_tx := True, db := ?d\<rparr>"
  note okd = schema_demote [OF ok, of "v_id v"]
  show ?thesis
  proof (cases "in_service v")
    case False
    have "?d = db c"
    proof -
      have "sql_update (\<lambda>w. v_id w = v_id v \<and> in_service w) (\<lambda>w. w\<lparr>v_status := ''DEPRECATED''\<rparr>) (volumes (db c))
          = volumes (db c)"
        unfolding sql_update_def
        using schema_volume_unique [OF ok _ v] False by (intro map_idI) metis
      then show ?thesis by (simp add: demote_volume_def Let_def)
    qed
    then show ?thesis
      using True False disc okd demote_count [OF ok v]
      by (simp add: demote_volume_if_last_copy_lost_def op_bind_simps op_bind_dml op_ret_def b_def)
  next
    case s: True
    have "v_id v \<in> v_id ` set (volumes ?d)" "l \<in> l_name ` set (locations ?d)"
      using v l by (simp_all add: demote_volume_def Let_def ids_sql_update)
    then obtain e where e: "add_event (v_id v) ''NOTE'' (Some l) (auto_deprecated_note a l) None False ?c =
        (Inr e, ?c\<lparr>db := demoted_catalog c (v_id v) l a\<rparr>)"
      using add_event_runs [of ?c "''NOTE''" "v_id v" "Some l"] okd
      by (auto simp: EVENT_TYPES_def demoted_catalog_def)
    then show ?thesis
      using True s disc okd demote_count [OF ok v]
      by (simp add: demote_volume_if_last_copy_lost_def op_bind_simps op_bind_dml op_ret_def b_def
          op_bind_runs [of "add_event (v_id v) ''NOTE'' (Some l) (auto_deprecated_note a l) None False", OF e])
  qed
qed

lemma demoted_lost:
  assumes "schema_ok (db c)" "v \<in> set (volumes (db c))" "in_service v" "copies_of (db c) (v_id v) \<noteq> []"
    "active_copies_of (db c) (v_id v) = []"
  shows "v_id v \<in> get_lost_volume_ids (demoted_catalog c (v_id v) l a)"
proof -
  let ?d = "demoted_catalog c (v_id v) l a" and ?w = "v\<lparr>v_status := ''DEPRECATED''\<rparr>"
  have "?w \<in> set (volumes ?d)"
    using assms(2,3) by (force simp: demoted_catalog_def demote_volume_def insert_event_def Let_def sql_update_def)
  moreover have "lost_volume ?d ?w"
    using assms(4,5)
    by (simp add: lost_volume_def active_copies_of_def copies_of_def demoted_catalog_def demote_volume_def
        insert_event_def Let_def auto_deprecated_note_def)
  ultimately have "v_id ?w \<in> get_lost_volume_ids ?d" unfolding get_lost_volume_ids_def by (intro imageI) simp
  then show ?thesis by simp
qed

section \<open>Taking a disc out of service\<close>

definition retire_disc ::
  "(volume_copy \<Rightarrow> bool) \<Rightarrow> string \<Rightarrow> db_error \<Rightarrow> int \<Rightarrow> string \<Rightarrow> string \<Rightarrow> string \<Rightarrow> bool dbop" where
  "retire_disc P s e i l fate a =
     op_bind (op_dml (set_copies P (\<lambda>c. c\<lparr>vc_status := s\<rparr>))) (\<lambda>n.
     op_bind (op_raise_if (n = 0) e) (\<lambda>_.
     op_bind (record_disc_fate i l fate) (\<lambda>_.
     op_bind (demote_volume_if_last_copy_lost i l a) (\<lambda>demoted.
     op_bind op_commit (\<lambda>_.
     op_ret demoted)))))"

lemma deprecate_copy_retires:
  "deprecate_copy i l = retire_disc (active_at i l) ''DEPRECATED'' (No_active_copy i l) i l
     ''deprecated (out of service)'' ''deprecated''"
  by (simp add: deprecate_copy_def retire_disc_def)

lemma destroy_copy_retires:
  "destroy_copy i l lost = retire_disc (\<lambda>c. vc_volume_id c = i \<and> vc_location c = l) ''DESTROYED'' (No_copy i l) i l
     (if lost then ''lost (whereabouts unknown)'' else ''destroyed'') (if lost then ''lost'' else ''destroyed'')"
  by (simp add: destroy_copy_def retire_disc_def)

definition retired_catalog :: "connection \<Rightarrow> (volume_copy \<Rightarrow> bool) \<Rightarrow> string \<Rightarrow> int \<Rightarrow> string \<Rightarrow> string \<Rightarrow> catalog" where
  "retired_catalog c P s i l fate =
     snd (insert_event i ''NOTE'' (now_iso c) (Some l) (disc_fate_note l fate)
       (snd (set_copies P (\<lambda>x. x\<lparr>vc_status := s\<rparr>) (db c))))"

lemma schema_retire:
  "schema_ok d \<Longrightarrow> s \<in> set COPY_STATUSES \<Longrightarrow> schema_ok (snd (set_copies P (\<lambda>x. x\<lparr>vc_status := s\<rparr>) d))"
  unfolding set_copies_def snd_conv by (rule schema_update_copies) simp_all

lemma copy_location:
  "schema_ok d \<Longrightarrow> x \<in> set (volume_copies d) \<Longrightarrow>
     vc_location x \<in> l_name ` set (locations d) \<and> vc_volume_id x \<in> v_id ` set (volumes d)"
  by (auto simp: schema_ok_def copies_ok_def list_all_iff)

lemma retire_disc_runs:
  fixes fate :: string
  assumes ok: "schema_ok (db c)" and s: "s \<in> set COPY_STATUSES" and v: "v \<in> set (volumes (db c))"
    and x: "x \<in> set (volume_copies (db c))" "P x" "vc_location x = l" "vc_volume_id x = v_id v"
  defines "d \<equiv> retired_catalog c P s (v_id v) l fate"
  defines "b \<equiv> in_service v \<and> active_copies_of d (v_id v) = []"
  shows "\<exists>c'. retire_disc P s e (v_id v) l fate a c = (Inr b, c') \<and> durable c' = db c' \<and>
     db c' = (if b then demoted_catalog (c\<lparr>db := d\<rparr>) (v_id v) l a else d)"
proof -
  let ?i = "v_id v" and ?set = "set_copies P (\<lambda>x. x\<lparr>vc_status := s\<rparr>)"
  let ?c1 = "c\<lparr>in_tx := True, db := snd (?set (db c))\<rparr>"
  let ?c2 = "c\<lparr>in_tx := True, db := d\<rparr>"
  note ok1 = schema_retire [OF ok s, of P]
  have same: "volumes (db ?c1) = volumes (db c)" "locations (db ?c1) = locations (db c)"
    "volumes d = volumes (db c)" "locations d = locations (db c)"
    by (simp_all add: set_copies_def d_def retired_catalog_def insert_event_def Let_def)
  have l: "l \<in> l_name ` set (locations (db c))" "?i \<in> v_id ` set (volumes (db c))"
    using copy_location [OF ok x(1)] x v by auto
  have okd: "schema_ok d"
    unfolding d_def retired_catalog_def
    by (rule schema_insert_event) (use ok1 l same in \<open>simp_all add: EVENT_TYPES_def\<close>)
  obtain ev where "add_event ?i ''NOTE'' (Some l) (disc_fate_note l fate) None False ?c1 = (Inr ev, ?c2)"
    using add_event_runs [of ?c1 "''NOTE''" ?i "Some l" "disc_fate_note l fate"] ok1 l same
    by (auto simp: EVENT_TYPES_def d_def retired_catalog_def)
  then have fate: "record_disc_fate ?i l fate ?c1 = (Inr (), ?c2)"
    by (simp add: record_disc_fate_def op_bind_def op_ret_def)
  have "x\<lparr>vc_status := s\<rparr> \<in> set (copies_of d ?i)"
    using x by (simp add: copies_of_def d_def retired_catalog_def insert_event_def Let_def set_copies_def
        sql_update_def)
  then have "copies_of d ?i \<noteq> []" by auto
  then obtain c3 where dem: "demote_volume_if_last_copy_lost ?i l a ?c2 = (Inr b, c3)"
    "db c3 = (if b then demoted_catalog ?c2 ?i l a else d)"
    using demote_runs [of ?c2 v l a] okd v l same by (auto simp: b_def)
  have n: "fst (?set (db c)) \<noteq> 0" using x by (auto simp: set_copies_def sql_count_def filter_empty_conv)
  show ?thesis
    using ok1 n dem(2) op_bind_runs [of "record_disc_fate ?i l fate", OF fate]
      op_bind_runs [of "demote_volume_if_last_copy_lost ?i l a", OF dem(1)]
    by (simp add: retire_disc_def op_bind_dml op_raise_if_def op_bind_simps
        op_bind_runs [of "record_disc_fate ?i l fate", OF fate]
        op_bind_runs [of "demote_volume_if_last_copy_lost ?i l a", OF dem(1)])
      (simp add: op_bind_def op_commit_def op_ret_def demoted_catalog_def)
qed

text \<open>What both operations promise, for the discs of a volume selected by \<open>P\<close>.\<close>

definition retires ::
  "(volume_copy \<Rightarrow> bool) \<Rightarrow> string \<Rightarrow> db_error \<Rightarrow> volume \<Rightarrow> connection \<Rightarrow> (db_error, bool) result \<times> connection
     \<Rightarrow> bool" where
  "retires P s err v c r =
     (case r of
        (Inr demoted, c') \<Rightarrow>
          list_ex P (volume_copies (db c)) \<and> durable c' = db c' \<and>
          volume_copies (db c') =
            map (\<lambda>x. if P x then x\<lparr>vc_status := s\<rparr> else x) (volume_copies (db c)) \<and>
          demoted = (in_service v \<and> active_copies_of (db c') (v_id v) = []) \<and>
          (if demoted then v_id v \<in> get_lost_volume_ids (db c') else volumes (db c') = volumes (db c))
      | (Inl e, c') \<Rightarrow>
          \<not> list_ex P (volume_copies (db c)) \<and> e = err \<and> db c' = db c \<and> durable c' = durable c)"

lemma sql_update_none: "\<not> list_ex P rows \<Longrightarrow> sql_update P f rows = rows"
  by (induction rows) (auto simp: sql_update_def)

lemma retire_disc_retires:
  assumes ok: "schema_ok (db c)" and s: "s \<in> set COPY_STATUSES" and v: "v \<in> set (volumes (db c))"
    and P: "\<And>x. P x \<Longrightarrow> vc_location x = l \<and> vc_volume_id x = v_id v"
  shows "retires P s e v c (retire_disc P s e (v_id v) l fate a c)"
proof (cases "list_ex P (volume_copies (db c))")
  case True
  then obtain x where x: "x \<in> set (volume_copies (db c))" "P x" by (auto simp: list_ex_iff)
  let ?d = "retired_catalog c P s (v_id v) l fate"
  let ?b = "in_service v \<and> active_copies_of ?d (v_id v) = []"
  obtain c' where c': "retire_disc P s e (v_id v) l fate a c = (Inr ?b, c')" "durable c' = db c'"
    "db c' = (if ?b then demoted_catalog (c\<lparr>db := ?d\<rparr>) (v_id v) l a else ?d)"
    using retire_disc_runs [of c s v x P l e fate a] ok s v x P [OF x(2)] by blast
  have d: "volumes ?d = volumes (db c)"
    "volume_copies ?d = map (\<lambda>x. if P x then x\<lparr>vc_status := s\<rparr> else x) (volume_copies (db c))"
    by (simp_all add: retired_catalog_def insert_event_def Let_def set_copies_def sql_update_def)
  have dc: "volume_copies (db c') = volume_copies ?d"
    by (simp add: c'(3) demoted_catalog_def demote_volume_def insert_event_def Let_def)
  have okd: "schema_ok ?d"
    using schema_retire [OF ok s] copy_location [OF ok x(1)] P [OF x(2)]
    by (auto simp: retired_catalog_def set_copies_def EVENT_TYPES_def intro!: schema_insert_event)
  have "x\<lparr>vc_status := s\<rparr> \<in> set (copies_of ?d (v_id v))" using x P by (simp add: copies_of_def d)
  then have "copies_of ?d (v_id v) \<noteq> []" by auto
  then have "v_id v \<in> get_lost_volume_ids (db c')" if "?b"
    using demoted_lost [of "c\<lparr>db := ?d\<rparr>" v l a] okd v d that by (auto simp: c'(3))
  moreover have "active_copies_of (db c') (v_id v) = active_copies_of ?d (v_id v)"
    by (simp add: active_copies_of_def copies_of_def dc)
  ultimately show ?thesis
    using True c'(2,3) dc d by (auto simp: retires_def c'(1))
next
  case False
  have "snd (set_copies P (\<lambda>x. x\<lparr>vc_status := s\<rparr>) (db c)) = db c" "fst (set_copies P f (db c)) = 0" for f
    using False by (simp_all add: set_copies_def sql_update_none sql_count_def list_ex_iff filter_empty_conv)
  then show ?thesis
    using False ok by (simp add: retires_def retire_disc_def op_bind_dml op_raise_if_def op_bind_simps)
qed

text \<open>
  C10. Losing a disc. Recording a disc as destroyed or as deprecated changes the status of exactly the
  disc rows it names and commits; it reports \<open>True\<close> exactly when the volume was in service and has
  no active disc left, and then the volume is a lost volume for every display; otherwise no volume
  row has changed. When there is no such disc it raises and changes nothing.
\<close>

theorem disc_loss:
  assumes "clean c" "v \<in> set (volumes (db c))"
  shows "retires (\<lambda>x. vc_volume_id x = v_id v \<and> vc_location x = l) ''DESTROYED'' (No_copy (v_id v) l) v c
       (destroy_copy (v_id v) l lost c) \<and>
     retires (\<lambda>x. vc_volume_id x = v_id v \<and> vc_location x = l \<and> vc_status x = ''ACTIVE'') ''DEPRECATED''
       (No_active_copy (v_id v) l) v c (deprecate_copy (v_id v) l c)"
proof
  note ok = clean_conn(1) [OF assms(1)]
  show "retires (\<lambda>x. vc_volume_id x = v_id v \<and> vc_location x = l) ''DESTROYED'' (No_copy (v_id v) l) v c
       (destroy_copy (v_id v) l lost c)"
    unfolding destroy_copy_retires
    by (rule retire_disc_retires) (simp_all add: ok assms(2) COPY_STATUSES_def)
  have e: "active_at (v_id v) l = (\<lambda>x. vc_volume_id x = v_id v \<and> vc_location x = l \<and> vc_status x = ''ACTIVE'')"
    by (rule ext) (simp add: active_at_def)
  show "retires (\<lambda>x. vc_volume_id x = v_id v \<and> vc_location x = l \<and> vc_status x = ''ACTIVE'') ''DEPRECATED''
       (No_active_copy (v_id v) l) v c (deprecate_copy (v_id v) l c)"
    unfolding deprecate_copy_retires e
    by (rule retire_disc_retires) (simp_all add: ok assms(2) COPY_STATUSES_def)
qed

theorem disc_loss_witness:
  "\<exists>c'. destroy_copy 1 ''Home'' True (open_connection demo_catalog) = (Inr True, c') \<and>
     1 \<in> get_lost_volume_ids (durable c')"
proof -
  let ?c = "open_connection demo_catalog" and ?v = "hd (volumes demo_catalog)"
  have v: "?v \<in> set (volumes (db ?c))" "v_id ?v = 1" by code_simp+
  have "fst (destroy_copy 1 ''Home'' True ?c) = Inr True" by code_simp
  then obtain c' where c': "destroy_copy 1 ''Home'' True ?c = (Inr True, c')" by (metis prod.collapse)
  have "retires (\<lambda>x. vc_volume_id x = 1 \<and> vc_location x = ''Home'') ''DESTROYED'' (No_copy 1 ''Home'') ?v ?c
      (destroy_copy 1 ''Home'' True ?c)"
    using conjunct1 [OF disc_loss [OF demo_ok(2) v(1), of "''Home''" True]] by (simp only: v)
  then show ?thesis by (simp add: retires_def c' v)
qed

end
