(* ===== verification/Catalog_Picks.thy ===== *)
theory Catalog_Picks
  imports Catalog_Discs "HOL-Library.Multiset"
begin

text \<open>
  Restore pick lists. The loop of \<open>get_pick_list\<close> over batches of sorted rows with a set of packs
  already seen is the grouping, by volume label, of the first row of each pack; the first row is a
  best volume for the pack.
\<close>

section \<open>Dictionaries of lists\<close>

lemma fst_dict_append: "fst ` set (dict_append k x r) = insert k (fst ` set r)"
  by (induction k x r rule: dict_append.induct) auto

lemma distinct_dict_append: "distinct (map fst r) \<Longrightarrow> distinct (map fst (dict_append k x r))"
proof (induction k x r rule: dict_append.induct)
  case (2 k x k' xs rest)
  then show ?case using fst_dict_append [of k x rest] by (auto simp del: fst_dict_append)
qed simp

lemma mset_dict_append: "mset (concat (map snd (dict_append k x r))) = add_mset x (mset (concat (map snd r)))"
  by (induction k x r rule: dict_append.induct) auto

lemma pairs_dict_append:
  "(\<exists>ys. (l, ys) \<in> set (dict_append k x r) \<and> y \<in> set ys) \<longleftrightarrow>
     (l = k \<and> y = x) \<or> (\<exists>ys. (l, ys) \<in> set r \<and> y \<in> set ys)"
  by (induction k x r rule: dict_append.induct) auto

lemma nonempty_dict_append: "[] \<notin> snd ` set r \<Longrightarrow> [] \<notin> snd ` set (dict_append k x r)"
  by (induction k x r rule: dict_append.induct) auto

definition group_rows :: "(string \<times> pack) list \<Rightarrow> (string \<times> pack list) list \<Rightarrow> (string \<times> pack list) list" where
  "group_rows rows r = foldl (\<lambda>r (l, p). dict_append l p r) r rows"

lemma group_rows_simps [simp]:
  "group_rows [] r = r" "group_rows ((l, p) # rows) r = group_rows rows (dict_append l p r)"
  by (simp_all add: group_rows_def)

lemma group_rows_ok:
  "distinct (map fst r) \<Longrightarrow> [] \<notin> snd ` set r \<Longrightarrow>
     distinct (map fst (group_rows rows r)) \<and> [] \<notin> snd ` set (group_rows rows r)"
proof (induction rows arbitrary: r)
  case (Cons row rows)
  obtain l p where row: "row = (l, p)" by fastforce
  show ?case
    using Cons.IH [of "dict_append l p r"] Cons.prems
    by (simp only: row group_rows_simps distinct_dict_append nonempty_dict_append simp_thms)
qed simp

lemma mset_group_rows:
  "mset (concat (map snd (group_rows rows r))) = mset (map snd rows) + mset (concat (map snd r))"
  by (induction rows arbitrary: r) (auto simp: mset_dict_append)

lemma pairs_group_rows:
  "(\<exists>ps. (l, ps) \<in> set (group_rows rows r) \<and> p \<in> set ps) \<longleftrightarrow>
     (l, p) \<in> set rows \<or> (\<exists>ps. (l, ps) \<in> set r \<and> p \<in> set ps)"
proof (induction rows arbitrary: r)
  case (Cons row rows)
  obtain l' q where row: "row = (l', q)" by fastforce
  show ?case unfolding row group_rows_simps Cons.IH pairs_dict_append by auto
qed simp

section \<open>First rows\<close>

fun firsts :: "string set \<Rightarrow> (pack \<times> volume) list \<Rightarrow> (pack \<times> volume) list" where
  "firsts seen [] = []"
| "firsts seen ((p, v) # rows) =
     (if p_sha256 p \<in> seen then firsts seen rows
      else (p, v) # firsts (insert (p_sha256 p) seen) rows)"

abbreviation row_sha :: "pack \<times> volume \<Rightarrow> string" where "row_sha r \<equiv> p_sha256 (fst r)"

lemma foldl_pick_step:
  "snd (foldl pick_step (seen, r) rows) =
     group_rows (map (\<lambda>(p, v). (v_label v, p)) (firsts (set seen) rows)) r"
  by (induction "set seen" rows arbitrary: seen r rule: firsts.induct) (auto simp: pick_step_def)

lemma firsts_append: "firsts seen (xs @ ys) = firsts seen xs @ firsts (seen \<union> row_sha ` set xs) ys"
  by (induction seen xs rule: firsts.induct) (auto simp: insert_absorb)

lemma row_sha_firsts: "row_sha ` set (firsts seen rows) = row_sha ` set rows - seen"
  by (induction seen rows rule: firsts.induct) auto

lemma distinct_firsts: "distinct (map row_sha (firsts seen rows))"
proof (induction seen rows rule: firsts.induct)
  case (2 seen p v rows)
  then show ?case using row_sha_firsts [of "insert (p_sha256 p) seen" rows] by (auto simp: image_iff)
qed simp

lemma set_firsts_subset: "set (firsts seen rows) \<subseteq> set rows"
  by (induction seen rows rule: firsts.induct) auto

lemma firsts_concat:
  "x \<in> set (firsts seen (concat segs)) \<Longrightarrow> \<exists>seg\<in>set segs. \<exists>seen'. x \<in> set (firsts seen' seg)"
  by (induction segs arbitrary: seen) (auto simp: firsts_append)

lemma firsts_minimal:
  assumes "sorted_wrt (\<lambda>a b. k a \<le> k b) rows" "x \<in> set (firsts seen rows)" "y \<in> set rows"
    "row_sha y = row_sha x"
  shows "(k x :: 'k :: linorder) \<le> k y"
  using assms
proof (induction seen rows rule: firsts.induct)
  case (2 seen p v rows)
  then show ?case
    using set_firsts_subset [of "insert (p_sha256 p) seen" rows] row_sha_firsts [of seen rows]
      row_sha_firsts [of "insert (p_sha256 p) seen" rows]
    by (auto split: if_splits)
qed simp

section \<open>Rows of a batch\<close>

lemma set_pick_rows:
  "(p, v) \<in> set (pick_rows d loc batch) \<longleftrightarrow>
     p \<in> set (packs d) \<and> v \<in> set (volumes d) \<and> (v_id v, p_id p) \<in> set (volume_packs d) \<and>
     p_sha256 p \<in> set batch \<and> in_service v"
  by (force simp: pick_rows_def pack_volume_rows_def set_holders)

lemma sorted_pick_rows:
  "sorted_wrt (\<lambda>a b. pick_rank loc (snd a) \<le> pick_rank loc (snd b)) (pick_rows d loc batch)"
  using sorted_sort_key [of "\<lambda>(p, v). pick_rank loc v"]
  by (simp add: pick_rows_def sorted_map split_beta)

definition all_rows :: "catalog \<Rightarrow> string \<Rightarrow> string list \<Rightarrow> (pack \<times> volume) list" where
  "all_rows d loc shas = concat (map (pick_rows d loc) (chunks SQLITE_BATCH shas))"

lemma foldl_rows: "foldl (\<lambda>st b. foldl f st (g b)) st bs = foldl f st (concat (map g bs))"
  by (induction bs arbitrary: st) simp_all

lemma get_pick_list_groups:
  "get_pick_list d shas loc = group_rows (map (\<lambda>(p, v). (v_label v, p)) (firsts {} (all_rows d loc shas))) []"
  using foldl_pick_step [of "[]" "[]"] by (simp add: get_pick_list_def all_rows_def foldl_rows)

lemma set_all_rows:
  "(p, v) \<in> set (all_rows d loc shas) \<longleftrightarrow>
     p \<in> set (packs d) \<and> v \<in> set (volumes d) \<and> (v_id v, p_id p) \<in> set (volume_packs d) \<and>
     p_sha256 p \<in> set shas \<and> in_service v"
  using set_chunks [of SQLITE_BATCH shas]
  by (auto simp: all_rows_def set_pick_rows SQLITE_BATCH_def)

lemma first_row_best:
  assumes "(p, v) \<in> set (firsts {} (all_rows d loc shas))" "w \<in> set (volumes d)"
    "(v_id w, p_id p) \<in> set (volume_packs d)" "in_service w"
  shows "pick_rank loc v \<le> pick_rank loc w"
proof -
  obtain batch seen where b: "batch \<in> set (chunks SQLITE_BATCH shas)"
    "(p, v) \<in> set (firsts seen (pick_rows d loc batch))"
    using firsts_concat assms(1) unfolding all_rows_def by fastforce
  then have "(p, v) \<in> set (pick_rows d loc batch)" using set_firsts_subset by blast
  then have "(p, w) \<in> set (pick_rows d loc batch)" using assms by (simp add: set_pick_rows)
  then show ?thesis using firsts_minimal [OF sorted_pick_rows b(2)] by fastforce
qed

lemma schema_pack_unique:
  "schema_ok d \<Longrightarrow> p \<in> set (packs d) \<Longrightarrow> q \<in> set (packs d) \<Longrightarrow> p_sha256 p = p_sha256 q \<Longrightarrow> p = q"
  by (auto simp: schema_ok_def packs_ok_def distinct_map inj_on_def)

lemma first_row_exists:
  assumes "schema_ok d" "(p, w) \<in> set (all_rows d loc shas)"
  shows "\<exists>v. (p, v) \<in> set (firsts {} (all_rows d loc shas))"
proof -
  have "p_sha256 p \<in> row_sha ` set (firsts {} (all_rows d loc shas))"
    unfolding row_sha_firsts using assms(2) by force
  then obtain q v where q: "(q, v) \<in> set (firsts {} (all_rows d loc shas))" "p_sha256 q = p_sha256 p" by force
  then have "(q, v) \<in> set (all_rows d loc shas)" using set_firsts_subset by blast
  then have "q = p" using schema_pack_unique [OF assms(1)] assms(2) q(2) by (simp add: set_all_rows)
  then show ?thesis using q(1) by blast
qed

lemma first_row_iff:
  assumes "schema_ok d"
  shows "(\<exists>v. (p, v) \<in> set (firsts {} (all_rows d loc shas)) \<and> l = v_label v) \<longleftrightarrow>
     (\<exists>v\<in>set (volumes d). l = v_label v \<and> p \<in> set (packs d) \<and> p_sha256 p \<in> set shas \<and> in_service v \<and>
           (v_id v, p_id p) \<in> set (volume_packs d) \<and>
           \<not> (\<exists>w\<in>set (volumes d). in_service w \<and> (v_id w, p_id p) \<in> set (volume_packs d) \<and>
                pick_rank loc w < pick_rank loc v))" (is "?L \<longleftrightarrow> ?R")
proof
  assume ?L
  then obtain v where v: "(p, v) \<in> set (firsts {} (all_rows d loc shas))" "l = v_label v" by blast
  then have "(p, v) \<in> set (all_rows d loc shas)" using set_firsts_subset by blast
  then show ?R
    unfolding set_all_rows using v(2) first_row_best [OF v(1)] by (intro bexI [of _ v]) (auto simp: leD)
next
  assume ?R
  then obtain v where v: "v \<in> set (volumes d)" "l = v_label v" "(p, v) \<in> set (all_rows d loc shas)"
    "\<And>w. w \<in> set (volumes d) \<Longrightarrow> in_service w \<Longrightarrow> (v_id w, p_id p) \<in> set (volume_packs d) \<Longrightarrow>
       pick_rank loc v \<le> pick_rank loc w"
    unfolding set_all_rows by (meson not_le)
  obtain u where u: "(p, u) \<in> set (firsts {} (all_rows d loc shas))"
    using first_row_exists [OF assms v(3)] by blast
  then have "(p, u) \<in> set (all_rows d loc shas)" using set_firsts_subset by blast
  then have "pick_rank loc v \<le> pick_rank loc u" using v(4) by (simp add: set_all_rows)
  moreover have "pick_rank loc u \<le> pick_rank loc v"
    using first_row_best [OF u] v(3) by (simp add: set_all_rows)
  ultimately have "pick_rank loc u = pick_rank loc v" by (rule antisym [rotated])
  then have "v_label u = v_label v" by (simp add: pick_rank_def)
  then show ?L using u v(2) by auto
qed

section \<open>Missing packs\<close>

lemma foldl_append_new:
  "set (foldl (\<lambda>acc h. if h \<in> set acc then acc else acc @ [h]) acc hs) = set acc \<union> set hs"
  by (induction hs arbitrary: acc) auto

lemma set_missing_step:
  assumes "schema_ok d"
  shows "set (missing_step d acc batch) =
     set acc \<union> {h \<in> set batch. \<not> (\<exists>p\<in>set (packs d). p_sha256 p = h \<and> accessible d p)}"
  using schema_pack_unique [OF assms]
  by (auto simp: missing_step_def Let_def foldl_append_new)

lemma set_missing_packs:
  assumes "schema_ok d"
  shows "set (get_missing_packs d shas) =
     {h \<in> set shas. \<not> (\<exists>p\<in>set (packs d). p_sha256 p = h \<and> accessible d p)}"
proof -
  have "set (foldl (missing_step d) acc bs) =
      set acc \<union> {h \<in> (\<Union>b\<in>set bs. set b). \<not> (\<exists>p\<in>set (packs d). p_sha256 p = h \<and> accessible d p)}" for acc bs
    by (induction bs arbitrary: acc) (auto simp: set_missing_step [OF assms])
  then show ?thesis
    using set_chunks [of SQLITE_BATCH shas] by (auto simp: get_missing_packs_def SQLITE_BATCH_def)
qed

lemma accessible_iff:
  "accessible d p \<longleftrightarrow> (\<exists>v\<in>set (volumes d). (v_id v, p_id p) \<in> set (volume_packs d) \<and> in_service v)"
  by (simp add: accessible_def list_ex_holders)

text \<open>The packs a restore can fetch.\<close>

definition fetchable :: "catalog \<Rightarrow> string list \<Rightarrow> pack set" where
  "fetchable d hashes = {p \<in> set (packs d). p_sha256 p \<in> set hashes \<and> accessible d p}"

lemma v1_packs:
  assumes "schema_ok d"
  shows "distinct (concat (map snd (get_pick_list d hashes loc)))"
    "set (concat (map snd (get_pick_list d hashes loc))) = fetchable d hashes"
proof -
  let ?r = "get_pick_list d hashes loc" and ?rows = "all_rows d loc hashes"
  have all: "mset (concat (map snd ?r)) = mset (map fst (firsts {} ?rows))"
    unfolding get_pick_list_groups mset_group_rows by (simp add: split_beta comp_def)
  have "distinct (map p_sha256 (map fst (firsts {} ?rows)))" using distinct_firsts [of "{}" ?rows] by (simp add: comp_def)
  then have "distinct (map fst (firsts {} ?rows))" unfolding distinct_map by blast
  then show "distinct (concat (map snd ?r))" using all mset_eq_imp_distinct_iff by metis
  have "p \<in> fst ` set (firsts {} ?rows)" if "(p, w) \<in> set ?rows" for p w
    using first_row_exists [OF assms that] by force
  then have "fst ` set (firsts {} ?rows) = fst ` set ?rows"
    using image_mono [OF set_firsts_subset [of "{}" ?rows], of fst] by force
  also have "\<dots> = fetchable d hashes"
    by (rule set_eqI) (auto simp: fetchable_def set_all_rows accessible_iff Domain_iff Domain_fst [symmetric])
  finally show "set (concat (map snd ?r)) = fetchable d hashes"
    using all by (metis list.set_map set_mset_mset)
qed

text \<open>
  Pick lists. For any list of required hashes, of any length and with repetitions, the pick list
  names every volume label once with a non-empty list of packs, and holds every required pack that
  is not reported missing exactly once and nothing else. Each pack is listed under a volume in
  service that holds it, and no other such volume comes before it in the order durable first, then
  at the preferred location, then by label.
\<close>

theorem pick_list_spec:
  assumes "schema_ok d"
  shows "distinct (map fst (get_pick_list d shas loc)) \<and> [] \<notin> snd ` set (get_pick_list d shas loc) \<and>
     distinct (concat (map snd (get_pick_list d shas loc))) \<and>
     set (concat (map snd (get_pick_list d shas loc))) =
       {p \<in> set (packs d). p_sha256 p \<in> set shas \<and> p_sha256 p \<notin> set (get_missing_packs d shas)} \<and>
     (\<forall>l p. (\<exists>ps. (l, ps) \<in> set (get_pick_list d shas loc) \<and> p \<in> set ps) =
        (\<exists>v\<in>set (volumes d). l = v_label v \<and> p \<in> set (packs d) \<and> p_sha256 p \<in> set shas \<and> in_service v \<and>
           (v_id v, p_id p) \<in> set (volume_packs d) \<and>
           \<not> (\<exists>w\<in>set (volumes d). in_service w \<and> (v_id w, p_id p) \<in> set (volume_packs d) \<and>
                pick_rank loc w < pick_rank loc v)))"
proof -
  let ?r = "get_pick_list d shas loc" and ?rows = "all_rows d loc shas"
  let ?first = "firsts {} ?rows"
  have pairs: "(\<exists>ps. (l, ps) \<in> set ?r \<and> p \<in> set ps) \<longleftrightarrow> (\<exists>v. (p, v) \<in> set ?first \<and> l = v_label v)" for l p
    unfolding get_pick_list_groups pairs_group_rows by auto
  have "set (concat (map snd ?r)) = fetchable d shas" by (rule v1_packs(2) [OF assms])
  also have "\<dots> = {p \<in> set (packs d). p_sha256 p \<in> set shas \<and> p_sha256 p \<notin> set (get_missing_packs d shas)}"
    unfolding set_missing_packs [OF assms] fetchable_def using schema_pack_unique [OF assms] by blast
  finally have "set (concat (map snd ?r)) = \<dots>" .
  moreover have "distinct (map fst ?r)" "[] \<notin> snd ` set ?r"
    using group_rows_ok [of "[]"] unfolding get_pick_list_groups by auto
  ultimately show ?thesis using v1_packs(1) [OF assms] unfolding pairs first_row_iff [OF assms] by blast
qed

theorem pick_list_spec_witness:
  "distinct (map fst (get_pick_list demo_catalog [''aa'', ''zz'', ''aa''] ''Home'')) \<and>
   get_pick_list demo_catalog [''aa'', ''zz'', ''aa''] ''Home'' = [(''A1'', packs demo_catalog)]"
proof -
  have "get_pick_list demo_catalog [''aa'', ''zz'', ''aa''] ''Home'' = [(''A1'', packs demo_catalog)]" by code_simp
  then show ?thesis using pick_list_spec [OF demo_ok(1), of "[''aa'', ''zz'', ''aa'']" "''Home''"] by simp
qed

end
