(* ===== verification/Catalog_Reports.thy ===== *)
theory Catalog_Reports
  imports Catalog_Picks
begin

text \<open>
  The reports: the archive summary, the stage pool, the packs a lost volume leaves behind, the
  redundancy report, and the password split guard.
\<close>

section \<open>Archive summary\<close>

lemma in_service_cases:
  "v_status v \<in> set VOLUME_STATUSES \<Longrightarrow> in_service v \<longleftrightarrow> durable_volume v \<or> never_burned v"
  by (auto simp: VOLUME_STATUSES_def in_service_def durable_volume_def never_burned_def DURABLE_VOLUME_STATUSES_def)

lemma holders_in_service:
  "schema_ok d \<Longrightarrow> list_ex in_service (holders d i) \<longleftrightarrow>
     list_ex durable_volume (holders d i) \<or> list_ex never_burned (holders d i)"
proof -
  assume "schema_ok d"
  then have "\<forall>v\<in>set (holders d i). in_service v \<longleftrightarrow> durable_volume v \<or> never_burned v"
    by (auto simp: set_holders in_service_cases schema_ok_def volumes_ok_def list_all_iff)
  then show ?thesis unfolding list_ex_iff by blast
qed

lemma sql_count_buckets:
  "length xs = sql_count P xs + sql_count (\<lambda>x. \<not> P x \<and> D x) xs +
     sql_count (\<lambda>x. \<not> P x \<and> N x \<and> \<not> D x) xs + sql_count (\<lambda>x. \<not> P x \<and> \<not> (D x \<or> N x)) xs"
  "sql_count (\<lambda>x. \<not> P x \<and> N x \<and> \<not> D x) xs + sql_count (\<lambda>x. \<not> P x \<and> \<not> (D x \<or> N x)) xs =
     length (filter (\<lambda>x. \<not> P x \<and> \<not> D x) xs)"
  by (induction xs) (auto simp: sql_count_def)

lemma sum_list_sort_key: "sum_list (map f (sort_key k xs)) = (sum_list (map f xs) :: int)"
proof -
  have "mset (map f (sort_key k xs)) = mset (map f xs)" by simp
  then show ?thesis by (metis sum_mset_sum_list)
qed

text \<open>
  The archive summary is a partition: every pack is counted in exactly one of pruned, archived,
  staged and unarchived; the stage pool holds exactly the staged and unarchived packs; and the byte
  total shown for the pool is the total of the packs in it.
\<close>

theorem archive_summary_partition:
  assumes "schema_ok d"
  shows "a_total (get_archive_status_summary d) =
       a_pruned (get_archive_status_summary d) + a_archived (get_archive_status_summary d) +
       a_staged (get_archive_status_summary d) + a_unarchived (get_archive_status_summary d) \<and>
     a_staged (get_archive_status_summary d) + a_unarchived (get_archive_status_summary d) =
       length (get_unarchived_packs d None) \<and>
     get_total_unarchived_bytes d r = sum_list (map p_size_bytes (get_unarchived_packs d r))"
proof -
  let ?D = "\<lambda>p. list_ex durable_volume (holders d (p_id p))"
  let ?N = "\<lambda>p. list_ex never_burned (holders d (p_id p))"
  have "length (get_unarchived_packs d None) = length (filter (\<lambda>p. \<not> p_is_pruned p \<and> \<not> ?D p) (packs d))"
    by (simp add: get_unarchived_packs_def repo_filter_def has_durable_link_def)
  moreover have "get_total_unarchived_bytes d r = sum_list (map p_size_bytes (get_unarchived_packs d r))"
    by (simp add: get_total_unarchived_bytes_def get_unarchived_packs_def sum_list_sort_key)
  ultimately show ?thesis
    using sql_count_buckets [where P = p_is_pruned and D = ?D and N = ?N and xs = "packs d"]
    by (simp add: get_archive_status_summary_def holders_in_service [OF assms])
qed

theorem archive_summary_partition_witness:
  "a_total (get_archive_status_summary demo_catalog) = 1 \<and> a_archived (get_archive_status_summary demo_catalog) = 1 \<and>
   length (get_unarchived_packs demo_catalog None) = 0"
proof -
  have "a_total (get_archive_status_summary demo_catalog) = 1" "a_archived (get_archive_status_summary demo_catalog) = 1"
    by code_simp+
  then show ?thesis using archive_summary_partition [OF demo_ok(1)] by simp
qed

section \<open>Lost volumes\<close>

lemma set_packs_for_volume:
  "set (get_packs_for_volume d i) = {p \<in> set (packs d). (i, p_id p) \<in> set (volume_packs d)}"
  by (force simp: get_packs_for_volume_def)

lemma set_unarchived:
  "set (get_unarchived_packs d None) = {p \<in> set (packs d). \<not> p_is_pruned p \<and> \<not> has_durable_link d p}"
  by (auto simp: get_unarchived_packs_def repo_filter_def)

lemma set_lost_packs:
  "set (mirror_only (get_lost_volume_packs d i)) =
     {p \<in> set (packs d). (i, p_id p) \<in> set (volume_packs d) \<and> \<not> has_durable_link d p \<and> \<not> p_is_pruned p}"
  "set (gone (get_lost_volume_packs d i)) =
     {p \<in> set (packs d). (i, p_id p) \<in> set (volume_packs d) \<and> \<not> has_durable_link d p \<and> p_is_pruned p}"
  by (force simp: get_lost_volume_packs_def Let_def)+

text \<open>
  What a lost volume leaves behind. Of the packs of a volume, \<open>mirror_only\<close> is exactly the part in
  the stage pool, so the next staging burns them again, and \<open>gone\<close> is exactly the pruned packs no
  durable volume holds; together with the packs some durable volume still holds these are all packs
  of the volume.
\<close>

theorem lost_volume_packs_spec:
  "set (mirror_only (get_lost_volume_packs d i)) =
     set (get_unarchived_packs d None) \<inter> set (get_packs_for_volume d i) \<and>
   set (gone (get_lost_volume_packs d i)) =
     {p \<in> set (get_packs_for_volume d i). p_is_pruned p \<and> \<not> has_durable_link d p} \<and>
   set (get_packs_for_volume d i) =
     set (mirror_only (get_lost_volume_packs d i)) \<union> set (gone (get_lost_volume_packs d i)) \<union>
     {p \<in> set (get_packs_for_volume d i). has_durable_link d p}"
  unfolding set_lost_packs set_unarchived set_packs_for_volume by blast

section \<open>Redundancy\<close>

text \<open>A catalog right after staging: one pack on one STAGING volume, no disc.\<close>

definition staged_catalog :: catalog where
  "staged_catalog = demo_catalog\<lparr>volumes := tl (volumes demo_catalog), volume_packs := [(2, 1)],
     volume_copies := [], volume_events := []\<rparr>"

text \<open>
  The redundancy report counts intent as a disc. In a catalog where a pack is linked only to a
  volume that is still STAGING and has no disc record, the pack is in the stage pool (no disc of it
  exists), and yet the report of packs with fewer than one disc does not list it.
\<close>

theorem redundancy_counts_unburned:
  "schema_ok staged_catalog \<and> a_archived (get_archive_status_summary staged_catalog) = 0 \<and>
   get_unarchived_packs staged_catalog None = packs demo_catalog \<and>
   get_redundancy_report staged_catalog 1 = []"
proof (intro conjI)
  show "schema_ok staged_catalog"
    by (simp add: schema_ok_def volumes_ok_def packs_ok_def volume_packs_ok_def names_ok_def
      copies_ok_def sessions_ok_def events_ok_def staged_catalog_def demo_catalog_def empty_catalog_def
      VOLUME_STATUSES_def)
qed code_simp+

end
