(* ===== verification/Catalog_Register.thy ===== *)
theory Catalog_Register
  imports Catalog_Bulk
begin

text \<open>
  Registration of packs and password splits, and the renaming of a location: what is written can be
  read back, and no constraint of the schema gets in the way.
\<close>

section \<open>Registering packs\<close>

lemma op_for_dml:
  assumes "schema_ok (db c)" "\<And>x d. x \<in> set xs \<Longrightarrow> schema_ok d \<Longrightarrow> Q d \<Longrightarrow> schema_ok (snd (g x d)) \<and> Q (snd (g x d))"
    "Q (db c)"
  shows "\<exists>c'. op_for xs (\<lambda>x. op_dml (g x)) c = (Inr (), c') \<and> db c' = foldl (\<lambda>d x. snd (g x d)) (db c) xs \<and>
     schema_ok (db c')"
  using assms
proof (induction xs arbitrary: c)
  case (Cons x xs)
  let ?c = "c\<lparr>in_tx := True, db := snd (g x (db c))\<rparr>"
  have x: "schema_ok (snd (g x (db c)))" "Q (snd (g x (db c)))" using Cons.prems by auto
  then obtain c' where "op_for xs (\<lambda>x. op_dml (g x)) ?c = (Inr (), c')"
    "db c' = foldl (\<lambda>d x. snd (g x d)) (db ?c) xs" "schema_ok (db c')"
    using Cons.IH [of ?c] Cons.prems(2) by auto
  then show ?case using x by (simp add: op_bind_dml)
qed (simp add: op_ret_def)

lemma map_of_dict_put: "map_of (dict_put k x m) = (map_of m)(k \<mapsto> x)"
  by (induction k x m rule: dict_put.induct) auto

lemma map_of_pack_map:
  assumes "schema_ok d" "p \<in> set (packs d)" "p_sha256 p \<in> set shas"
  shows "map_of (pack_map shas d) (p_sha256 p) = Some p"
proof -
  have inner: "map_of (foldl (\<lambda>m q. dict_put (p_sha256 q) q m) m qs) (p_sha256 p) = Some p"
    if "set qs \<subseteq> set (packs d)" "p \<in> set qs \<or> map_of m (p_sha256 p) = Some p" for m qs
    using that
  proof (induction qs arbitrary: m)
    case (Cons q qs)
    then show ?case using schema_pack_unique [OF assms(1) _ assms(2)] by (auto simp: map_of_dict_put)
  qed simp
  have outer: "map_of (foldl (\<lambda>m batch. foldl (\<lambda>m q. dict_put (p_sha256 q) q m) m
          (filter (\<lambda>q. p_sha256 q \<in> set batch) (packs d))) m bs) (p_sha256 p) = Some p"
    if "p_sha256 p \<in> (\<Union>b\<in>set bs. set b) \<or> map_of m (p_sha256 p) = Some p" for m bs
    using that
  proof (induction bs arbitrary: m)
    case (Cons b bs)
    let ?m = "foldl (\<lambda>m q. dict_put (p_sha256 q) q m) m (filter (\<lambda>q. p_sha256 q \<in> set b) (packs d))"
    have "p_sha256 p \<in> (\<Union>b\<in>set bs. set b) \<or> map_of ?m (p_sha256 p) = Some p"
      using Cons.prems inner [of "filter (\<lambda>q. p_sha256 q \<in> set b) (packs d)" m] assms(2) by auto
    then show ?case using Cons.IH by simp
  qed simp
  have "p_sha256 p \<in> (\<Union>b\<in>set (chunks SQLITE_BATCH shas). set b)"
    using assms(3) set_chunks [of SQLITE_BATCH shas] by (simp add: SQLITE_BATCH_def)
  then show ?thesis unfolding pack_map_def by (intro outer disjI1)
qed

lemma insert_packs_grow:
  fixes now :: string and d :: catalog
  defines "step \<equiv> \<lambda>d (x :: string \<times> int \<times> string). snd (insert_pack now (fst x) (fst (snd x)) (snd (snd x)) d)"
  shows "\<exists>new. packs (foldl step d xs) = packs d @ new \<and>
     (\<forall>p\<in>set new. (p_sha256 p, p_size_bytes p, p_repo_id p) \<in> set xs \<and> p_sha256 p \<notin> p_sha256 ` set (packs d)) \<and>
     fst ` set xs \<subseteq> p_sha256 ` set (packs d @ new)"
proof (induction xs arbitrary: d)
  case (Cons x xs)
  obtain h n r where x: "x = (h, n, r)" by (cases x)
  obtain new where new: "packs (foldl step (step d x) xs) = packs (step d x) @ new"
    "\<forall>p\<in>set new. (p_sha256 p, p_size_bytes p, p_repo_id p) \<in> set xs \<and> p_sha256 p \<notin> p_sha256 ` set (packs (step d x))"
    "fst ` set xs \<subseteq> p_sha256 ` set (packs (step d x) @ new)"
    using Cons.IH by blast
  show ?case
  proof (cases "h \<in> p_sha256 ` set (packs d)")
    case True
    then have "step d x = d" by (simp add: step_def x insert_pack_def)
    then show ?thesis using new True by (intro exI [of _ new]) (auto simp: x)
  next
    case False
    let ?p = "\<lparr>p_id = seq_packs d + 1, p_sha256 = h, p_size_bytes = n, p_repo_id = r, p_is_pruned = False,
        p_created_at = now\<rparr>"
    have "packs (step d x) = packs d @ [?p]" using False by (simp add: step_def x insert_pack_def)
    then show ?thesis using new False by (intro exI [of _ "?p # new"]) (auto simp: x)
  qed
qed simp

text \<open>
  Bulk registration. When every named repository is registered, registering a list of packs (any
  length, repetitions allowed) commits and returns one row per list entry, in order, with that
  entry's hash; the catalog still meets the schema. Packs already known keep their rows, and every new row has a size and repository
  given for its hash.
\<close>

lemma bulk_register_runs:
  assumes "clean c" "snd ` snd ` set xs \<subseteq> r_id ` set (repositories (db c))"
  shows "\<exists>rows new c'. bulk_register xs c = (Inr rows, c') \<and> durable c' = db c' \<and> schema_ok (db c') \<and>
     map p_sha256 rows = map fst xs \<and> set rows \<subseteq> set (packs (db c')) \<and>
     packs (db c') = packs (db c) @ new \<and>
     (\<forall>p. p \<notin> set new \<or> (p_sha256 p, p_size_bytes p, p_repo_id p) \<in> set xs)"
proof (cases "xs = []")
  case True
  then show ?thesis using clean_conn [OF assms(1)] by (simp add: bulk_register_def op_ret_def)
next
  case False
  let ?g = "\<lambda>x. insert_pack (now_sql c) (fst x) (fst (snd x)) (snd (snd x))"
  let ?Q = "\<lambda>d. repositories d = repositories (db c)"
  have "schema_ok (snd (?g x d)) \<and> ?Q (snd (?g x d))" if "x \<in> set xs" "schema_ok d" "?Q d" for x d
  proof
    show "schema_ok (snd (?g x d))" by (rule schema_insert_pack) (use that assms(2) in auto)
    show "?Q (snd (?g x d))" using that by (simp add: insert_pack_def)
  qed
  then obtain c1 where c1: "op_for xs (\<lambda>x. op_dml (?g x)) c = (Inr (), c1)"
    "db c1 = foldl (\<lambda>d x. snd (?g x d)) (db c) xs" "schema_ok (db c1)"
    using op_for_dml [where Q = ?Q and g = ?g and xs = xs, OF clean_conn(1) [OF assms(1)]] by blast
  obtain new where new: "packs (db c1) = packs (db c) @ new"
    "\<forall>p\<in>set new. (p_sha256 p, p_size_bytes p, p_repo_id p) \<in> set xs"
    "fst ` set xs \<subseteq> p_sha256 ` set (packs (db c1))"
    using insert_packs_grow [where d = "db c" and now = "now_sql c" and xs = xs] unfolding c1(2) by (auto simp: split_beta)
  let ?m = "pack_map (map fst xs) (db c1)"
  have m: "\<exists>p\<in>set (packs (db c1)). map_of ?m (fst x) = Some p \<and> p_sha256 p = fst x" if "x \<in> set xs" for x
  proof -
    have "fst x \<in> p_sha256 ` set (packs (db c1))" using new(3) imageI [OF that, of fst] by blast
    then obtain p where p: "p \<in> set (packs (db c1))" "p_sha256 p = fst x" by auto
    moreover have "p_sha256 p \<in> set (map fst xs)" using p that by simp
    ultimately show ?thesis using map_of_pack_map [OF c1(3) p(1)] by metis
  qed
  let ?rows = "map (\<lambda>p. the (map_of ?m (fst p))) xs"
  have "list_all (\<lambda>p. map_of ?m (fst p) \<noteq> None) xs" using m by (fastforce simp: list_all_iff)
  moreover have "(\<lambda>(h, n, r). op_dml (insert_pack (now_sql c) h n r)) = (\<lambda>x. op_dml (?g x))"
    by (rule ext) (simp add: split_beta)
  ultimately have "bulk_register xs c = (Inr ?rows, snd (op_commit c1))"
    using False c1(1) by (simp add: bulk_register_def op_bind_simps)
      (simp add: op_bind_def op_commit_def op_query_def op_ret_def)
  moreover have "map p_sha256 ?rows = map fst xs" "set ?rows \<subseteq> set (packs (db c1))"
    using m by fastforce+
  ultimately show ?thesis using new(1,2) c1(3) by (auto simp: op_commit_def)
qed

section \<open>Renaming a location\<close>

definition relocated :: "string \<Rightarrow> string \<Rightarrow> string \<Rightarrow> string" where
  "relocated old new l = (if l = old then new else l)"

lemma repoint_catalog:
  "snd (repoint_location old new loc d) = d\<lparr>
     locations := filter (\<lambda>l. l_name l \<noteq> old) (locations d @
       [\<lparr>l_name = new, l_created_at = l_created_at loc, l_description = l_description loc\<rparr>]),
     volume_copies := map (\<lambda>x. x\<lparr>vc_location := relocated old new (vc_location x)\<rparr>) (volume_copies d),
     volume_events := map (\<lambda>e. e\<lparr>e_location := map_option (relocated old new) (e_location e)\<rparr>) (volume_events d),
     volumes := map (\<lambda>v. v\<lparr>v_location := relocated old new (v_location v)\<rparr>) (volumes d)\<rparr>"
proof -
  have c: "(if vc_location x = old then x\<lparr>vc_location := new\<rparr> else x) =
      x\<lparr>vc_location := relocated old new (vc_location x)\<rparr>" for x :: volume_copy
    by (simp add: relocated_def)
  have v: "(if v_location x = old then x\<lparr>v_location := new\<rparr> else x) =
      x\<lparr>v_location := relocated old new (v_location x)\<rparr>" for x :: volume
    by (simp add: relocated_def)
  have e: "(if e_location x = Some old then x\<lparr>e_location := Some new\<rparr> else x) =
      x\<lparr>e_location := map_option (relocated old new) (e_location x)\<rparr>" for x :: volume_event
    by (cases "e_location x") (auto simp: relocated_def)
  show ?thesis by (rule catalog.equality) (simp_all add: repoint_location_def Let_def sql_update_def c v e)
qed

lemma schema_repoint:
  assumes ok: "schema_ok d" and new: "new \<notin> l_name ` set (locations d)" and old: "old \<noteq> new"
  shows "schema_ok (snd (repoint_location old new loc d))" (is "schema_ok ?d")
proof (rule schema_okI)
  let ?L = "l_name ` set (locations ?d)"
  have L: "?L = insert new (l_name ` set (locations d) - {old})"
    unfolding repoint_catalog using old by auto
  have inL: "relocated old new l \<in> ?L" if "l \<in> l_name ` set (locations d)" for l
    using that unfolding L by (auto simp: relocated_def)
  have inj: "inj_on (\<lambda>x. (vc_volume_id x, relocated old new (vc_location x))) (set (volume_copies d))"
  proof (rule inj_onI)
    fix x y assume xy: "x \<in> set (volume_copies d)" "y \<in> set (volume_copies d)"
      "(vc_volume_id x, relocated old new (vc_location x)) = (vc_volume_id y, relocated old new (vc_location y))"
    then have "vc_location x \<noteq> new" "vc_location y \<noteq> new" using copy_location [OF ok] new by auto
    then have "(vc_volume_id x, vc_location x) = (vc_volume_id y, vc_location y)"
      using xy(3) by (auto simp: relocated_def split: if_splits)
    then show "x = y" using schema_okD(5) [OF ok] xy(1,2) by (auto simp: copies_ok_def distinct_map inj_on_def)
  qed
  show "copies_ok ?d"
    using schema_okD(5) [OF ok] inj inL
    by (auto simp: copies_ok_def distinct_map list_all_iff repoint_catalog comp_def image_image)
  show "events_ok ?d"
    using schema_okD(7) [OF ok] inL
    by (auto simp: events_ok_def list_all_iff repoint_catalog comp_def image_image split: option.splits) blast
  show "names_ok ?d"
    using schema_okD(4) [OF ok] new old
    by (auto simp: names_ok_def repoint_catalog distinct_map_filter)
qed (use schema_okD [OF ok] in \<open>simp_all add: volumes_ok_def packs_ok_def volume_packs_ok_def sessions_ok_def
  repoint_catalog comp_def image_image list_all_iff\<close>)

text \<open>
  Renaming a location. It raises exactly when the old name is unknown or the new one is taken, and
  then nothing has changed; otherwise it commits, and on disk the new name stands wherever the old one
  stood (the location row, discs, events and volumes), the old name is gone, and everything else is
  as before.
\<close>

theorem rename_location_spec:
  assumes "clean c"
  shows "case rename_location old new c of
      (Inl e, c') \<Rightarrow>
        db c' = db c \<and> durable c' = durable c \<and>
        (if old \<notin> l_name ` set (locations (db c)) then e = Location_not_found old
         else e = Location_exists new \<and> new \<in> l_name ` set (locations (db c)))
    | (Inr n, c') \<Rightarrow>
        durable c' = db c' \<and> schema_ok (db c') \<and>
        old \<in> l_name ` set (locations (db c)) \<and> new \<notin> l_name ` set (locations (db c)) \<and>
        l_name ` set (locations (db c')) = insert new (l_name ` set (locations (db c)) - {old}) \<and>
        (\<exists>ls. db c' = (db c)\<lparr>locations := ls,
          volume_copies := map (\<lambda>x. x\<lparr>vc_location := relocated old new (vc_location x)\<rparr>) (volume_copies (db c)),
          volume_events := map (\<lambda>e. e\<lparr>e_location := map_option (relocated old new) (e_location e)\<rparr>)
            (volume_events (db c)),
          volumes := map (\<lambda>v. v\<lparr>v_location := relocated old new (v_location v)\<rparr>) (volumes (db c))\<rparr>)"
proof -
  note ok = clean_conn [OF assms]
  have distinct: "distinct (map l_name (locations (db c)))" using ok(1) by (simp add: schema_ok_def names_ok_def)
  have found: "find (\<lambda>l. l_name l = n) (locations (db c)) = None \<longleftrightarrow> n \<notin> l_name ` set (locations (db c))" for n
    by (auto simp: find_None_iff)
  show ?thesis
  proof (cases "find (\<lambda>l. l_name l = old) (locations (db c))")
    case None
    then show ?thesis
      using found [of old]
      by (simp add: rename_location_def get_location_def op_bind_def op_query_def op_raise_def)
  next
    case (Some loc)
    have get: "get_location old c = (Inr loc, c)"
      using Some by (simp add: get_location_def op_bind_def op_query_def op_ret_def)
    have old: "old \<in> l_name ` set (locations (db c))" using found [of old] Some by force
    show ?thesis
    proof (cases "new \<in> l_name ` set (locations (db c))")
      case True
      then have "find (\<lambda>l. l_name l = new) (locations (db c)) \<noteq> None" using found by blast
      then show ?thesis
        using get old True
        by (simp add: rename_location_def op_bind_def op_query_def op_raise_if_def op_raise_def)
    next
      case False
      then have ne: "old \<noteq> new" using old by auto
      let ?d = "snd (repoint_location old new loc (db c))"
      let ?c = "snd (op_commit c)"
      have okd: "schema_ok ?d" by (rule schema_repoint [OF ok(1) False ne])
      have dml: "op_dml (repoint_location old new loc) ?c =
          (Inr (fst (repoint_location old new loc (db c))), ?c\<lparr>in_tx := True, db := ?d\<rparr>)"
        using op_dml_runs [of "repoint_location old new loc" ?c] okd by (simp add: op_commit_def)
      have "find (\<lambda>l. l_name l = new) (locations (db c)) = None" using False found by blast
      then have r: "rename_location old new c = (Inr (fst (repoint_location old new loc (db c))),
          snd (op_commit (?c\<lparr>in_tx := True, db := ?d\<rparr>)))"
        using get dml
        by (simp add: rename_location_def op_bind_def op_query_def op_raise_if_def op_ret_def op_commit_def
            op_on_error_def)
      have "l_name ` set (locations ?d) = insert new (l_name ` set (locations (db c)) - {old})"
        unfolding repoint_catalog using ne by auto
      then show ?thesis
        using old False okd unfolding r
        by (auto simp: op_commit_def repoint_catalog)
    qed
  qed
qed

theorem rename_location_spec_witness:
  "\<exists>n c'. rename_location ''Home'' ''Attic'' (open_connection demo_catalog) = (Inr n, c') \<and>
     l_name ` set (locations (durable c')) = {''Attic''}"
proof -
  let ?r = "rename_location ''Home'' ''Attic'' (open_connection demo_catalog)"
  have r: "fst ?r = Inr 4" by code_simp
  then obtain c' where "?r = (Inr 4, c')" by (metis prod.collapse)
  moreover have "l_name ` set (locations (db (open_connection demo_catalog))) = {''Home''}"
    by (simp add: open_connection_def demo_catalog_def)
  ultimately show ?thesis using rename_location_spec [OF demo_ok(2), of "''Home''" "''Attic''"] by simp
qed

end
