(* ===== verification/Catalog_Splits.thy ===== *)
theory Catalog_Splits
  imports Catalog_Register
begin

text \<open>
  The recorded password splits and the drift guard: a burn goes ahead exactly when the
  configuration of every repository agrees with the split that was recorded for it.
\<close>

section \<open>Agreement\<close>

text \<open>The configuration of a repository agrees with its record.\<close>

definition split_agrees :: "bool \<times> int \<times> int \<Rightarrow> key_escrow option \<Rightarrow> bool" where
  "split_agrees config record =
     (case config of (split, threshold, shares) \<Rightarrow>
        if split then (case record of None \<Rightarrow> False | Some k \<Rightarrow> k_threshold k = threshold \<and> k_shares k = shares)
        else record = None)"

definition display_name :: "catalog \<Rightarrow> string \<Rightarrow> string" where
  "display_name d repo_id =
     (case repo_name repo_id d of None \<Rightarrow> repo_id | Some n \<Rightarrow> if n = [] then repo_id else n)"

definition config_of ::
  "(string \<Rightarrow> bool \<times> int \<times> int) option \<Rightarrow> bool \<times> int \<times> int \<Rightarrow> (string \<times> string) list \<Rightarrow> catalog \<Rightarrow> string
     \<Rightarrow> bool \<times> int \<times> int" where
  "config_of split_for defaults names d repo_id =
     (case split_for of None \<Rightarrow> defaults
      | Some f \<Rightarrow> f (case map_of names repo_id of None \<Rightarrow> display_name d repo_id | Some k \<Rightarrow> k))"

lemma repo_drift_None:
  "repo_drift split_for defaults names d r = None \<longleftrightarrow>
     split_agrees (config_of split_for defaults names d r) (get_split_for_repo r d)"
proof -
  obtain split k n where c: "config_of split_for defaults names d r = (split, k, n)" by (metis prod_cases3)
  note c' = c [unfolded config_of_def display_name_def]
  show ?thesis
    by (cases "get_split_for_repo r d") (auto simp: repo_drift_def Let_def c' c split_agrees_def)
qed

text \<open>
  The drift guard. It reads the catalog and changes nothing; it reports no drift exactly when for
  every repository to be burned the configuration that applies to it (the repository's own table, or
  the defaults) agrees with its record: a configured split has a record with the same K and N, and
  without a configured split there is no record.
\<close>

theorem escrow_drift_spec:
  "\<exists>r. detect_escrow_drift ids defaults split_for names c = (Inr r, c) \<and>
     (r = None) = list_all (\<lambda>i. split_agrees (config_of split_for defaults names (db c) i)
        (get_split_for_repo i (db c))) ids"
  by (simp add: detect_escrow_drift_def op_query_def repo_drift_None list_all_iff)

section \<open>Recording\<close>

lemma schema_put_split:
  assumes ok: "schema_ok d" shows "schema_ok (snd (put_split k d))" (is "schema_ok ?d")
proof (rule schema_okI)
  have "map k_repo_id (sql_update (\<lambda>r. k_repo_id r = k_repo_id k) (\<lambda>_. k) ks) = map k_repo_id ks" for ks
    by (simp add: sql_update_def)
  then show "names_ok ?d"
    using schema_okD(4) [OF ok] by (auto simp: names_ok_def put_split_def split: option.splits)
qed (use schema_okD [OF ok] in \<open>simp_all add: volumes_ok_def packs_ok_def volume_packs_ok_def copies_ok_def
  sessions_ok_def events_ok_def put_split_def cong: option.case_cong\<close>)

lemma find_put_split:
  assumes "key_escrows d \<noteq> None"
  shows "find_split r (snd (put_split k d)) = (if r = k_repo_id k then Some k else find_split r d)"
proof -
  obtain ks where ks: "key_escrows d = Some ks" using assms by auto
  have "find (\<lambda>x. k_repo_id x = r) (sql_update (\<lambda>x. k_repo_id x = k_repo_id k) (\<lambda>_. k) ks) =
      (if r = k_repo_id k then (if k_repo_id k \<in> k_repo_id ` set ks then Some k else None)
       else find (\<lambda>x. k_repo_id x = r) ks)"
    by (induction ks) (auto simp: sql_update_def)
  moreover have "find (\<lambda>x. k_repo_id x = r) ks = None \<longleftrightarrow> r \<notin> k_repo_id ` set ks"
    by (auto simp: find_None_iff)
  ultimately show ?thesis
    using ks by (cases "k_repo_id k \<in> k_repo_id ` set ks") (auto simp: find_split_def put_split_def find_append image_iff)
qed

text \<open>
  A recorded split is the one the guard compares with. On a catalog that can record splits, recording
  K of N for a repository commits and returns the record; it is what every reader then gets for that
  repository, the other repositories' own records are untouched, and the guard passes this repository
  exactly when the configuration says K of N. On an older catalog recording raises and nothing changes.
\<close>

theorem record_split_spec:
  assumes "clean c"
  shows "case record_split r k n i t True c of
      (Inr rec, c') \<Rightarrow>
        durable c' = db c' \<and> k_threshold rec = k \<and> k_shares rec = n \<and> k_slip39_id rec = i \<and>
        get_split_for_repo r (db c') = Some rec \<and>
        (\<forall>s. find_split s (db c') = (if s = r then Some rec else find_split s (db c))) \<and>
        (\<forall>split k' n'. fst (detect_escrow_drift [r] (split, k', n') None [] c') = Inr None \<longleftrightarrow>
           split \<and> k' = k \<and> n' = n)
    | (Inl e, c') \<Rightarrow> e = Operational_error \<and> key_escrows (db c) = None \<and> c' = c"
proof (cases "key_escrows (db c)")
  case None
  then show ?thesis
    by (simp add: record_split_def op_bind_simps table_exists_def op_raise_if_def)
next
  case (Some ks)
  let ?k = "\<lparr>k_repo_id = r, k_threshold = k, k_shares = n, k_slip39_id = i,
      k_split_at = (case t of None \<Rightarrow> now_iso c | Some t \<Rightarrow> t)\<rparr>"
  let ?d = "snd (put_split ?k (db c))"
  have okd: "schema_ok ?d" by (rule schema_put_split [OF clean_conn(1) [OF assms]])
  have f: "find_split s ?d = (if s = r then Some ?k else find_split s (db c))" for s
    using find_put_split [of "db c" s ?k] Some by simp
  have run: "record_split r k n i t True c = (Inr ?k, snd (op_commit (c\<lparr>in_tx := True, db := ?d\<rparr>)))"
    using Some okd f
    by (simp add: record_split_def op_bind_simps table_exists_def op_raise_if_def op_bind_dml op_commit_if_def)
      (simp add: op_bind_def op_commit_def get_split_def op_query_def op_ret_def)
  have g: "get_split_for_repo r ?d = Some ?k" by (simp add: get_split_for_repo_def f)
  have "fst (detect_escrow_drift [r] (split, k', n') None [] (snd (op_commit (c\<lparr>in_tx := True, db := ?d\<rparr>)))) = Inr None \<longleftrightarrow>
      split \<and> k' = k \<and> n' = n" for split k' n'
    using g by (auto simp: detect_escrow_drift_def op_query_def op_commit_def repo_drift_None split_agrees_def
        config_of_def simp del: first_some.simps)
  then show ?thesis using g f by (simp add: run op_commit_def)
qed

theorem record_split_spec_witness:
  "\<exists>rec c'. record_split ''R'' 2 3 77 None True (open_connection demo_catalog) = (Inr rec, c') \<and>
     get_split_for_repo ''R'' (durable c') = Some rec \<and> k_threshold rec = 2"
proof -
  let ?r = "record_split ''R'' 2 3 77 None True (open_connection demo_catalog)"
  have "isl (fst ?r) = False" by code_simp
  then obtain rec c' where "?r = (Inr rec, c')" by (metis prod.collapse sum.disc(1) sum.exhaust_sel sum.collapse(2))
  then show ?thesis using record_split_spec [OF demo_ok(2), where r = "''R''" and k = 2 and n = 3 and i = 77 and t = None] by simp
qed

end
