(* ===== verification/Binpack.thy ===== *)
theory Binpack
  imports Catalog_Db "HOL-Library.Multiset"
begin

text \<open>
  Volume planning: the media types of \<open>config/media.py\<close>, first-fit decreasing and the volume estimate of
  \<open>binpack/algorithm.py\<close>, and the loop \<open>BurnOrchestrator._multi_bin_pack\<close> that fills volume after
  volume. Sizes are Python integers. The code computes \<open>int(n / 100)\<close> in floating point; for
  \<open>0 \<le> n < 100 * 2 ^ 46\<close> (capacities to 70 terabytes) the rounding error of the quotient is
  below a hundredth, so the truncated value is the integer quotient used here.
\<close>

section \<open>Media types\<close>

datatype media_type = CD700 | BD25 | BD50 | BDXL100 | MDISC25 | MDISC50 | MDISC100 | TEST_TINY

definition MEDIA_TYPES :: "media_type list" where
  "MEDIA_TYPES = [CD700, BD25, BD50, BDXL100, MDISC25, MDISC50, MDISC100, TEST_TINY]"

fun media_value :: "media_type \<Rightarrow> int \<times> int \<times> string" where
  "media_value CD700 = (737280000, 15, ''CD-R'')"
| "media_value BD25 = (25025314816, 15, ''BD-R'')"
| "media_value BD50 = (50050629632, 15, ''BD-R DL'')"
| "media_value BDXL100 = (100103356416, 15, ''BD-R XL'')"
| "media_value MDISC25 = (25025314816, 15, ''M-DISC'')"
| "media_value MDISC50 = (50050629632, 15, ''M-DISC DL'')"
| "media_value MDISC100 = (100103356416, 15, ''M-DISC XL'')"
| "media_value TEST_TINY = (2097152, 0, ''TEST'')"

fun media_name :: "media_type \<Rightarrow> string" where
  "media_name CD700 = ''CD700''" | "media_name BD25 = ''BD25''" | "media_name BD50 = ''BD50''"
| "media_name BDXL100 = ''BDXL100''" | "media_name MDISC25 = ''MDISC25''" | "media_name MDISC50 = ''MDISC50''"
| "media_name MDISC100 = ''MDISC100''" | "media_name TEST_TINY = ''TEST_TINY''"

definition capacity_bytes :: "media_type \<Rightarrow> int" where "capacity_bytes t = fst (media_value t)"
definition ecc_overhead_pct :: "media_type \<Rightarrow> int" where "ecc_overhead_pct t = fst (snd (media_value t))"
definition media_family :: "media_type \<Rightarrow> string" where "media_family t = snd (snd (media_value t))"

text \<open>\<open>int(n / 100)\<close>: truncation towards zero.\<close>

definition trunc_percent :: "int \<Rightarrow> int" where
  "trunc_percent n = (if 0 \<le> n then n div 100 else - ((- n) div 100))"

definition usable_bytes :: "media_type \<Rightarrow> int" where
  "usable_bytes t = trunc_percent (capacity_bytes t * (100 - ecc_overhead_pct t))"

definition is_test :: "media_type \<Rightarrow> bool" where
  "is_test t = starts_with (media_name t) ''TEST''"

definition label_name :: "media_type \<Rightarrow> string" where
  "label_name t = media_name t"

section \<open>First-fit decreasing\<close>

fun ffd_loop ::
  "int \<Rightarrow> (string \<times> int) list \<Rightarrow> (string \<times> int) list \<Rightarrow> (string \<times> int) list \<Rightarrow> int
     \<Rightarrow> (string \<times> int) list \<times> (string \<times> int) list" where
  "ffd_loop usable [] selected remaining fill = (selected, remaining)"
| "ffd_loop usable ((i, s) # rest) selected remaining fill =
     (if fill + s \<le> usable then ffd_loop usable rest (selected @ [(i, s)]) remaining (fill + s)
      else ffd_loop usable rest selected (remaining @ [(i, s)]) fill)"

definition ffd_key :: "string \<times> int \<Rightarrow> int \<times> string" where
  "ffd_key x = (- snd x, fst x)"

definition first_fit_decreasing ::
  "(string \<times> int) list \<Rightarrow> int \<Rightarrow> int \<Rightarrow> (string \<times> int) list \<times> (string \<times> int) list" where
  "first_fit_decreasing items capacity reserved =
     (let usable = capacity - reserved in
      if usable \<le> 0 then ([], items) else ffd_loop usable (sort_key ffd_key items) [] [] 0)"

datatype plan_error =
    No_usable_capacity int int int
  | Packs_oversized "string list"
  | Cannot_fit_remaining

definition estimate_volumes_needed :: "int \<Rightarrow> int \<Rightarrow> int \<Rightarrow> int \<Rightarrow> (plan_error, int) result" where
  "estimate_volumes_needed total_bytes capacity reserved ecc_pct =
     (if total_bytes \<le> 0 then Inr 0
      else
        let usable = trunc_percent (capacity * (100 - ecc_pct)) - reserved in
        if usable \<le> 0 then Inl (No_usable_capacity capacity ecc_pct reserved)
        else Inr (max 1 ((total_bytes + usable - 1) div usable)))"

abbreviation total_size :: "(string \<times> int) list \<Rightarrow> int" where
  "total_size items \<equiv> sum_list (map snd items)"

lemma ffd_loop_mset:
  "ffd_loop usable items sel rem fill = (s, r) \<Longrightarrow> mset s + mset r = mset items + mset sel + mset rem"
  by (induction usable items sel rem fill arbitrary: s r rule: ffd_loop.induct) (auto split: if_splits)

lemma ffd_loop_fits:
  "ffd_loop usable items sel rem fill = (s, r) \<Longrightarrow> fill = total_size sel \<Longrightarrow> fill \<le> usable \<Longrightarrow>
     total_size s \<le> usable"
  by (induction usable items sel rem fill arbitrary: s r rule: ffd_loop.induct) (auto split: if_splits)

text \<open>What is left over does not fit beside what was selected.\<close>

lemma ffd_loop_maximal:
  assumes "ffd_loop usable items sel rem fill = (s, r)" "\<forall>x\<in>set items. 0 \<le> snd x" "fill = total_size sel"
    "\<forall>x\<in>set rem. usable < total_size sel + snd x"
  shows "\<forall>x\<in>set r. usable < total_size s + snd x"
  using assms
proof (induction usable items sel rem fill arbitrary: s r rule: ffd_loop.induct)
  case (2 usable i z rest sel rem fill)
  show ?case
  proof (cases "fill + z \<le> usable")
    case True
    have "0 \<le> z" using 2(4) by simp
    then have "\<forall>x\<in>set rem. usable < total_size (sel @ [(i, z)]) + snd x" using 2(6) by fastforce
    then show ?thesis using 2(1) [OF True, of s r] 2(3-5) True by simp
  next
    case False
    then show ?thesis using 2(2) [OF False, of s r] 2(3-6) by simp
  qed
qed simp

lemma inj_ffd_key: "inj ffd_key"
  by (auto simp: inj_on_def ffd_key_def prod_eq_iff)

lemma sort_key_mset:
  assumes "inj k" "mset xs = mset ys" shows "sort_key k xs = sort_key k ys"
proof -
  have s: "map k (sort_key k zs) = sort (map k zs)" for zs
    by (rule properties_for_sort [symmetric]) simp_all
  have "mset (map k xs) = mset (map k ys)" using assms(2) by simp
  then have "sort (map k xs) = sort (map k ys)" by (intro properties_for_sort) simp_all
  then show ?thesis using s [of xs] s [of ys] assms(1) by (metis inj_map_eq_map)
qed

lemma ffd_mset:
  "first_fit_decreasing items cap res = (s, r) \<Longrightarrow> mset s + mset r = mset items"
  by (auto simp: first_fit_decreasing_def Let_def dest!: ffd_loop_mset split: if_splits)

lemma ffd_fits: "first_fit_decreasing items cap res = (s, r) \<Longrightarrow> total_size s \<le> max 0 (cap - res)"
  using ffd_loop_fits [of "cap - res" "sort_key ffd_key items" "[]" "[]" 0 s r]
  by (auto simp: first_fit_decreasing_def Let_def split: if_splits)

lemma ffd_maximal:
  "first_fit_decreasing items cap res = (s, r) \<Longrightarrow> \<forall>x\<in>set items. 0 \<le> snd x \<Longrightarrow> 0 < cap - res \<Longrightarrow> x \<in> set r \<Longrightarrow>
     cap - res < total_size s + snd x"
  using ffd_loop_maximal [of "cap - res" "sort_key ffd_key items" "[]" "[]" 0 s r]
  by (auto simp: first_fit_decreasing_def Let_def split: if_splits)

text \<open>
  C11. First-fit decreasing. The selected and the remaining items are together exactly the items; the
  selected ones fit the usable capacity, and no remaining item fits beside them. The result does not
  depend on the order of the input. With no usable capacity nothing is selected.
\<close>

theorem first_fit_decreasing_spec:
  assumes "\<forall>x\<in>set items. 0 \<le> snd x"
  shows "case first_fit_decreasing items cap res of (s, r) \<Rightarrow>
     mset s + mset r = mset items \<and> total_size s \<le> max 0 (cap - res) \<and>
     (\<forall>x. x \<notin> set r \<or> cap - res \<le> 0 \<or> cap - res < total_size s + snd x) \<and>
     (\<forall>items'. mset items' \<noteq> mset items \<or> cap - res \<le> 0 \<or> first_fit_decreasing items' cap res = (s, r))"
proof -
  obtain s r where sr: "first_fit_decreasing items cap res = (s, r)" by fastforce
  have "\<forall>x. x \<notin> set r \<or> cap - res \<le> 0 \<or> cap - res < total_size s + snd x"
    using ffd_maximal [OF sr assms] by force
  moreover have "first_fit_decreasing items' cap res = (s, r)"
    if "mset items' = mset items" "\<not> cap - res \<le> 0" for items'
    using sr that sort_key_mset [OF inj_ffd_key that(1)] by (simp add: first_fit_decreasing_def Let_def)
  ultimately show ?thesis using ffd_mset [OF sr] ffd_fits [OF sr] sr by auto
qed

theorem first_fit_decreasing_spec_witness:
  "first_fit_decreasing [(''b'', 4), (''a'', 6), (''c'', 4)] 12 1 = ([(''a'', 6), (''b'', 4)], [(''c'', 4)]) \<and>
   first_fit_decreasing [(''c'', 4), (''a'', 6), (''b'', 4)] 12 1 = ([(''a'', 6), (''b'', 4)], [(''c'', 4)])"
proof -
  have e: "first_fit_decreasing [(''b'', 4), (''a'', 6), (''c'', 4)] 12 1 = ([(''a'', 6), (''b'', 4)], [(''c'', 4)])"
    by code_simp
  have "mset [(''c'', 4 :: int), (''a'', 6), (''b'', 4)] = mset [(''b'', 4), (''a'', 6), (''c'', 4)]" by simp
  then show ?thesis
    using first_fit_decreasing_spec [of "[(''b'', 4), (''a'', 6), (''c'', 4)]" 12 1] e by simp
qed

section \<open>Filling volume after volume\<close>

lemma ffd_subset: "first_fit_decreasing items cap res = (s, r) \<Longrightarrow> set s \<subseteq> set items"
  by (metis ffd_mset set_mset_mset set_mset_union Un_upper1)

abbreviation pack_item :: "pack \<Rightarrow> string \<times> int" where
  "pack_item p \<equiv> (p_sha256 p, p_size_bytes p)"

lemma selected_shrinks:
  assumes "fst (first_fit_decreasing (map pack_item remaining) cap res) = selected" "selected \<noteq> []"
  shows "length (filter (\<lambda>p. p_sha256 p \<notin> fst ` set selected) remaining) < length remaining"
proof -
  obtain x where x: "x \<in> set selected" using assms(2) by (meson last_in_set)
  then have "x \<in> set (map pack_item remaining)" 
    using ffd_subset [OF prod.collapse [symmetric]] assms(1) by blast
  then obtain p where p: "p \<in> set remaining" "p_sha256 p = fst x" by auto
  then have "\<not> p_sha256 p \<notin> fst ` set selected" using x by simp
  then show ?thesis by (rule length_filter_less [OF p(1)])
qed

function multi_bin_pack_loop ::
  "int \<Rightarrow> int \<Rightarrow> pack list \<Rightarrow> (pack list \<times> int) list \<Rightarrow> (plan_error, (pack list \<times> int) list) result" where
  "multi_bin_pack_loop cap res remaining plans =
     (if remaining = [] then Inr plans
      else
        let selected = fst (first_fit_decreasing (map pack_item remaining) cap res) in
        if selected = [] then
          let oversized = filter (\<lambda>p. p_size_bytes p > cap - res) remaining in
          Inl (if oversized \<noteq> [] then Packs_oversized (map p_sha256 oversized) else Cannot_fit_remaining)
        else
          let hashes = fst ` set selected in
          multi_bin_pack_loop cap res (filter (\<lambda>p. p_sha256 p \<notin> hashes) remaining)
            (plans @ [(filter (\<lambda>p. p_sha256 p \<in> hashes) remaining, total_size selected)]))"
  by pat_completeness auto

termination
  by (relation "measure (\<lambda>(cap, res, remaining, plans). length remaining)") (simp_all add: selected_shrinks)

declare multi_bin_pack_loop.simps [simp del]

definition multi_bin_pack :: "int \<Rightarrow> pack list \<Rightarrow> media_type \<Rightarrow> (plan_error, (pack list \<times> int) list) result" where
  "multi_bin_pack metadata_reserve_bytes ps t =
     multi_bin_pack_loop (usable_bytes t) metadata_reserve_bytes ps []"

text \<open>One round: with non-negative sizes and usable space, nothing is selected only if every pack is too
  large, and with different hashes the selected packs are exactly the selected items.\<close>

lemma ffd_selects:
  assumes "0 < cap - res" "x \<in> set items" "snd x \<le> cap - res" "\<forall>x\<in>set items. 0 \<le> snd x"
  shows "fst (first_fit_decreasing items cap res) \<noteq> []"
proof
  assume e: "fst (first_fit_decreasing items cap res) = []"
  then have "x \<in> set (snd (first_fit_decreasing items cap res))"
    using ffd_mset [of items cap res "[]"] assms(2) by (metis empty_neutral(1) mset.simps(1) prod.collapse set_mset_mset)
  then show False
    using ffd_maximal [OF prod.collapse [symmetric] assms(4,1), of x] e assms(3) by simp
qed

lemma selected_packs:
  assumes "distinct (map p_sha256 ps)" "first_fit_decreasing (map pack_item ps) cap res = (s, r)"
  shows "mset (map pack_item (filter (\<lambda>p. p_sha256 p \<in> fst ` set s) ps)) = mset s"
proof -
  have d: "distinct (map pack_item ps)" using assms(1) by (auto simp: distinct_map inj_on_def)
  have m: "mset s + mset r = mset (map pack_item ps)" by (rule ffd_mset [OF assms(2)])
  then have "mset (s @ r) = mset (map pack_item ps)" by simp
  then have "distinct (s @ r)" using d mset_eq_imp_distinct_iff by blast
  then have ds: "distinct s" by simp
  have dp: "distinct (map pack_item (filter (\<lambda>p. p_sha256 p \<in> fst ` set s) ps))"
    using assms(1) by (auto simp: distinct_map inj_on_def)
  have "set (map pack_item (filter (\<lambda>p. p_sha256 p \<in> fst ` set s) ps)) = set s"
  proof -
    have s: "set s \<subseteq> pack_item ` set ps" using ffd_subset [OF assms(2)] by simp
    have "pack_item p \<in> set s" if p: "p \<in> set ps" "p_sha256 p \<in> fst ` set s" for p
    proof -
      obtain x where x: "x \<in> set s" "fst x = p_sha256 p" using p(2) by auto
      then obtain q where q: "q \<in> set ps" "x = pack_item q" using s by blast
      then have "q = p" using assms(1) p(1) x by (auto simp: distinct_map inj_on_def)
      then show ?thesis using q x by simp
    qed
    then show ?thesis using s by (auto simp: image_iff) force
  qed
  then show ?thesis using set_eq_iff_mset_eq_distinct [OF dp ds] by blast
qed

definition plan_ok :: "int \<Rightarrow> pack list \<times> int \<Rightarrow> bool" where
  "plan_ok usable plan \<longleftrightarrow> fst plan \<noteq> [] \<and> snd plan = sum_list (map p_size_bytes (fst plan)) \<and> snd plan \<le> usable"

lemma summand_le: "\<forall>x\<in>set xs. 0 \<le> (f x :: int) \<Longrightarrow> x \<in> set xs \<Longrightarrow> f x \<le> sum_list (map f xs)"
proof (induction xs)
  case (Cons y ys)
  then have "0 \<le> sum_list (map f ys)" by (intro sum_list_nonneg) auto
  then show ?case using Cons by fastforce
qed simp

lemma selected_small:
  assumes "first_fit_decreasing (map pack_item ps) cap res = (s, r)" "0 < cap - res"
    "\<forall>p\<in>set ps. 0 \<le> p_size_bytes p" "x \<in> set s"
  shows "snd x \<le> cap - res"
proof -
  have "\<forall>y\<in>set s. 0 \<le> snd y" using ffd_subset [OF assms(1)] assms(3) by auto
  then have "snd x \<le> total_size s" using assms(4) by (rule summand_le)
  then show ?thesis using ffd_fits [OF assms(1)] assms(2) by simp
qed

lemma oversized_stay:
  assumes "distinct (map p_sha256 ps)" "first_fit_decreasing (map pack_item ps) cap res = (s, r)" "0 < cap - res"
    "\<forall>p\<in>set ps. 0 \<le> p_size_bytes p"
  shows "filter (\<lambda>p. p_size_bytes p > cap - res) (filter (\<lambda>p. p_sha256 p \<notin> fst ` set s) ps) =
     filter (\<lambda>p. p_size_bytes p > cap - res) ps"
proof -
  have "p_sha256 p \<notin> fst ` set s" if p: "p \<in> set ps" "p_size_bytes p > cap - res" for p
  proof
    assume "p_sha256 p \<in> fst ` set s"
    then have "pack_item p \<in> set (map pack_item (filter (\<lambda>p. p_sha256 p \<in> fst ` set s) ps))" using p(1) by simp
    then have "pack_item p \<in> set s" using mset_eq_setD [OF selected_packs [OF assms(1,2)]] by blast
    then show False using selected_small [OF assms(2,3,4)] p(2) by fastforce
  qed
  then show ?thesis by (auto simp: filter_filter intro: filter_cong)
qed

lemma selected_plan_ok:
  assumes "distinct (map p_sha256 ps)" "first_fit_decreasing (map pack_item ps) cap res = (s, r)" "0 < cap - res"
    "s \<noteq> []"
  shows "plan_ok (cap - res) (filter (\<lambda>p. p_sha256 p \<in> fst ` set s) ps, total_size s)"
proof -
  let ?sel = "filter (\<lambda>p. p_sha256 p \<in> fst ` set s) ps"
  have items: "mset (map pack_item ?sel) = mset s" by (rule selected_packs [OF assms(1,2)])
  have "mset (map snd (map pack_item ?sel)) = mset (map snd s)"
    using arg_cong [OF items, of "image_mset snd"] by (simp only: mset_map)
  then have "total_size s = sum_list (map p_size_bytes ?sel)" by (simp add: comp_def flip: sum_mset_sum_list)
  moreover have "?sel \<noteq> []"
  proof
    assume "?sel = []"
    then have "mset s = {#}" using items by (simp only: list.map mset.simps)
    then show False using assms(4) by simp
  qed
  ultimately show ?thesis using ffd_fits [OF assms(2)] assms(3) by (simp add: plan_ok_def)
qed

lemma multi_bin_pack_loop_spec:
  assumes "0 < cap - res" "distinct (map p_sha256 remaining)" "\<forall>p\<in>set remaining. 0 \<le> p_size_bytes p"
  shows "if filter (\<lambda>p. p_size_bytes p > cap - res) remaining \<noteq> []
     then multi_bin_pack_loop cap res remaining plans =
       Inl (Packs_oversized (map p_sha256 (filter (\<lambda>p. p_size_bytes p > cap - res) remaining)))
     else \<exists>new. multi_bin_pack_loop cap res remaining plans = Inr (plans @ new) \<and>
       mset (concat (map fst new)) = mset remaining \<and> list_all (plan_ok (cap - res)) new"
  using assms(2,3)
proof (induction remaining arbitrary: plans rule: length_induct)
  case (1 ps)
  obtain s r where sr: "first_fit_decreasing (map pack_item ps) cap res = (s, r)" by fastforce
  let ?over = "filter (\<lambda>p. p_size_bytes p > cap - res)"
  let ?sel = "filter (\<lambda>p. p_sha256 p \<in> fst ` set s) ps" and ?rest = "filter (\<lambda>p. p_sha256 p \<notin> fst ` set s) ps"
  note unfold = multi_bin_pack_loop.simps [of cap res ps plans]
  show ?case
  proof (cases "ps = [] \<or> s = []")
    case True
    have "?over ps \<noteq> []" if ne: "ps \<noteq> []"
    proof -
      obtain p where p: "p \<in> set ps" using ne by (meson last_in_set)
      have "\<forall>x\<in>set (map pack_item ps). 0 \<le> snd x" using 1(3) by simp
      then have "\<not> p_size_bytes p \<le> cap - res"
        using ffd_selects [OF assms(1), of "pack_item p" "map pack_item ps"] p True ne sr by auto
      then show ?thesis using p by (force simp: filter_empty_conv not_le)
    qed
    then show ?thesis using True sr by (auto simp: unfold Let_def)
  next
    case False
    have step: "multi_bin_pack_loop cap res ps plans =
        multi_bin_pack_loop cap res ?rest (plans @ [(?sel, total_size s)])"
      using False sr by (simp add: unfold Let_def)
    have IH: "if ?over ?rest \<noteq> []
       then multi_bin_pack_loop cap res ?rest plans' = Inl (Packs_oversized (map p_sha256 (?over ?rest)))
       else \<exists>new. multi_bin_pack_loop cap res ?rest plans' = Inr (plans' @ new) \<and>
         mset (concat (map fst new)) = mset ?rest \<and> list_all (plan_ok (cap - res)) new" for plans'
      using 1(1) [rule_format, of ?rest plans'] selected_shrinks [of ps cap res s] sr False 1(2,3)
      by (simp add: distinct_map_filter)
    have ok: "plan_ok (cap - res) (?sel, total_size s)"
      using selected_plan_ok [OF 1(2) sr assms(1)] False by simp
    have parts: "mset ?sel + mset ?rest = mset ps" by (simp add: multiset_partition [symmetric])
    have over: "?over ?rest = ?over ps" by (rule oversized_stay [OF 1(2) sr assms(1) 1(3)])
    show ?thesis
    proof (cases "?over ps = []")
      case True
      then obtain new where new: "multi_bin_pack_loop cap res ps plans = Inr (plans @ (?sel, total_size s) # new)"
        "mset (concat (map fst new)) = mset ?rest" "list_all (plan_ok (cap - res)) new"
        using IH [of "plans @ [(?sel, total_size s)]"] unfolding over step by auto
      have "mset (concat (map fst ((?sel, total_size s) # new))) = mset ?sel + mset (concat (map fst new))" by simp
      also have "\<dots> = mset ps" by (simp only: new(2) parts)
      finally show ?thesis using True new(1,3) ok by (auto intro!: exI [of _ "(?sel, total_size s) # new"])
    next
      case False
      then show ?thesis using IH [of "plans @ [(?sel, total_size s)]"] unfolding over step by simp
    qed
  qed
qed

lemma plans_total:
  "list_all (plan_ok usable) plans \<Longrightarrow>
     sum_list (map p_size_bytes (concat (map fst plans))) \<le> int (length plans) * usable"
  by (induction plans) (auto simp: plan_ok_def algebra_simps)

lemma estimate_bound:
  assumes "bytes \<le> int n * usable" "0 < usable" "0 < bytes"
  shows "max 1 ((bytes + usable - 1) div usable) \<le> int n"
proof -
  have "0 < int n" using assms by (cases n) auto
  moreover have "(bytes + usable - 1) div usable \<le> int n"
  proof -
    have "(bytes + usable - 1) div usable * usable \<le> bytes + usable - 1"
      using pos_mod_sign [OF assms(2), of "bytes + usable - 1"] by (simp add: minus_mod_eq_div_mult [symmetric])
    also have "\<dots> < (int n + 1) * usable" using assms(1) by (simp add: algebra_simps)
    finally show ?thesis using assms(2) by (simp only: mult_less_cancel_right) simp
  qed
  ultimately show ?thesis by simp
qed

text \<open>
  C12. Planning a burn session. The loop ends, and when the packs have different hashes and
  non-negative sizes and the medium has usable space, it either raises, naming exactly the packs
  that are larger than a volume, or it returns a plan that puts every pack on exactly one volume, no
  volume empty or over its usable capacity, each with its right byte total; the plan has at least as
  many volumes as the estimate.
\<close>

theorem multi_bin_pack_spec:
  assumes "distinct (map p_sha256 ps)" "\<forall>p\<in>set ps. 0 \<le> p_size_bytes p" "0 < usable_bytes t - reserve"
  shows "case multi_bin_pack reserve ps t of
      Inl e \<Rightarrow> (\<exists>p\<in>set ps. p_size_bytes p > usable_bytes t - reserve) \<and>
        e = Packs_oversized (map p_sha256 (filter (\<lambda>p. p_size_bytes p > usable_bytes t - reserve) ps))
    | Inr plans \<Rightarrow> mset (concat (map fst plans)) = mset ps \<and> list_all (plan_ok (usable_bytes t - reserve)) plans \<and>
        (\<exists>n. estimate_volumes_needed (sum_list (map p_size_bytes ps)) (capacity_bytes t) reserve (ecc_overhead_pct t)
           = Inr n \<and> n \<le> int (length plans))"
proof (cases "filter (\<lambda>p. p_size_bytes p > usable_bytes t - reserve) ps = []")
  case False
  then show ?thesis
    using multi_bin_pack_loop_spec [OF assms(3,1,2), of "[]"] by (auto simp: multi_bin_pack_def filter_empty_conv)
next
  case True
  then obtain plans where plans: "multi_bin_pack reserve ps t = Inr plans"
    "mset (concat (map fst plans)) = mset ps" "list_all (plan_ok (usable_bytes t - reserve)) plans"
    using multi_bin_pack_loop_spec [OF assms(3,1,2), of "[]"] by (auto simp: multi_bin_pack_def)
  let ?total = "sum_list (map p_size_bytes ps)"
  have "mset (map p_size_bytes ps) = mset (map p_size_bytes (concat (map fst plans)))" using plans(2) by simp
  then have "?total = sum_list (map p_size_bytes (concat (map fst plans)))" by (metis sum_mset_sum_list)
  then have "?total \<le> int (length plans) * (usable_bytes t - reserve)" using plans_total [OF plans(3)] by simp
  then have "\<exists>n. estimate_volumes_needed ?total (capacity_bytes t) reserve (ecc_overhead_pct t) = Inr n \<and>
      n \<le> int (length plans)"
    using estimate_bound [of ?total "length plans" "usable_bytes t - reserve"] assms(3)
    by (auto simp: estimate_volumes_needed_def usable_bytes_def Let_def)
  then show ?thesis using plans by simp
qed

definition demo_pack :: "string \<Rightarrow> int \<Rightarrow> pack" where
  "demo_pack h n = \<lparr>p_id = 1, p_sha256 = h, p_size_bytes = n, p_repo_id = [], p_is_pruned = False, p_created_at = []\<rparr>"

theorem multi_bin_pack_spec_witness:
  "multi_bin_pack 97152 [demo_pack ''a'' 1500000, demo_pack ''b'' 1400000] TEST_TINY =
     Inr [([demo_pack ''a'' 1500000], 1500000), ([demo_pack ''b'' 1400000], 1400000)]"
proof -
  let ?ps = "[demo_pack ''a'' 1500000, demo_pack ''b'' 1400000]"
  have u: "usable_bytes TEST_TINY = 2097152" by code_simp
  have hyp: "distinct (map p_sha256 ?ps)" "\<forall>p\<in>set ?ps. 0 \<le> p_size_bytes p" "0 < usable_bytes TEST_TINY - 97152"
    by (simp_all add: demo_pack_def u)
  have "multi_bin_pack 97152 ?ps TEST_TINY =
     Inr [([demo_pack ''a'' 1500000], 1500000), ([demo_pack ''b'' 1400000], 1400000)]"
    by code_simp
  then show ?thesis using multi_bin_pack_spec [OF hyp] by simp
qed

text \<open>
  The estimate. For a positive total and a medium with usable space, the estimate is the least
  number of volumes whose usable space holds the total; without usable space it raises.
\<close>

theorem estimate_volumes_needed_spec:
  "case estimate_volumes_needed bytes cap reserved pct of
     Inl e \<Rightarrow> 0 < bytes \<and> trunc_percent (cap * (100 - pct)) \<le> reserved
   | Inr n \<Rightarrow>
       if bytes \<le> 0 then n = 0
       else 1 \<le> n \<and> (n - 1) * (trunc_percent (cap * (100 - pct)) - reserved) < bytes \<and>
            bytes \<le> n * (trunc_percent (cap * (100 - pct)) - reserved)"
proof (cases "bytes \<le> 0 \<or> trunc_percent (cap * (100 - pct)) \<le> reserved")
  case False
  define u where "u = trunc_percent (cap * (100 - pct)) - reserved"
  define q where "q = (bytes + u - 1) div u"
  have u: "0 < u" "0 < bytes" using False by (auto simp: u_def)
  have "q * u = (bytes + u - 1) - (bytes + u - 1) mod u" by (simp add: q_def minus_mod_eq_div_mult)
  then have "q * u \<le> bytes + u - 1" "bytes + u - 1 < q * u + u"
    using pos_mod_sign [OF u(1), of "bytes + u - 1"] pos_mod_bound [OF u(1), of "bytes + u - 1"] by linarith+
  moreover have "1 \<le> q" using u by (simp add: q_def pos_imp_zdiv_pos_iff int_one_le_iff_zero_less)
  ultimately have "1 \<le> max 1 q \<and> (max 1 q - 1) * u < bytes \<and> bytes \<le> max 1 q * u"
    by (simp add: algebra_simps)
  then show ?thesis
    using False unfolding estimate_volumes_needed_def Let_def u_def q_def by simp
qed (auto simp: estimate_volumes_needed_def Let_def)

end
