(* ===== verification/Labels.thy ===== *)
theory Labels
  imports Py_Text
begin

text \<open>
  \<open>utils/labels.py\<close>: names, volume labels and sequence numbers. The year, which the code takes from
  the clock, is an argument.
\<close>

section \<open>Python integers as text\<close>

definition digit_char :: "nat \<Rightarrow> char" where "digit_char n = char_of (48 + n mod 10)"

text \<open>\<open>str(n)\<close> for a natural number.\<close>

fun dec_nat :: "nat \<Rightarrow> string" where
  "dec_nat n = (if n < 10 then [digit_char n] else dec_nat (n div 10) @ [digit_char n])"

declare dec_nat.simps [simp del]

definition py_str :: "int \<Rightarrow> string" where
  "py_str i = (if i < 0 then CHR ''-'' # dec_nat (nat (- i)) else dec_nat (nat i))"

text \<open>\<open>f"{i:0{width}d}"\<close>: the sign counts for the width.\<close>

definition zero_pad :: "nat \<Rightarrow> int \<Rightarrow> string" where
  "zero_pad width i =
     (let digits = dec_nat (nat (abs i)); sign = (if i < 0 then ''-'' else []) in
      sign @ replicate (width - length digits - length sign) (CHR ''0'') @ digits)"

definition is_digit :: "char \<Rightarrow> bool" where "is_digit c \<longleftrightarrow> 48 \<le> code c \<and> code c \<le> 57"

definition digits_value :: "string \<Rightarrow> int" where
  "digits_value s = foldl (\<lambda>a c. 10 * a + int (code c - 48)) 0 s"

text \<open>\<open>int(s)\<close> on text without underscores; None stands for ValueError. More than 4300 digits are
  refused, as by the interpreter's default limit.\<close>

definition py_int :: "string \<Rightarrow> int option" where
  "py_int s =
     (let t = py_strip s;
          neg = (t \<noteq> [] \<and> hd t = CHR ''-'');
          u = (if t \<noteq> [] \<and> (hd t = CHR ''-'' \<or> hd t = CHR ''+'') then tl t else t)
      in if u = [] \<or> \<not> list_all is_digit u \<or> 4300 < length u then None
         else Some (if neg then - digits_value u else digits_value u))"

text \<open>\<open>s.replace(old, new)\<close> for a non-empty \<open>old\<close>.\<close>

function py_replace :: "string \<Rightarrow> string \<Rightarrow> string \<Rightarrow> string" where
  "py_replace old new s =
     (if s = [] \<or> old = [] then s
      else if starts_with s old then new @ py_replace old new (drop (length old) s)
      else hd s # py_replace old new (tl s))"
  by pat_completeness auto
termination by (relation "measure (\<lambda>(old, new, s). length s)") auto

declare py_replace.simps [simp del]

section \<open>Names\<close>

definition MAX_NAME_LENGTH :: nat where "MAX_NAME_LENGTH = 128"
definition ISO9660_LABEL_MAX_LEN :: nat where "ISO9660_LABEL_MAX_LEN = 32"

datatype label_error = Name_empty | Name_too_long | Name_unsafe string | Label_too_long string

definition unsafe_name :: "string \<Rightarrow> bool" where
  "unsafe_name s \<longleftrightarrow> CHR ''/'' \<in> set s \<or> CHR 92 \<in> set s \<or> contains_sub ''..'' s \<or> CHR 0x00 \<in> set s"

definition sanitize_name :: "string \<Rightarrow> (label_error, string) result" where
  "sanitize_name raw =
     (let v = py_strip raw in
      if v = [] then Inl Name_empty
      else if length v > MAX_NAME_LENGTH then Inl Name_too_long
      else if unsafe_name v then Inl (Name_unsafe v)
      else Inr v)"

section \<open>Labels\<close>

definition generate_volume_label :: "string \<Rightarrow> string \<Rightarrow> string \<Rightarrow> int \<Rightarrow> (label_error, string) result" where
  "generate_volume_label year prefix media_type seq_num =
     (let media_short = py_replace ''BDXL'' ''BX'' (py_replace ''MDISC'' ''MD'' media_type);
          width = max 4 (length (py_str seq_num));
          label = prefix @ ''_'' @ media_short @ ''_'' @ year @ ''_'' @ zero_pad width seq_num
      in if length label > ISO9660_LABEL_MAX_LEN then Inl (Label_too_long label) else Inr label)"

definition seq_step :: "string \<Rightarrow> int \<Rightarrow> string \<Rightarrow> int" where
  "seq_step prefix max_seq label =
     (let parts = py_split_on (CHR ''_'') label in
      if length parts \<ge> 4 \<and> hd parts = prefix
      then (case py_int (last parts) of None \<Rightarrow> max_seq | Some s \<Rightarrow> max max_seq s)
      else max_seq)"

definition next_seq_num :: "string list \<Rightarrow> string \<Rightarrow> int" where
  "next_seq_num existing_labels prefix = foldl (seq_step prefix) 0 existing_labels + 1"

section \<open>Lemmas\<close>

lemma split_char_append:
  "sep \<notin> set xs \<Longrightarrow> split_char sep cur (xs @ sep # ys) = (rev cur @ xs) # split_char sep [] ys"
  by (induction xs arbitrary: cur) auto

lemma split_char_last: "sep \<notin> set xs \<Longrightarrow> split_char sep cur xs = [rev cur @ xs]"
  by (induction xs arbitrary: cur) auto

lemma split_char_nonempty: "split_char sep cur xs \<noteq> []"
  by (induction xs arbitrary: cur) auto

lemma split_char_sep: "split_char sep cur (xs @ sep # ys) = split_char sep cur xs @ split_char sep [] ys"
  by (induction xs arbitrary: cur) auto

lemma split_char_parts: "p \<in> set (split_char sep cur xs) \<Longrightarrow> sep \<notin> set cur \<Longrightarrow> sep \<notin> set p"
proof (induction xs arbitrary: cur)
  case (Cons c cs)
  show ?case
  proof (cases "c = sep")
    case True
    then show ?thesis using Cons.prems Cons.IH [of "[]"] by auto
  next
    case False
    then show ?thesis using Cons.prems Cons.IH [of "c # cur"] by auto
  qed
qed simp

lemma code_digit_char: "code (digit_char n) = 48 + n mod 10"
  by (simp add: code_def digit_char_def)

lemma dec_nat_digits: "list_all is_digit (dec_nat n) \<and> dec_nat n \<noteq> []"
proof (induction n rule: dec_nat.induct)
  case (1 n)
  have "is_digit (digit_char n)" by (simp add: is_digit_def code_digit_char)
  then show ?case using 1 by (simp add: dec_nat.simps [of n])
qed

lemma digits_value_append: "digits_value (xs @ [c]) = 10 * digits_value xs + int (code c - 48)"
  by (simp add: digits_value_def)

lemma digits_value_dec_nat: "digits_value (dec_nat n) = int n"
proof (induction n rule: dec_nat.induct)
  case (1 n)
  then show ?case
    by (subst dec_nat.simps) (auto simp: digits_value_append code_digit_char digits_value_def [of "[_]"] zmod_int zdiv_int)
qed

lemma foldl_zeros: "foldl (\<lambda>a c. 10 * a + int (code c - 48)) 0 (replicate k (CHR ''0'') @ s) = digits_value s"
  by (induction k) (simp_all add: digits_value_def code_def)

lemma not_space_digit: "is_digit c \<Longrightarrow> \<not> is_space c"
  by (auto simp: is_digit_def is_space_def)

lemma dropWhile_digits: "list_all is_digit s \<Longrightarrow> dropWhile is_space s = s"
  by (cases s) (auto simp: not_space_digit)

lemma py_int_digits:
  assumes "list_all is_digit s" "s \<noteq> []" "length s \<le> 4300"
  shows "py_int s = Some (digits_value s)"
proof -
  have "list_all is_digit (rev s)" using assms(1) by simp
  then have "py_strip s = s" using assms(1) by (simp add: py_strip_def dropWhile_digits)
  moreover have "is_digit (hd s)" using assms(1,2) by (cases s) auto
  then have "hd s \<noteq> CHR ''-'' \<and> hd s \<noteq> CHR ''+''" by (auto simp: is_digit_def code_def)
  ultimately show ?thesis using assms by (simp add: py_int_def Let_def)
qed

lemma zero_pad_digits:
  assumes "0 \<le> i" shows "list_all is_digit (zero_pad w i)" "zero_pad w i \<noteq> []" "digits_value (zero_pad w i) = i"
proof -
  have z: "is_digit (CHR ''0'')" by (simp add: is_digit_def code_def)
  show "list_all is_digit (zero_pad w i)"
    using assms z dec_nat_digits by (auto simp: zero_pad_def Let_def list_all_iff)
  show "zero_pad w i \<noteq> []" using assms dec_nat_digits by (simp add: zero_pad_def Let_def)
  show "digits_value (zero_pad w i) = i"
    using assms foldl_zeros digits_value_dec_nat by (simp add: zero_pad_def Let_def digits_value_def [of "replicate _ _ @ _"])
qed

lemma zero_pad_no_sep: "0 \<le> i \<Longrightarrow> CHR ''_'' \<notin> set (zero_pad w i)"
  using zero_pad_digits(1) [of i w] by (auto simp: list_all_iff is_digit_def code_def)

text \<open>A generated label is read back by the scan for the next number.\<close>

lemma generated_label_parts:
  assumes "generate_volume_label year prefix media seq = Inr label" "CHR ''_'' \<notin> set prefix" "0 \<le> seq"
  shows "length (py_split_on (CHR ''_'') label) \<ge> 4" "hd (py_split_on (CHR ''_'') label) = prefix"
    "py_int (last (py_split_on (CHR ''_'') label)) = Some seq" "length label \<le> 32"
proof -
  let ?m = "py_replace ''BDXL'' ''BX'' (py_replace ''MDISC'' ''MD'' media)"
  let ?z = "zero_pad (max 4 (length (py_str seq))) seq"
  let ?sep = "CHR ''_''"
  have l: "label = prefix @ ?sep # ?m @ ?sep # year @ ?sep # ?z" "length label \<le> 32"
    using assms(1) by (auto simp: generate_volume_label_def Let_def ISO9660_LABEL_MAX_LEN_def split: if_splits)
  have s: "py_split_on ?sep label =
      prefix # split_char ?sep [] ?m @ split_char ?sep [] year @ [?z]"
    unfolding py_split_on_def l(1)
    by (simp add: split_char_append [OF assms(2)] split_char_sep split_char_last assms(2) zero_pad_no_sep [OF assms(3)])
  show "hd (py_split_on ?sep label) = prefix" "length label \<le> 32" using s l by simp_all
  have "Suc 0 \<le> length (split_char ?sep [] ?m)" "Suc 0 \<le> length (split_char ?sep [] year)"
    using split_char_nonempty by (simp_all add: Suc_le_eq)
  then show "length (py_split_on ?sep label) \<ge> 4" unfolding s length_append list.size by linarith
  have "length ?z \<le> 32" using l by simp
  then show "py_int (last (py_split_on ?sep label)) = Some seq"
    using py_int_digits [of ?z] zero_pad_digits [OF assms(3)] by (simp add: s)
qed

lemma seq_step_mono: "m \<le> seq_step prefix m label"
  by (auto simp: seq_step_def Let_def split: option.splits)

lemma foldl_seq_mono: "m \<le> foldl (seq_step prefix) m labels"
proof (induction labels arbitrary: m)
  case (Cons l ls)
  then show ?case using seq_step_mono [of m prefix l] by (auto intro: order_trans)
qed simp

lemma foldl_seq_ge:
  assumes "label \<in> set labels" "length (py_split_on (CHR ''_'') label) \<ge> 4" "hd (py_split_on (CHR ''_'') label) = prefix"
    "py_int (last (py_split_on (CHR ''_'') label)) = Some s"
  shows "s \<le> foldl (seq_step prefix) m labels"
  using assms(1)
proof (induction labels arbitrary: m)
  case (Cons l ls)
  have "s \<le> seq_step prefix m label" using assms(2-4) by (simp add: seq_step_def Let_def)
  then have "s \<le> foldl (seq_step prefix) (seq_step prefix m label) ls"
    using foldl_seq_mono order_trans by blast
  then show ?case using Cons by (cases "l = label") simp_all
qed simp

section \<open>Properties\<close>

text \<open>
  Volume labels are fresh. With a prefix that has no underscore, the label generated for the next
  sequence number fits the ISO 9660 limit and differs from every existing label, whatever the
  existing labels are.
\<close>

theorem volume_label_fresh:
  assumes "generate_volume_label year prefix media (next_seq_num labels prefix) = Inr label"
    "CHR ''_'' \<notin> set prefix"
  shows "label \<notin> set labels \<and> length label \<le> 32 \<and> 1 \<le> next_seq_num labels prefix"
proof -
  have n: "1 \<le> next_seq_num labels prefix" using foldl_seq_mono [of 0 prefix labels] by (simp add: next_seq_num_def)
  note parts = generated_label_parts [OF assms, simplified]
  have p: "0 \<le> next_seq_num labels prefix" using n by simp
  have "label \<notin> set labels"
  proof
    assume "label \<in> set labels"
    then show False
      using foldl_seq_ge [OF _ parts(1-3) [OF p], of labels 0] by (simp add: next_seq_num_def)
  qed
  then show ?thesis using parts(4) [OF p] n by simp
qed

theorem volume_label_fresh_witness:
  "''LCSAS_MD100_2026_0008'' \<notin> set [''LCSAS_BD25_2026_0007'', ''LCSAS_BD25_2025_0003'', ''note''] \<and>
   generate_volume_label ''2026'' ''LCSAS'' ''MDISC100''
     (next_seq_num [''LCSAS_BD25_2026_0007'', ''LCSAS_BD25_2025_0003'', ''note''] ''LCSAS'') =
     Inr ''LCSAS_MD100_2026_0008''"
proof -
  have "generate_volume_label ''2026'' ''LCSAS'' ''MDISC100''
     (next_seq_num [''LCSAS_BD25_2026_0007'', ''LCSAS_BD25_2025_0003'', ''note''] ''LCSAS'') =
     Inr ''LCSAS_MD100_2026_0008''" by code_simp
  then show ?thesis using volume_label_fresh by simp
qed

text \<open>
  A prefix with an underscore, which the configuration check accepts, never advances: the next
  sequence number is 1 whatever labels exist, so the second volume of a year and medium gets the
  label of the first.
\<close>

theorem underscore_prefix_stuck:
  assumes "CHR ''_'' \<in> set prefix" shows "next_seq_num labels prefix = 1"
proof -
  have "hd (py_split_on (CHR ''_'') l) \<noteq> prefix" for l
    using split_char_parts [of "hd (split_char (CHR ''_'') [] l)" "CHR ''_''" "[]" l]
      split_char_nonempty assms by (fastforce simp: py_split_on_def)
  then have "seq_step prefix m l = m" for m l by (simp add: seq_step_def Let_def)
  then have "foldl (seq_step prefix) m labels = m" for m by (induction labels) simp_all
  then show ?thesis by (simp add: next_seq_num_def)
qed

theorem underscore_prefix_stuck_witness:
  "generate_volume_label ''2026'' ''MY_DOCS'' ''BD25'' (next_seq_num [''MY_DOCS_BD25_2026_0001''] ''MY_DOCS'') =
     Inr ''MY_DOCS_BD25_2026_0001''"
proof -
  have "next_seq_num [''MY_DOCS_BD25_2026_0001''] ''MY_DOCS'' = 1" by (rule underscore_prefix_stuck) simp
  moreover have "generate_volume_label ''2026'' ''MY_DOCS'' ''BD25'' 1 = Inr ''MY_DOCS_BD25_2026_0001''" by code_simp
  ultimately show ?thesis by simp
qed

end
