(* ===== verification/Restore_Plan.thy ===== *)
theory Restore_Plan
  imports Catalog_Picks
begin

text \<open>
  \<open>restore/planner.py\<close>: restore plans. \<open>generate_pick_list\<close> names the discs to fetch and
  \<open>generate_pick_list_v2\<close> also lists, for each pack, the other volumes that hold it.
\<close>

section \<open>Plans\<close>

record pick_plan =
  pl_volumes :: "(string \<times> pack list) list"
  pl_missing_packs :: "string list"
  pl_total_packs :: nat
  pl_total_bytes :: int
  pl_deprecated_disc_labels :: "(string \<times> string list) list"
  pl_unconfirmed_volume_labels :: "(string \<times> string list) list"

definition generate_pick_list :: "catalog \<Rightarrow> string list \<Rightarrow> pick_plan" where
  "generate_pick_list d hashes =
     (if hashes = [] then \<lparr>pl_volumes = [], pl_missing_packs = [], pl_total_packs = 0, pl_total_bytes = 0,
        pl_deprecated_disc_labels = [], pl_unconfirmed_volume_labels = []\<rparr>
      else
        let vols = get_pick_list d hashes [];
            missing = get_missing_packs d hashes;
            deprecated = get_deprecated_only_packs d hashes;
            unconfirmed = get_unconfirmed_volume_labels d (map fst vols)
        in \<lparr>pl_volumes = vols, pl_missing_packs = missing,
            pl_total_packs = sum_list (map (\<lambda>(l, ps). length ps) vols),
            pl_total_bytes = sum_list (map (\<lambda>(l, ps). sum_list (map p_size_bytes ps)) vols),
            pl_deprecated_disc_labels = deprecated,
            pl_unconfirmed_volume_labels =
              map (\<lambda>(l, ps). (l, map p_sha256 ps)) (filter (\<lambda>(l, ps). l \<in> unconfirmed) vols)\<rparr>)"

record pack_source =
  ps_pack :: pack
  ps_volume_label :: string
  ps_volume_id :: int
  ps_alternates :: "string list"

record pick_plan_v2 =
  p2_volumes :: "(string \<times> pack_source list) list"
  p2_missing_packs :: "string list"
  p2_total_packs :: nat
  p2_total_bytes :: int
  p2_deprecated_disc_labels :: "(string \<times> string list) list"
  p2_unconfirmed_volume_labels :: "(string \<times> string list) list"

definition source_of :: "pick_entry \<Rightarrow> pack_source" where
  "source_of e = \<lparr>ps_pack = pe_pack e, ps_volume_label = pe_primary_label e,
     ps_volume_id = pe_primary_volume_id e, ps_alternates = pe_alternates e\<rparr>"

definition plan_step ::
  "(string \<times> pack_source list) list \<times> nat \<times> int \<Rightarrow> string \<times> pick_entry \<Rightarrow>
     (string \<times> pack_source list) list \<times> nat \<times> int" where
  "plan_step st x =
     (case st of (vols, n, b) \<Rightarrow>
        let s = source_of (snd x) in
        (dict_append (pe_primary_label (snd x)) s vols, n + 1, b + p_size_bytes (ps_pack s)))"

definition generate_pick_list_v2 :: "catalog \<Rightarrow> string list \<Rightarrow> string \<Rightarrow> pick_plan_v2" where
  "generate_pick_list_v2 d hashes loc =
     (if hashes = [] then \<lparr>p2_volumes = [], p2_missing_packs = [], p2_total_packs = 0, p2_total_bytes = 0,
        p2_deprecated_disc_labels = [], p2_unconfirmed_volume_labels = []\<rparr>
      else
        let raw = get_pick_list_with_alternates d hashes loc;
            missing = get_missing_packs d hashes;
            deprecated = get_deprecated_only_packs d hashes;
            (vols, n, b) = foldl plan_step ([], 0, 0) raw;
            unconfirmed = get_unconfirmed_volume_labels d (map fst vols)
        in \<lparr>p2_volumes = vols, p2_missing_packs = missing, p2_total_packs = n, p2_total_bytes = b,
            p2_deprecated_disc_labels = deprecated,
            p2_unconfirmed_volume_labels =
              map (\<lambda>(l, ss). (l, map (\<lambda>s. p_sha256 (ps_pack s)) ss)) (filter (\<lambda>(l, ss). l \<in> unconfirmed) vols)\<rparr>)"

section \<open>Rows with alternates\<close>

definition entry_of :: "(pack \<times> volume) list \<Rightarrow> pick_entry option" where
  "entry_of rows =
     (case rows of
        [] \<Rightarrow> None
      | (p, v) # rest \<Rightarrow> Some \<lparr>pe_pack = p, pe_primary_label = v_label v, pe_primary_volume_id = v_id v,
          pe_alternates = map (\<lambda>(q, w). v_label w) rest\<rparr>)"

lemma map_of_alternate_step:
  "map_of (alternate_step r (p, v)) =
     (map_of r)(p_sha256 p \<mapsto> (case map_of r (p_sha256 p) of
        None \<Rightarrow> \<lparr>pe_pack = p, pe_primary_label = v_label v, pe_primary_volume_id = v_id v, pe_alternates = []\<rparr>
      | Some e \<Rightarrow> e\<lparr>pe_alternates := pe_alternates e @ [v_label v]\<rparr>))"
  by (induction r) auto

lemma fst_alternate_step: "fst ` set (alternate_step r (p, v)) = insert (p_sha256 p) (fst ` set r)"
proof (induction r)
  case (Cons x r)
  obtain k e where x: "x = (k, e)" by fastforce
  show ?case using Cons by (auto simp: x)
qed simp

lemma distinct_alternate_step: "distinct (map fst r) \<Longrightarrow> distinct (map fst (alternate_step r (p, v)))"
proof (induction r)
  case (Cons x r)
  obtain k e where x: "x = (k, e)" by fastforce
  show ?case using Cons fst_alternate_step [of r p v] by (auto simp: x image_iff)
qed simp

lemma entry_of_snoc:
  "entry_of (rows @ [(p, v)]) = Some (case entry_of rows of
        None \<Rightarrow> \<lparr>pe_pack = p, pe_primary_label = v_label v, pe_primary_volume_id = v_id v, pe_alternates = []\<rparr>
      | Some e \<Rightarrow> e\<lparr>pe_alternates := pe_alternates e @ [v_label v]\<rparr>)"
  by (cases rows) (auto simp: entry_of_def)

lemma foldl_alternate_step:
  "map_of (foldl alternate_step [] rows) h = entry_of (filter (\<lambda>r. row_sha r = h) rows)"
proof (induction rows rule: rev_induct)
  case (snoc row rows)
  obtain p v where row: "row = (p, v)" by fastforce
  show ?case using snoc by (auto simp: row map_of_alternate_step entry_of_snoc)
qed (simp add: entry_of_def)

lemma distinct_foldl_alternate: "distinct (map fst r) \<Longrightarrow> distinct (map fst (foldl alternate_step r rows))"
  by (induction rows arbitrary: r) (auto simp: distinct_alternate_step)

definition alternate_rows :: "catalog \<Rightarrow> string \<Rightarrow> string list \<Rightarrow> (pack \<times> volume) list" where
  "alternate_rows d loc batch =
     sort_key (\<lambda>(p, v). alternate_rank loc v)
       (filter (\<lambda>(p, v). p_sha256 p \<in> set batch \<and> in_service v) (pack_volume_rows d))"

lemma alternates_foldl:
  "get_pick_list_with_alternates d shas loc =
     foldl alternate_step [] (concat (map (alternate_rows d loc) (chunks SQLITE_BATCH shas)))"
  by (simp add: get_pick_list_with_alternates_def alternate_rows_def [abs_def] foldl_rows)

section \<open>The rows of one pack\<close>

lemma concat_if_filter: "concat (map (\<lambda>x. if P x then [x] else []) xs) = filter P xs"
  by (induction xs) auto

lemma holders_ids:
  assumes "schema_ok d"
  shows "map v_id (holders d pid) = map fst (filter (\<lambda>x. snd x = pid) (volume_packs d))"
proof -
  have v: "map v_id (filter (\<lambda>v. v_id v = i) (volumes d)) = [i]" if i: "i \<in> v_id ` set (volumes d)" for i
  proof -
    have "length (filter (\<lambda>v. v_id v = i) vs) = 1" if "distinct (map v_id vs)" "i \<in> v_id ` set vs" for vs :: "volume list"
      using that by (induction vs) (auto simp: image_iff filter_empty_conv)
    then have "length (filter (\<lambda>v. v_id v = i) (volumes d)) = 1"
      using assms i by (simp add: schema_ok_def volumes_ok_def)
    then obtain w where w: "filter (\<lambda>v. v_id v = i) (volumes d) = [w]" by (auto simp: length_Suc_conv)
    then have "set (filter (\<lambda>v. v_id v = i) (volumes d)) = {w}" by simp
    then have "v_id w = i" by auto
    then show ?thesis using w by simp
  qed
  have "map v_id [v. (vi, pi) \<leftarrow> xs, pi = pid, v \<leftarrow> volumes d, v_id v = vi] = map fst (filter (\<lambda>x. snd x = pid) xs)"
    if "\<forall>x\<in>set xs. fst x \<in> v_id ` set (volumes d)" for xs
    using that v by (induction xs) (auto simp: concat_if_filter)
  moreover have "\<forall>x\<in>set (volume_packs d). fst x \<in> v_id ` set (volumes d)"
    using assms by (auto simp: schema_ok_def volume_packs_ok_def list_all_iff)
  ultimately show ?thesis unfolding holders_def by blast
qed

lemma distinct_holders: "schema_ok d \<Longrightarrow> distinct (map v_id (holders d pid))"
proof -
  assume ok: "schema_ok d"
  then have "distinct (filter (\<lambda>x. snd x = pid) (volume_packs d))"
    by (simp add: schema_ok_def volume_packs_ok_def)
  then show ?thesis unfolding holders_ids [OF ok] by (auto simp: distinct_map inj_on_def)
qed

lemma rows_of_pack:
  assumes "schema_ok d" "p \<in> set (packs d)"
  shows "filter (\<lambda>r. row_sha r = p_sha256 p) (pack_volume_rows d) = map (Pair p) (holders d (p_id p))"
proof -
  have "filter (\<lambda>r. row_sha r = p_sha256 p) [(q, v). q \<leftarrow> qs, v \<leftarrow> f q] = (if p \<in> set qs then map (Pair p) (f p) else [])"
    if "distinct (map p_sha256 qs)" "\<forall>q\<in>set qs. p_sha256 q = p_sha256 p \<longrightarrow> q = p" for qs and f :: "pack \<Rightarrow> volume list"
    using that by (induction qs) (auto simp: filter_empty_conv comp_def)
  then show ?thesis
    using assms schema_pack_unique [OF assms(1) _ assms(2)] unfolding pack_volume_rows_def
    by (auto simp: schema_ok_def packs_ok_def)
qed

lemma filter_alternate_rows:
  "filter (\<lambda>r. row_sha r = h) (alternate_rows d loc batch) =
     (if h \<in> set batch
      then sort_key (\<lambda>(p, v). alternate_rank loc v) (filter (\<lambda>r. in_service (snd r))
             (filter (\<lambda>r. row_sha r = h) (pack_volume_rows d)))
      else [])"
proof -
  have "filter (\<lambda>r. row_sha r = h) (alternate_rows d loc batch) =
      sort_key (\<lambda>(p, v). alternate_rank loc v) (filter (\<lambda>r. row_sha r = h)
        (filter (\<lambda>(p, v). p_sha256 p \<in> set batch \<and> in_service v) (pack_volume_rows d)))"
    by (simp add: alternate_rows_def filter_sort)
  also have "filter (\<lambda>r. row_sha r = h) (filter (\<lambda>(p, v). p_sha256 p \<in> set batch \<and> in_service v) (pack_volume_rows d)) =
      (if h \<in> set batch then filter (\<lambda>r. in_service (snd r)) (filter (\<lambda>r. row_sha r = h) (pack_volume_rows d)) else [])"
    by (auto simp: filter_filter split_beta filter_empty_conv intro: filter_cong)
  finally show ?thesis by auto
qed

lemma concat_one_batch:
  "distinct (concat bs) \<Longrightarrow> h \<in> set (concat bs) \<Longrightarrow> concat (map (\<lambda>b. if h \<in> set b then R else []) bs) = R"
proof (induction bs)
  case (Cons b bs)
  have "concat (map (\<lambda>b. if h \<in> set b then R else []) bs) = []" if "h \<notin> set (concat bs)"
    using that by auto
  then show ?case using Cons by auto
qed simp

definition sources :: "catalog \<Rightarrow> string \<Rightarrow> pack \<Rightarrow> volume list" where
  "sources d loc p = sort_key (alternate_rank loc) (filter in_service (holders d (p_id p)))"

lemma rows_with_alternates:
  assumes ok: "schema_ok d" and shas: "distinct shas" and p: "p \<in> set (packs d)" "p_sha256 p \<in> set shas"
  shows "filter (\<lambda>r. row_sha r = p_sha256 p) (concat (map (alternate_rows d loc) (chunks SQLITE_BATCH shas))) =
     map (Pair p) (sources d loc p)"
proof -
  have sorted: "sort_key (\<lambda>(p, v). alternate_rank loc v) (map (Pair p) vs) = map (Pair p) (sort_key (alternate_rank loc) vs)" for vs
  proof -
    have i: "insort_key (\<lambda>(p, v). alternate_rank loc v) (p, v) (map (Pair p) ws) =
        map (Pair p) (insort_key (alternate_rank loc) v ws)" for v ws
      by (induction ws) auto
    show ?thesis by (induction vs) (simp_all add: i)
  qed
  let ?R = "map (Pair p) (sources d loc p)"
  have one: "filter (\<lambda>r. row_sha r = p_sha256 p) (alternate_rows d loc b) = (if p_sha256 p \<in> set b then ?R else [])" for b
    unfolding filter_alternate_rows rows_of_pack [OF ok p(1)] sources_def
    by (simp add: filter_map comp_def sorted)
  have "concat (chunks SQLITE_BATCH shas) = shas" by (rule concat_chunks) (simp add: SQLITE_BATCH_def)
  then show ?thesis
    using concat_one_batch [of "chunks SQLITE_BATCH shas" "p_sha256 p" ?R] shas p(2)
    by (simp add: filter_concat comp_def one)
qed

lemma sources_facts:
  assumes "schema_ok d"
  shows "set (sources d loc p) = {v \<in> set (volumes d). (v_id v, p_id p) \<in> set (volume_packs d) \<and> in_service v}"
    "distinct (map v_label (sources d loc p))" "sorted (map (alternate_rank loc) (sources d loc p))"
proof -
  show s: "set (sources d loc p) = {v \<in> set (volumes d). (v_id v, p_id p) \<in> set (volume_packs d) \<and> in_service v}"
    by (auto simp: sources_def set_holders)
  have "distinct (holders d (p_id p))" using distinct_holders [OF assms] by (simp add: distinct_map)
  then have "distinct (sources d loc p)" by (simp add: sources_def)
  moreover have "inj_on v_label (set (volumes d))"
    using assms by (simp add: schema_ok_def volumes_ok_def distinct_map)
  ultimately show "distinct (map v_label (sources d loc p))"
    unfolding distinct_map s by (auto intro: inj_on_subset)
  show "sorted (map (alternate_rank loc) (sources d loc p))" by (simp add: sources_def)
qed



section \<open>Both planners\<close>

lemma distinct_sum: "distinct xs \<Longrightarrow> set xs = A \<Longrightarrow> length xs = card A \<and> sum_list (map f xs) = (\<Sum>x\<in>A. f x :: int)"
  by (metis distinct_card sum_list_distinct_conv_sum_set)

lemma set_alternate_rows_all:
  "(p, v) \<in> set (concat (map (alternate_rows d loc) (chunks SQLITE_BATCH hashes))) \<longleftrightarrow>
     p \<in> set (packs d) \<and> v \<in> set (volumes d) \<and> (v_id v, p_id p) \<in> set (volume_packs d) \<and>
     p_sha256 p \<in> set hashes \<and> in_service v"
proof -
  have "(p, v) \<in> set (alternate_rows d loc b) \<longleftrightarrow>
     p \<in> set (packs d) \<and> v \<in> set (volumes d) \<and> (v_id v, p_id p) \<in> set (volume_packs d) \<and>
     p_sha256 p \<in> set b \<and> in_service v" for b
    by (force simp: alternate_rows_def pack_volume_rows_def set_holders)
  then show ?thesis using set_chunks [of SQLITE_BATCH hashes] by (auto simp: SQLITE_BATCH_def)
qed

lemma v2_entries:
  fixes d :: catalog and hashes :: "string list" and loc :: string
  assumes "schema_ok d"
  defines "raw \<equiv> get_pick_list_with_alternates d hashes loc"
  shows "distinct (map (\<lambda>x. pe_pack (snd x)) raw)" "set (map (\<lambda>x. pe_pack (snd x)) raw) = fetchable d hashes"
proof -
  let ?rows = "concat (map (alternate_rows d loc) (chunks SQLITE_BATCH hashes))"
  have raw: "raw = foldl alternate_step [] ?rows" by (simp add: raw_def alternates_foldl)
  have keys: "distinct (map fst raw)" unfolding raw by (rule distinct_foldl_alternate) simp
  have entry: "map_of raw h = entry_of (filter (\<lambda>r. row_sha r = h) ?rows)" for h
    unfolding raw by (rule foldl_alternate_step)
  have mem: "pe_pack e \<in> fetchable d hashes \<and> p_sha256 (pe_pack e) = h" if he: "(h, e) \<in> set raw" for h e
  proof -
    have "entry_of (filter (\<lambda>r. row_sha r = h) ?rows) = Some e" using entry map_of_is_SomeI [OF keys he] by simp
    then obtain p v rest where r: "filter (\<lambda>r. row_sha r = h) ?rows = (p, v) # rest" "pe_pack e = p"
      by (auto simp: entry_of_def split: list.splits)
    then have "(p, v) \<in> set (filter (\<lambda>r. row_sha r = h) ?rows)" by (metis list.set_intros(1))
    then show ?thesis using r(2) set_alternate_rows_all [of p v d loc hashes]
      by (auto simp: fetchable_def accessible_iff)
  qed
  then have "map p_sha256 (map (\<lambda>x. pe_pack (snd x)) raw) = map fst raw" by auto
  then have "distinct (map p_sha256 (map (\<lambda>x. pe_pack (snd x)) raw))" using keys by (simp only:)
  then show "distinct (map (\<lambda>x. pe_pack (snd x)) raw)" unfolding distinct_map by blast
  have "p \<in> (\<lambda>x. pe_pack (snd x)) ` set raw" if p: "p \<in> fetchable d hashes" for p
  proof -
    obtain v where "(p, v) \<in> set ?rows"
      using p set_alternate_rows_all [of p _ d loc hashes] by (auto simp: fetchable_def accessible_iff)
    then have "filter (\<lambda>r. row_sha r = p_sha256 p) ?rows \<noteq> []" by (force simp: filter_empty_conv)
    then obtain e where e: "(p_sha256 p, e) \<in> set raw"
      using entry [of "p_sha256 p"] map_of_SomeD [of raw "p_sha256 p"]
      by (cases "filter (\<lambda>r. row_sha r = p_sha256 p) ?rows") (auto simp: entry_of_def split: prod.splits)
    then have "pe_pack e = p"
      using mem [OF e] p schema_pack_unique [OF assms(1)] by (auto simp: fetchable_def)
    then show ?thesis using e by force
  qed
  then show "set (map (\<lambda>x. pe_pack (snd x)) raw) = fetchable d hashes" using mem by force
qed

lemma foldl_plan_step:
  "foldl plan_step (vols, n, b) raw =
     (foldl (\<lambda>vols x. dict_append (pe_primary_label (snd x)) (source_of (snd x)) vols) vols raw, n + length raw,
      b + sum_list (map (\<lambda>x. p_size_bytes (pe_pack (snd x))) raw))"
  by (induction raw arbitrary: vols n b) (simp_all add: plan_step_def source_of_def Let_def)

lemma sum_list_concat: "sum_list (concat xss) = sum_list (map sum_list xss)"
  by (induction xss) simp_all



end
