(* ===== verification/Consolidate.thy ===== *)
theory Consolidate
  imports Catalog_Register Binpack
begin

text \<open>
  \<open>consolidate/merger.py\<close>: planning a consolidation and moving its source volumes through the
  statuses CONSOLIDATING and DEPRECATED.
\<close>

section \<open>Operations\<close>

record consolidation_plan =
  cp_source_volume_ids :: "int list"
  cp_source_labels :: "string list"
  cp_active_packs :: "pack list"
  cp_total_active_bytes :: int
  cp_target_media_type :: media_type
  cp_volumes_needed :: int
  cp_pruned_left_behind :: "pack list"

fun source_labels :: "int list \<Rightarrow> string list \<Rightarrow> string list dbop" where
  "source_labels [] labels = op_ret labels"
| "source_labels (i # is) labels = op_bind (get_volume_by_id i) (\<lambda>v. source_labels is (labels @ [v_label v]))"

text \<open>An unknown volume raises; a target without usable space is the planning error of the estimate.\<close>

definition plan_consolidation ::
  "int \<Rightarrow> int list \<Rightarrow> media_type \<Rightarrow> (plan_error, consolidation_plan) result dbop" where
  "plan_consolidation metadata_reserve_bytes source_volume_ids target =
     op_bind (source_labels source_volume_ids []) (\<lambda>labels.
     op_bind (op_query (\<lambda>d. get_packs_only_on_volumes d source_volume_ids)) (\<lambda>active.
     op_bind (op_query (\<lambda>d. get_pruned_packs_on_volumes d source_volume_ids)) (\<lambda>pruned.
     let bytes = sum_list (map p_size_bytes active) in
     op_ret (rbind (estimate_volumes_needed bytes (capacity_bytes target) metadata_reserve_bytes
                      (ecc_overhead_pct target)) (\<lambda>n.
       Inr \<lparr>cp_source_volume_ids = source_volume_ids, cp_source_labels = labels, cp_active_packs = active,
            cp_total_active_bytes = bytes, cp_target_media_type = target, cp_volumes_needed = n,
            cp_pruned_left_behind = pruned\<rparr>)))))"

definition set_sources :: "string \<Rightarrow> int list \<Rightarrow> unit dbop" where
  "set_sources status ids =
     op_bind (op_for ids (\<lambda>i. update_status i status False False)) (\<lambda>_. op_commit)"

definition deprecate_sources :: "int list \<Rightarrow> unit dbop" where
  "deprecate_sources ids = set_sources ''DEPRECATED'' ids"

definition mark_sources_consolidating :: "int list \<Rightarrow> unit dbop" where
  "mark_sources_consolidating ids = set_sources ''CONSOLIDATING'' ids"

definition abort_consolidation :: "int list \<Rightarrow> unit dbop" where
  "abort_consolidation ids = set_sources ''VERIFIED'' ids"

section \<open>Statements that leave the disk alone\<close>

text \<open>An operation is quiet when it never writes the catalog on disk.\<close>

definition op_quiet :: "'a dbop \<Rightarrow> bool" where
  "op_quiet m \<longleftrightarrow> (\<forall>c. durable (snd (m c)) = durable c)"

lemma quiet_pure:
  "op_quiet (op_ret a)" "op_quiet (op_raise e)" "op_quiet (op_query q)" "op_quiet (op_clock g)"
  "op_quiet (op_raise_if b e)" "op_quiet (op_dml f)" "op_quiet (op_commit_if False)"
  by (simp_all add: op_quiet_def op_ret_def op_raise_def op_query_def op_clock_def op_raise_if_def
      op_dml_def op_commit_if_def Let_def split: prod.splits)

lemma quiet_bind: "op_quiet m \<Longrightarrow> (\<And>a. op_quiet (f a)) \<Longrightarrow> op_quiet (op_bind m f)"
proof (unfold op_quiet_def, rule allI)
  fix c
  assume m: "\<forall>c. durable (snd (m c)) = durable c" and f: "\<And>a. \<forall>c. durable (snd (f a c)) = durable c"
  obtain r c' where "m c = (r, c')" by (cases "m c")
  then show "durable (snd (op_bind m f c)) = durable c"
    using m [rule_format, of c] f [rule_format] by (cases r) (simp_all add: op_bind_def)
qed

lemma quiet_for: "(\<And>x. op_quiet (f x)) \<Longrightarrow> op_quiet (op_for xs f)"
  by (induction xs) (simp_all add: quiet_pure quiet_bind)

lemma quiet_option: "op_quiet m \<Longrightarrow> (\<And>a. op_quiet (f a)) \<Longrightarrow> op_quiet (case x of None \<Rightarrow> m | Some a \<Rightarrow> f a)"
  by (cases x) simp_all

lemmas quiet_intros = quiet_pure quiet_bind quiet_for quiet_option

lemma quiet_get_volume: "op_quiet (get_volume_by_id i)"
  unfolding get_volume_by_id_def by (intro quiet_intros)

lemma quiet_add_event: "op_quiet (add_event i t l x da False)"
  unfolding add_event_def get_event_def by (intro quiet_intros)

lemma quiet_write_status: "op_quiet (write_status i x s False)"
  unfolding write_status_def by (intro quiet_intros quiet_add_event)

lemma quiet_update_status: "s \<noteq> ''DEPRECATED'' \<Longrightarrow> op_quiet (update_status i s False False)"
  unfolding update_status_def Let_def
  by (simp, intro quiet_intros quiet_get_volume quiet_write_status)

lemma set_sources_atomic:
  assumes "s \<noteq> ''DEPRECATED''"
  shows "case set_sources s ids c of (Inl e, c') \<Rightarrow> durable c' = durable c | (Inr _, c') \<Rightarrow> durable c' = db c'"
proof -
  have "op_quiet (op_for ids (\<lambda>i. update_status i s False False))"
    by (rule quiet_for) (rule quiet_update_status [OF assms])
  then show ?thesis
    unfolding set_sources_def op_quiet_def op_bind_def
    by (cases "op_for ids (\<lambda>i. update_status i s False False) c")
       (auto simp: op_commit_def split: sum.splits dest: spec [of _ c])
qed

section \<open>What the planner reads\<close>

text \<open>A dict filled by key from rows that the key tells apart holds each row once.\<close>

definition keyed :: "('r \<Rightarrow> 'k) \<Rightarrow> 'r set \<Rightarrow> ('k \<times> 'r) list \<Rightarrow> bool" where
  "keyed k A m \<longleftrightarrow> set m = (\<lambda>r. (k r, r)) ` A \<and> distinct (map fst m)"

lemma keys_dict_put: "fst ` set (dict_put k x m) = insert k (fst ` set m)"
  by (induction k x m rule: dict_put.induct) auto

lemma distinct_dict_put: "distinct (map fst m) \<Longrightarrow> distinct (map fst (dict_put k x m))"
proof (induction k x m rule: dict_put.induct)
  case (2 k x k' y rest)
  then show ?case using keys_dict_put [of k x rest] by (auto simp flip: set_map)
qed simp

lemma keyed_put:
  assumes "keyed k A m" "inj_on k (insert r A)"
  shows "keyed k (insert r A) (dict_put (k r) r m)"
proof -
  have d: "distinct (map fst (dict_put (k r) r m))" using assms(1) by (simp add: keyed_def distinct_dict_put)
  have m: "distinct (map fst m)" using assms(1) by (simp add: keyed_def)
  have "(a, b) \<in> set (dict_put (k r) r m) \<longleftrightarrow> map_of (dict_put (k r) r m) a = Some b" for a b
    using d by simp
  then have "(a, b) \<in> set (dict_put (k r) r m) \<longleftrightarrow> (if a = k r then b = r else (a, b) \<in> set m)" for a b
    using m by (simp add: map_of_dict_put eq_commute)
  then have "set (dict_put (k r) r m) = (\<lambda>r. (k r, r)) ` insert r A"
    using assms by (auto simp: keyed_def inj_on_def image_iff split: if_splits)
  then show ?thesis using d by (simp add: keyed_def)
qed

lemma keyed_puts:
  "keyed k A m \<Longrightarrow> inj_on k (A \<union> set rs) \<Longrightarrow> keyed k (A \<union> set rs) (foldl (\<lambda>m r. dict_put (k r) r m) m rs)"
proof (induction rs arbitrary: A m)
  case (Cons r rs)
  have "keyed k (insert r A) (dict_put (k r) r m)"
    using Cons.prems by (intro keyed_put) (auto intro: inj_on_subset)
  then show ?case using Cons.IH [of "insert r A"] Cons.prems(2) by simp
qed simp

lemma keyed_batches:
  "keyed k A m \<Longrightarrow> inj_on k (A \<union> (\<Union>b\<in>set bs. set (rows b))) \<Longrightarrow>
   keyed k (A \<union> (\<Union>b\<in>set bs. set (rows b))) (foldl (\<lambda>m b. foldl (\<lambda>m r. dict_put (k r) r m) m (rows b)) m bs)"
proof (induction bs arbitrary: A m)
  case (Cons b bs)
  have "keyed k (A \<union> set (rows b)) (foldl (\<lambda>m r. dict_put (k r) r m) m (rows b))"
    using Cons.prems by (intro keyed_puts) (auto intro: inj_on_subset)
  then show ?case using Cons.IH [of "A \<union> set (rows b)"] Cons.prems(2) by (simp add: Un_assoc)
qed simp

lemma keyed_rows: "keyed k A m \<Longrightarrow> set (map snd m) = A \<and> distinct (map snd m)"
proof -
  assume a: "keyed k A m"
  then have "inj_on snd (set m)" by (auto simp: keyed_def inj_on_def)
  then show ?thesis using a by (force simp: keyed_def distinct_map)
qed

lemma packs_on_volumes_rows:
  assumes "schema_ok d"
  shows "set (packs_on_volumes d b vids) =
      {p \<in> set (packs d). p_is_pruned p = b \<and> (\<exists>i\<in>set vids. (i, p_id p) \<in> set (volume_packs d))} \<and>
    distinct (packs_on_volumes d b vids) \<and> sorted (map p_sha256 (packs_on_volumes d b vids))"
proof (cases "vids = []")
  case False
  let ?rows = "\<lambda>batch. sort_key p_sha256 (remdups [p. p \<leftarrow> packs d, (vi, pi) \<leftarrow> volume_packs d,
                    pi = p_id p \<and> vi \<in> set batch \<and> p_is_pruned p = b])"
  let ?all = "\<Union>c\<in>set (chunks SQLITE_BATCH vids). set (?rows c)"
  have inj: "inj_on p_id (set (packs d))" using schema_okD(2) [OF assms] by (simp add: packs_ok_def distinct_map)
  have "?all = {p \<in> set (packs d). p_is_pruned p = b \<and> (\<exists>i\<in>(\<Union>c\<in>set (chunks SQLITE_BATCH vids). set c).
      (i, p_id p) \<in> set (volume_packs d))}" by auto
  moreover have "(\<Union>c\<in>set (chunks SQLITE_BATCH vids). set c) = set vids"
    by (rule set_chunks) (simp add: SQLITE_BATCH_def)
  ultimately have all: "?all = {p \<in> set (packs d). p_is_pruned p = b \<and> (\<exists>i\<in>set vids. (i, p_id p) \<in> set (volume_packs d))}"
    by (simp only:)
  let ?m = "foldl (\<lambda>m batch. foldl (\<lambda>m p. dict_put (p_id p) p m) m (?rows batch)) [] (chunks SQLITE_BATCH vids)"
  have "keyed p_id ?all ?m"
    using keyed_batches [of p_id "{}" "[]" ?rows "chunks SQLITE_BATCH vids"] inj
    by (auto simp: keyed_def [of _ "{}"] intro: inj_on_subset)
  then have "set (map snd ?m) = ?all \<and> distinct (map snd ?m)" by (rule keyed_rows)
  then show ?thesis unfolding packs_on_volumes_def using False all by (simp add: distinct_sort)
qed (simp add: packs_on_volumes_def)

section \<open>What the marking writes\<close>

lemma add_event_volumes: "add_event i t l x da b c = (r, c') \<Longrightarrow> volumes (db c') = volumes (db c)"
  by (auto simp: add_event_def get_event_def insert_event_def op_bind_def op_raise_if_def op_raise_def op_ret_def
      op_clock_def op_dml_def op_query_def op_commit_if_def op_commit_def Let_def
      split: prod.splits sum.splits if_splits option.splits)

lemma write_status_volumes:
  assumes "write_status i x s False c = (Inr u, c')"
  shows "\<exists>f. volumes (db c') = sql_update (\<lambda>v. v_id v = i) f (volumes (db c)) \<and>
     (\<forall>v. v_status (f v) = s \<and> v_id (f v) = v_id v)"
proof -
  let ?f = "\<lambda>v. if s = ''VERIFIED'' then v\<lparr>v_status := s, v_verified_at := Some (now_iso c)\<rparr> else v\<lparr>v_status := s\<rparr>"
  have "volumes (db c') = sql_update (\<lambda>v. v_id v = i) ?f (volumes (db c))"
    using assms
    by (auto simp: write_status_def op_bind_def op_clock_def op_dml_def op_ret_def set_volume_def Let_def
        op_commit_if_def dest!: add_event_volumes split: prod.splits sum.splits if_split_asm)
  then show ?thesis by (intro exI [of _ ?f]) simp
qed

lemma update_status_volumes:
  assumes "update_status i s False False c = (Inr u, c')" "s \<noteq> ''DEPRECATED''"
  shows "\<exists>f. volumes (db c') = sql_update (\<lambda>v. v_id v = i) f (volumes (db c)) \<and>
     (\<forall>v. v_status (f v) = s \<and> v_id (f v) = v_id v)"
  using assms write_status_volumes
  by (auto simp: update_status_def get_volume_by_id_def Let_def op_bind_def op_query_def op_ret_def op_raise_def
      op_raise_if_def split: option.splits sum.splits prod.splits if_splits)

lemma set_sources_volumes:
  assumes "op_for ids (\<lambda>i. update_status i s False False) c = (Inr u, c')" "s \<noteq> ''DEPRECATED''"
  shows "list_all2 (\<lambda>v w. if v_id v \<in> set ids then v_id w = v_id v \<and> v_status w = s else w = v)
     (volumes (db c)) (volumes (db c'))"
  using assms(1)
proof (induction ids arbitrary: c)
  case Nil
  then show ?case by (simp add: op_ret_def list.rel_refl)
next
  case (Cons i ids)
  then obtain c1 where c1: "update_status i s False False c = (Inr (), c1)"
    "op_for ids (\<lambda>i. update_status i s False False) c1 = (Inr u, c')"
    by (auto simp: op_bind_def split: prod.splits sum.splits)
  obtain f where f: "volumes (db c1) = sql_update (\<lambda>v. v_id v = i) f (volumes (db c))"
    "\<forall>v. v_status (f v) = s \<and> v_id (f v) = v_id v"
    using update_status_volumes [OF c1(1) assms(2)] by blast
  show ?case
    using Cons.IH [OF c1(2)] f(2) unfolding f(1) sql_update_def list_all2_map1
    by (auto elim!: list_all2_mono split: if_splits)
qed

section \<open>Properties\<close>

lemma source_labels_spec:
  assumes "schema_ok (db c)"
  shows "case source_labels ids ls c of
      (Inl e, c') \<Rightarrow> c' = c \<and> (\<exists>i\<in>set ids. i \<notin> v_id ` set (volumes (db c)) \<and> e = Volume_not_found i)
    | (Inr ls', c') \<Rightarrow> c' = c \<and> set ids \<subseteq> v_id ` set (volumes (db c)) \<and> (\<exists>xs. ls' = ls @ xs \<and>
        list_all2 (\<lambda>i l. \<exists>v\<in>set (volumes (db c)). v_id v = i \<and> v_label v = l) ids xs)"
proof (induction ids arbitrary: ls)
  case Nil
  then show ?case by (simp add: op_ret_def)
next
  case (Cons i ids)
  show ?case
  proof (cases "i \<in> v_id ` set (volumes (db c))")
    case True
    then obtain v where v: "v \<in> set (volumes (db c))" "v_id v = i" by auto
    have e: "source_labels (i # ids) ls c = source_labels ids (ls @ [v_label v]) c"
      using get_volume_found [OF assms v(1)] v(2) by simp
    show ?thesis using Cons.IH [of "ls @ [v_label v]"] v unfolding e
      by (cases "source_labels ids (ls @ [v_label v]) c") (auto split: sum.splits)
  next
    case False
    then have "find (\<lambda>v. v_id v = i) (volumes (db c)) = None" by (auto simp: find_None_iff)
    then have "source_labels (i # ids) ls c = (Inl (Volume_not_found i), c)"
      by (simp add: get_volume_by_id_def op_bind_def op_query_def op_raise_def)
    then show ?thesis using False by simp
  qed
qed

text \<open>The packs of the source volumes, pruned or not.\<close>

abbreviation packs_of_sources :: "catalog \<Rightarrow> int list \<Rightarrow> bool \<Rightarrow> pack set" where
  "packs_of_sources d ids b \<equiv>
     {p \<in> set (packs d). p_is_pruned p = b \<and> (\<exists>i\<in>set ids. (i, p_id p) \<in> set (volume_packs d))}"

text \<open>
  Planning a consolidation reads only. It raises exactly for a source that does not exist, and
  reports a target without usable space; otherwise the plan names each source by its label, and
  every pack of the sources is in it once: the unpruned ones to be migrated, with their byte total
  and the estimated number of volumes, the pruned ones as left behind.
\<close>

theorem plan_consolidation_spec:
  assumes "schema_ok (db c)"
  shows "case plan_consolidation reserve ids t c of
      (Inl e, c') \<Rightarrow> c' = c \<and> (\<exists>i\<in>set ids. i \<notin> v_id ` set (volumes (db c)) \<and> e = Volume_not_found i)
    | (Inr (Inl e), c') \<Rightarrow> c' = c \<and> usable_bytes t \<le> reserve \<and> packs_of_sources (db c) ids False \<noteq> {}
    | (Inr (Inr plan), c') \<Rightarrow> c' = c \<and> set ids \<subseteq> v_id ` set (volumes (db c)) \<and>
        cp_source_volume_ids plan = ids \<and> cp_target_media_type plan = t \<and>
        list_all2 (\<lambda>i l. \<exists>v\<in>set (volumes (db c)). v_id v = i \<and> v_label v = l) ids (cp_source_labels plan) \<and>
        set (cp_active_packs plan) = packs_of_sources (db c) ids False \<and> distinct (cp_active_packs plan) \<and>
        set (cp_pruned_left_behind plan) = packs_of_sources (db c) ids True \<and>
        distinct (cp_pruned_left_behind plan) \<and>
        cp_total_active_bytes plan = sum_list (map p_size_bytes (cp_active_packs plan)) \<and>
        estimate_volumes_needed (cp_total_active_bytes plan) (capacity_bytes t) reserve (ecc_overhead_pct t) =
          Inr (cp_volumes_needed plan)"
proof -
  let ?a = "get_packs_only_on_volumes (db c) ids" and ?p = "get_pruned_packs_on_volumes (db c) ids"
  have a: "set ?a = packs_of_sources (db c) ids False" "distinct ?a"
    and p: "set ?p = packs_of_sources (db c) ids True" "distinct ?p"
    using packs_on_volumes_rows [OF assms, of False ids] packs_on_volumes_rows [OF assms, of True ids]
    by (simp_all add: get_packs_only_on_volumes_def get_pruned_packs_on_volumes_def)
  show ?thesis
  proof (cases "source_labels ids [] c")
    case (Pair r c')
    show ?thesis
    proof (cases r)
      case (Inl e)
      then show ?thesis using source_labels_spec [OF assms, of ids "[]"]
        by (simp add: plan_consolidation_def op_bind_def Pair)
    next
      case (Inr labels)
      let ?e = "estimate_volumes_needed (sum_list (map p_size_bytes ?a)) (capacity_bytes t) reserve
                  (ecc_overhead_pct t)"
      have labels: "c' = c" "set ids \<subseteq> v_id ` set (volumes (db c))"
        "list_all2 (\<lambda>i l. \<exists>v\<in>set (volumes (db c)). v_id v = i \<and> v_label v = l) ids labels"
        using source_labels_spec [OF assms, of ids "[]"] by (simp_all add: Pair Inr)
      have "?e = Inl x \<Longrightarrow> usable_bytes t \<le> reserve \<and> packs_of_sources (db c) ids False \<noteq> {}" for x
        unfolding a(1) [symmetric]
        by (auto simp: estimate_volumes_needed_def usable_bytes_def Let_def split: if_splits)
      then show ?thesis using labels a p
        by (cases ?e) (simp_all add: plan_consolidation_def op_bind_def op_query_def op_ret_def Pair Inr)
    qed
  qed
qed

theorem plan_consolidation_spec_witness:
  "case plan_consolidation 0 [1, 2] BD25 (open_connection demo_catalog) of
     (Inr (Inr plan), _) \<Rightarrow> cp_active_packs plan = packs demo_catalog \<and> cp_volumes_needed plan = 1 \<and>
        cp_source_labels plan = [''A1'', ''A2''] \<and> distinct (cp_pruned_left_behind plan)
   | _ \<Rightarrow> False"
proof -
  let ?c = "open_connection demo_catalog"
  have ok: "schema_ok (db ?c)" using clean_conn(1) [OF demo_ok(2)] .
  have "case plan_consolidation 0 [1, 2] BD25 ?c of (Inr (Inr plan), _) \<Rightarrow>
      cp_active_packs plan = packs demo_catalog \<and> cp_volumes_needed plan = 1 \<and>
      cp_source_labels plan = [''A1'', ''A2''] | _ \<Rightarrow> False" by code_simp
  then show ?thesis using plan_consolidation_spec [OF ok, where reserve = 0 and ids = "[1, 2]" and t = BD25]
    by (auto split: prod.splits sum.splits)
qed

text \<open>
  C15. Marking sources is all or nothing. When marking the sources of a consolidation, or taking the
  mark back after a failed burn, raises for one of them, nothing has reached the disk; when it
  succeeds, every change is on disk: the sources have the new status and no other volume has
  changed.
\<close>

theorem consolidation_marks_atomic:
  "(case mark_sources_consolidating ids c of
      (Inl e, c') \<Rightarrow> durable c' = durable c
    | (Inr _, c') \<Rightarrow> durable c' = db c' \<and>
        list_all2 (\<lambda>v w. if v_id v \<in> set ids then v_id w = v_id v \<and> v_status w = ''CONSOLIDATING'' else w = v)
          (volumes (db c)) (volumes (durable c'))) \<and>
   (case abort_consolidation ids c of
      (Inl e, c') \<Rightarrow> durable c' = durable c
    | (Inr _, c') \<Rightarrow> durable c' = db c' \<and>
        list_all2 (\<lambda>v w. if v_id v \<in> set ids then v_id w = v_id v \<and> v_status w = ''VERIFIED'' else w = v)
          (volumes (db c)) (volumes (durable c')))"
proof -
  have "case set_sources s ids c of
      (Inl e, c') \<Rightarrow> durable c' = durable c
    | (Inr _, c') \<Rightarrow> durable c' = db c' \<and>
        list_all2 (\<lambda>v w. if v_id v \<in> set ids then v_id w = v_id v \<and> v_status w = s else w = v)
          (volumes (db c)) (volumes (durable c'))" if s: "s \<noteq> ''DEPRECATED''" for s
  proof (cases "op_for ids (\<lambda>i. update_status i s False False) c")
    case (Pair r c1)
    then show ?thesis using set_sources_atomic [OF s, where ids = ids and c = c] set_sources_volumes [OF _ s, where ids = ids and c = c]
      by (cases r) (simp_all add: set_sources_def op_bind_def op_commit_def)
  qed
  then show ?thesis by (simp add: mark_sources_consolidating_def abort_consolidation_def)
qed

text \<open>Two verified volumes with one pack each, only the first of them replicated.\<close>

definition two_sources :: catalog where
  "two_sources = demo_catalog\<lparr>
     volumes := map (\<lambda>(i, l). (hd (volumes demo_catalog))\<lparr>v_id := i, v_label := l, v_uuid := l\<rparr>)
       [(1, ''A1''), (2, ''A2''), (3, ''A3'')],
     packs := map (\<lambda>(i, h). (hd (packs demo_catalog))\<lparr>p_id := i, p_sha256 := h\<rparr>) [(1, ''aa''), (2, ''bb'')],
     volume_packs := [(1, 1), (3, 1), (2, 2)], volume_copies := [], seq_volumes := 3, seq_packs := 2\<rparr>"


end
