(* ===== verification/Mirror.thy ===== *)
theory Mirror
  imports Consolidate
begin

text \<open>
  The local mirror: scanning it for pack files (\<open>packs/scanner.py\<close>), the places of pack files in it
  (\<open>utils/pack_layout.py\<close>), and the comparison of a scan with the catalog (\<open>packs/delta.py\<close>).

  What the operating system answers is data: every directory entry carries the results of its
  \<open>is_file\<close>, \<open>is_dir\<close> and \<open>stat\<close> calls and, for a directory, of \<open>os.scandir\<close>. An OSError carries its
  text. Log messages are not modelled, apart from the size mismatches a scan reports.
\<close>

section \<open>Scanning\<close>

datatype os_error = Permission_error string | Other_os_error string

fun os_error_text :: "os_error \<Rightarrow> string" where
  "os_error_text (Permission_error s) = s"
| "os_error_text (Other_os_error s) = s"

record file_entry =
  fe_name :: string
  fe_path :: string
  fe_is_file :: "(os_error, bool) result"
  fe_size :: "(os_error, int) result"

record dir_entry = file_entry +
  de_is_dir :: "(os_error, bool) result"
  de_entries :: "(os_error, file_entry list) result"

record mirror =
  mi_data_dir :: string
  mi_is_dir :: bool
  mi_entries :: "(os_error, dir_entry list) result"

record mirror_scan_result =
  sr_packs :: "(string \<times> int) list"
  sr_errors :: "string list"

text \<open>The pattern \<open>^[0-9a-f]{64}$\<close>: \<open>$\<close> also matches before a newline at the end.\<close>

definition hex_char :: "char \<Rightarrow> bool" where
  "hex_char c \<longleftrightarrow> c \<in> set ''0123456789abcdef''"

definition PACK_NAME_RE :: "string \<Rightarrow> bool" where
  "PACK_NAME_RE name \<longleftrightarrow>
     list_all hex_char (take 64 name) \<and> (length name = 64 \<or> length name = 65 \<and> last name = CHR 0x0A)"

definition register_pack_file :: "string \<Rightarrow> int \<Rightarrow> (string \<times> int) list \<Rightarrow> (string \<times> int) list" where
  "register_pack_file name n ps =
     (if \<not> PACK_NAME_RE name then ps else if n = 0 then ps else dict_put name n ps)"

definition error_line :: "string \<Rightarrow> os_error \<Rightarrow> string" where
  "error_line path e = path @ '': '' @ os_error_text e"

definition is_hidden :: "string \<Rightarrow> bool" where
  "is_hidden name \<longleftrightarrow> starts_with name ''.''"

text \<open>The entries of a subdirectory: a failing \<open>stat\<close> is noted and the loop goes on; a failing
  \<open>is_file\<close> leaves the loop with the error.\<close>

fun scan_files :: "file_entry list \<Rightarrow> mirror_scan_result \<Rightarrow> os_error option \<times> mirror_scan_result" where
  "scan_files [] r = (None, r)"
| "scan_files (f # fs) r =
     (case fe_is_file f of
        Inl e \<Rightarrow> (Some e, r)
      | Inr b \<Rightarrow>
          if b \<and> \<not> is_hidden (fe_name f) then
            (case fe_size f of
               Inl e \<Rightarrow> scan_files fs (r\<lparr>sr_errors := sr_errors r @ [error_line (fe_path f) e]\<rparr>)
             | Inr n \<Rightarrow> scan_files fs (r\<lparr>sr_packs := register_pack_file (fe_name f) n (sr_packs r)\<rparr>))
          else scan_files fs r)"

definition note_error :: "string \<Rightarrow> os_error \<Rightarrow> mirror_scan_result \<Rightarrow> mirror_scan_result" where
  "note_error path e r = r\<lparr>sr_errors := sr_errors r @ [error_line path e]\<rparr>"

definition scan_entry :: "mirror_scan_result \<Rightarrow> dir_entry \<Rightarrow> mirror_scan_result" where
  "scan_entry r entry =
     (case fe_is_file entry of
        Inl e \<Rightarrow> note_error (fe_path entry) e r
      | Inr b \<Rightarrow>
          if b \<and> \<not> is_hidden (fe_name entry) then
            (case fe_size entry of
               Inl e \<Rightarrow> note_error (fe_path entry) e r
             | Inr n \<Rightarrow> r\<lparr>sr_packs := register_pack_file (fe_name entry) n (sr_packs r)\<rparr>)
          else
            (case de_is_dir entry of
               Inl e \<Rightarrow> note_error (fe_path entry) e r
             | Inr d \<Rightarrow>
                 if d then
                   (case de_entries entry of
                      Inl e \<Rightarrow> note_error (fe_path entry) e r
                    | Inr files \<Rightarrow>
                        (case scan_files files r of
                           (Some e, r') \<Rightarrow> note_error (fe_path entry) e r'
                         | (None, r') \<Rightarrow> r'))
                 else r))"

text \<open>Of the errors of \<open>os.scandir\<close> on the data directory only PermissionError is caught.\<close>

definition scan_mirror_packs :: "mirror \<Rightarrow> (os_error, mirror_scan_result) result" where
  "scan_mirror_packs m =
     (if \<not> mi_is_dir m then Inr \<lparr>sr_packs = [], sr_errors = []\<rparr>
      else
        case mi_entries m of
          Inl (Permission_error s) \<Rightarrow>
            Inr \<lparr>sr_packs = [], sr_errors = [error_line (mi_data_dir m) (Permission_error s)]\<rparr>
        | Inl (Other_os_error s) \<Rightarrow> Inl (Other_os_error s)
        | Inr entries \<Rightarrow> Inr (foldl scan_entry \<lparr>sr_packs = [], sr_errors = []\<rparr> entries))"

section \<open>Comparing with the catalog\<close>

datatype delta_error = Repo_id_required

definition known_sizes :: "string list \<Rightarrow> catalog \<Rightarrow> (string \<times> int) list" where
  "known_sizes shas d =
     foldl (\<lambda>m batch. foldl (\<lambda>m p. dict_put (p_sha256 p) (p_size_bytes p) m) m
        (filter (\<lambda>p. p_sha256 p \<in> set batch) (packs d))) [] (chunks SQLITE_BATCH shas)"

text \<open>The result also lists the size mismatches that are logged, as hash, recorded and found size.\<close>

definition register_new_packs :: "(string \<times> int) list \<Rightarrow> string option \<Rightarrow>
    (delta_error, pack list \<times> (string \<times> int \<times> int) list) result dbop" where
  "register_new_packs scan repo_id =
     (if scan = [] then op_ret (Inr ([], []))
      else
        case repo_id of
          None \<Rightarrow> op_ret (Inl Repo_id_required)
        | Some repo \<Rightarrow>
            op_bind (op_query (known_sizes (map fst scan))) (\<lambda>known.
            let mismatches = [(h, k, n). (h, n) \<leftarrow> scan, k \<leftarrow> (case map_of known h of None \<Rightarrow> [] | Some k \<Rightarrow> [k]), k \<noteq> n];
                new_tuples = map (\<lambda>(h, n). (h, n, repo)) (filter (\<lambda>(h, n). map_of known h = None) scan)
            in if new_tuples = [] then op_ret (Inr ([], mismatches))
               else op_bind (bulk_register new_tuples) (\<lambda>rows. op_ret (Inr (rows, mismatches)))))"

definition get_unarchived :: "string option \<Rightarrow> pack list dbop" where
  "get_unarchived repo_id = op_query (\<lambda>d. get_unarchived_packs d repo_id)"

definition total_unarchived :: "string option \<Rightarrow> int dbop" where
  "total_unarchived repo_id = op_query (\<lambda>d. get_total_unarchived_bytes d repo_id)"

definition needs_burn :: "string option \<Rightarrow> int \<Rightarrow> bool dbop" where
  "needs_burn repo_id usable_capacity =
     op_bind (total_unarchived repo_id) (\<lambda>n. op_ret (n \<ge> usable_capacity))"

definition detect_pruned :: "(string \<times> int) list \<Rightarrow> string option \<Rightarrow> pack list dbop" where
  "detect_pruned scan repo_id =
     op_bind (list_packs repo_id False) (\<lambda>all_active.
     if scan = [] then op_ret []
     else op_ret (filter (\<lambda>p. p_sha256 p \<notin> fst ` set scan) all_active))"

section \<open>Places of pack files\<close>

definition METADATA_SUBDIRS :: "string list" where
  "METADATA_SUBDIRS = [''index'', ''snapshots'', ''keys'']"

text \<open>\<open>pathlib\<close>'s join of a directory and one name; \<open>is_file\<close> is a set of paths.\<close>

definition path_join :: "string \<Rightarrow> string \<Rightarrow> string" where
  "path_join d name = d @ ''/'' @ name"

definition pack_dest_path :: "string \<Rightarrow> string \<Rightarrow> string" where
  "pack_dest_path data_dir sha256 =
     (if length sha256 \<ge> 2 then path_join (path_join data_dir (take 2 sha256)) sha256
      else path_join data_dir sha256)"

definition find_pack_file :: "(string \<Rightarrow> bool) \<Rightarrow> string \<Rightarrow> string \<Rightarrow> string option" where
  "find_pack_file is_file data_dir sha256 =
     (if length sha256 \<ge> 2 \<and> is_file (path_join (path_join data_dir (take 2 sha256)) sha256)
      then Some (path_join (path_join data_dir (take 2 sha256)) sha256)
      else if is_file (path_join data_dir sha256) then Some (path_join data_dir sha256)
      else None)"

section \<open>What a scan finds\<close>

definition file_packs :: "'a file_entry_scheme \<Rightarrow> (string \<times> int) set" where
  "file_packs f = {(fe_name f, n) | n. fe_is_file f = Inr True \<and> fe_size f = Inr n \<and> n \<noteq> 0 \<and> PACK_NAME_RE (fe_name f)}"

definition entry_packs :: "dir_entry \<Rightarrow> (string \<times> int) set" where
  "entry_packs e = file_packs e \<union>
     (case de_entries e of Inl _ \<Rightarrow> {} | Inr files \<Rightarrow>
        if (fe_is_file e = Inr False \<or> is_hidden (fe_name e)) \<and> de_is_dir e = Inr True
        then \<Union>f\<in>set files. file_packs f else {})"

text \<open>The pack files of a mirror: non-empty files with the name of a pack in the data directory or in a
  directory of it.\<close>

definition mirror_packs :: "mirror \<Rightarrow> (string \<times> int) set" where
  "mirror_packs m =
     (if \<not> mi_is_dir m then {}
      else case mi_entries m of Inl _ \<Rightarrow> {} | Inr entries \<Rightarrow> \<Union>e\<in>set entries. entry_packs e)"

definition scan_sound :: "(string \<times> int) set \<Rightarrow> mirror_scan_result \<Rightarrow> bool" where
  "scan_sound A r \<longleftrightarrow> distinct (map fst (sr_packs r)) \<and> set (sr_packs r) \<subseteq> A"

definition scan_ok :: "(string \<times> int) set \<Rightarrow> mirror_scan_result \<Rightarrow> bool" where
  "scan_ok A r \<longleftrightarrow> scan_sound A r \<and> (sr_errors r = [] \<longrightarrow> fst ` A \<subseteq> fst ` set (sr_packs r))"

lemma set_dict_put: "set (dict_put k x m) \<subseteq> insert (k, x) (set m)"
  by (induction k x m rule: dict_put.induct) auto

lemma pack_name_not_hidden: "PACK_NAME_RE name \<Longrightarrow> \<not> is_hidden name"
proof
  assume "PACK_NAME_RE name" "is_hidden name"
  then have n: "list_all hex_char (take 64 name)" "length name \<ge> 64" "take 1 name = ''.''"
    by (auto simp: PACK_NAME_RE_def is_hidden_def starts_with_def)
  then obtain rest where "name = CHR ''.'' # rest" by (cases name) auto
  with n(1) show False by (simp add: hex_char_def)
qed

lemma register_ok:
  assumes "scan_ok A r" "fe_is_file f = Inr True" "fe_size f = Inr n"
  shows "scan_ok (A \<union> file_packs f) (r\<lparr>sr_packs := register_pack_file (fe_name f) n (sr_packs r)\<rparr>)"
proof (cases "PACK_NAME_RE (fe_name f) \<and> n \<noteq> 0")
  case True
  then have "file_packs f = {(fe_name f, n)}" using assms(2,3) by (auto simp: file_packs_def)
  then show ?thesis
    using assms(1) True set_dict_put [of "fe_name f" n "sr_packs r"] keys_dict_put [of "fe_name f" n "sr_packs r"]
    by (auto simp: scan_ok_def scan_sound_def register_pack_file_def distinct_dict_put)
next
  case False
  then have "file_packs f = {}" using assms(2,3) by (auto simp: file_packs_def)
  then show ?thesis using assms(1) False by (auto simp: register_pack_file_def)
qed

lemma scan_ok_skip: "scan_ok A r \<Longrightarrow> file_packs f = {} \<Longrightarrow> scan_ok (A \<union> file_packs f) r"
  by simp

lemma scan_ok_error:
  "scan_sound A r \<Longrightarrow> A \<subseteq> B \<Longrightarrow> scan_ok B (r\<lparr>sr_errors := sr_errors r @ [x]\<rparr>)"
  by (auto simp: scan_ok_def scan_sound_def)

lemma scan_ok_sound: "scan_ok A r \<Longrightarrow> scan_sound A r"
  by (simp add: scan_ok_def)

lemma no_file_packs: "fe_is_file f \<noteq> Inr True \<or> is_hidden (fe_name f) \<Longrightarrow> file_packs f = {}"
  using pack_name_not_hidden by (auto simp: file_packs_def)

lemma scan_files_ok:
  "scan_ok A r \<Longrightarrow> case scan_files fs r of
      (None, r') \<Rightarrow> scan_ok (A \<union> (\<Union>f\<in>set fs. file_packs f)) r'
    | (Some _, r') \<Rightarrow> scan_sound (A \<union> (\<Union>f\<in>set fs. file_packs f)) r'"
proof (induction fs arbitrary: A r)
  case (Cons f fs)
  have u: "A \<union> (\<Union>f\<in>set (f # fs). file_packs f) = A \<union> file_packs f \<union> (\<Union>f\<in>set fs. file_packs f)" by auto
  have widen: "scan_ok (A \<union> file_packs f) r' \<Longrightarrow> scan_files (f # fs) r = scan_files fs r' \<Longrightarrow> ?case" for r'
    using Cons.IH [of "A \<union> file_packs f" r'] unfolding u by (simp only:)
  show ?case
  proof (cases "fe_is_file f")
    case (Inl e)
    then show ?thesis using Cons.prems by (auto simp: scan_ok_def scan_sound_def)
  next
    case (Inr b)
    show ?thesis
    proof (cases "b \<and> \<not> is_hidden (fe_name f)")
      case True
      show ?thesis
      proof (cases "fe_size f")
        case (Inl e)
        have "scan_ok (A \<union> file_packs f) (r\<lparr>sr_errors := sr_errors r @ [error_line (fe_path f) e]\<rparr>)"
          by (rule scan_ok_error [OF scan_ok_sound [OF Cons.prems]]) simp
        then show ?thesis by (rule widen) (use Inr True Inl in simp)
      next
        case size: (Inr n)
        have "scan_ok (A \<union> file_packs f) (r\<lparr>sr_packs := register_pack_file (fe_name f) n (sr_packs r)\<rparr>)"
          using Inr True by (intro register_ok Cons.prems size) simp
        then show ?thesis by (rule widen) (use Inr True size in simp)
      qed
    next
      case False
      then have "scan_ok (A \<union> file_packs f) r" using Inr by (intro scan_ok_skip Cons.prems no_file_packs) auto
      then show ?thesis by (rule widen) (use Inr False in auto)
    qed
  qed
qed simp

lemma scan_entry_ok:
  assumes "scan_ok A r"
  shows "scan_ok (A \<union> entry_packs e) (scan_entry r e)"
proof -
  have err: "scan_ok (A \<union> entry_packs e) (note_error p x r')" if "scan_sound (A \<union> entry_packs e) r'" for p x r'
    unfolding note_error_def by (rule scan_ok_error [OF that]) simp
  have err': "scan_ok (A \<union> entry_packs e) (note_error p x r)" for p x
    using assms by (intro err) (auto simp: scan_ok_def scan_sound_def)
  consider (bad) x where "fe_is_file e = Inl x" | (plain) "fe_is_file e = Inr True" "\<not> is_hidden (fe_name e)"
    | (other) "\<exists>b. fe_is_file e = Inr b" "fe_is_file e = Inr False \<or> is_hidden (fe_name e)"
    by (cases "fe_is_file e") (metis, metis)
  then show ?thesis
  proof cases
    case bad
    then show ?thesis using err' by (simp add: scan_entry_def)
  next
    case plain
    then have "entry_packs e = file_packs e" by (auto simp: entry_packs_def split: sum.splits)
    then show ?thesis using plain register_ok [OF assms plain(1)] err'
      by (auto simp: scan_entry_def split: sum.splits)
  next
    case other
    then have none: "file_packs e = {}" by (intro no_file_packs) auto
    have skip: "entry_packs e = {} \<Longrightarrow> scan_ok (A \<union> entry_packs e) r" using assms by simp
    have run: "scan_entry r e = (case de_is_dir e of Inl x \<Rightarrow> note_error (fe_path e) x r
        | Inr d \<Rightarrow> if d then (case de_entries e of Inl x \<Rightarrow> note_error (fe_path e) x r
            | Inr files \<Rightarrow> (case scan_files files r of (Some x, r') \<Rightarrow> note_error (fe_path e) x r' | (None, r') \<Rightarrow> r')) else r)"
      using other by (auto simp: scan_entry_def)
    show ?thesis
    proof (cases "de_is_dir e = Inr True \<and> (\<exists>files. de_entries e = Inr files)")
      case True
      then obtain files where f: "de_is_dir e = Inr True" "de_entries e = Inr files" by blast
      have p: "entry_packs e = (\<Union>f\<in>set files. file_packs f)" using other f none by (simp add: entry_packs_def)
      show ?thesis using scan_files_ok [OF assms, of files] err
        unfolding run f p by (auto split: prod.splits option.splits)
    next
      case False
      then have "entry_packs e = {}" using none by (auto simp: entry_packs_def split: sum.splits)
      then show ?thesis using False err' skip unfolding run by (auto split: sum.splits)
    qed
  qed
qed

lemma scan_entries_ok:
  "scan_ok A r \<Longrightarrow> scan_ok (A \<union> (\<Union>e\<in>set es. entry_packs e)) (foldl scan_entry r es)"
proof (induction es arbitrary: A r)
  case (Cons e es)
  show ?case using Cons.IH [OF scan_entry_ok [OF Cons.prems, of e]] by (simp add: Un_assoc)
qed simp

lemma scan_mirror_ok:
  assumes "scan_mirror_packs m = Inr r" shows "scan_ok (mirror_packs m) r"
proof -
  let ?r = "\<lparr>sr_packs = [], sr_errors = []\<rparr>"
  have "scan_ok (\<Union>e\<in>set es. entry_packs e) (foldl scan_entry ?r es)" for es
    using scan_entries_ok [of "{}" ?r es] by (simp add: scan_ok_def [of "{}"] scan_sound_def)
  then show ?thesis using assms
    by (auto simp: scan_mirror_packs_def mirror_packs_def scan_ok_def [of "{}"] scan_sound_def
        split: if_splits sum.splits os_error.splits)
qed

section \<open>What the catalog knows of a scan\<close>

text \<open>A dict of values filled from rows whose key determines the value.\<close>

definition dict_of :: "('r \<Rightarrow> 'k) \<Rightarrow> ('r \<Rightarrow> 'x) \<Rightarrow> 'r set \<Rightarrow> ('k \<times> 'x) list \<Rightarrow> bool" where
  "dict_of k v A m \<longleftrightarrow> (\<forall>h x. map_of m h = Some x \<longleftrightarrow> (\<exists>r\<in>A. k r = h \<and> v r = x))"

lemma dict_of_puts:
  assumes "dict_of k v A m" "inj_on k U" "A \<union> set rs \<subseteq> U"
  shows "dict_of k v (A \<union> set rs) (foldl (\<lambda>m r. dict_put (k r) (v r) m) m rs)"
  using assms
proof (induction rs arbitrary: A m)
  case (Cons r rs)
  have "dict_of k v (insert r A) (dict_put (k r) (v r) m)"
    using Cons.prems unfolding dict_of_def by (auto simp: map_of_dict_put inj_on_def)
  then show ?case using Cons.IH [of "insert r A"] Cons.prems(2,3) by simp
qed simp

lemma dict_of_batches:
  assumes "dict_of k v A m" "inj_on k U" "A \<union> (\<Union>b\<in>set bs. set (rows b)) \<subseteq> U"
  shows "dict_of k v (A \<union> (\<Union>b\<in>set bs. set (rows b)))
     (foldl (\<lambda>m b. foldl (\<lambda>m r. dict_put (k r) (v r) m) m (rows b)) m bs)"
  using assms
proof (induction bs arbitrary: A m)
  case (Cons b bs)
  have "dict_of k v (A \<union> set (rows b)) (foldl (\<lambda>m r. dict_put (k r) (v r) m) m (rows b))"
    using Cons.prems by (intro dict_of_puts) auto
  then show ?case using Cons.IH [of "A \<union> set (rows b)"] Cons.prems(2,3) by (simp add: Un_assoc)
qed simp

lemma known_sizes_dict:
  assumes "schema_ok d"
  shows "dict_of p_sha256 p_size_bytes {p \<in> set (packs d). p_sha256 p \<in> set shas} (known_sizes shas d)"
proof -
  let ?rows = "\<lambda>batch. filter (\<lambda>p. p_sha256 p \<in> set batch) (packs d)"
  have "inj_on p_sha256 (set (packs d))" using schema_okD(2) [OF assms] by (simp add: packs_ok_def distinct_map)
  then have "dict_of p_sha256 p_size_bytes ({} \<union> (\<Union>b\<in>set (chunks SQLITE_BATCH shas). set (?rows b)))
      (known_sizes shas d)"
    unfolding known_sizes_def by (intro dict_of_batches) (auto simp: dict_of_def)
  moreover have "(\<Union>b\<in>set (chunks SQLITE_BATCH shas). set b) = set shas"
    by (rule set_chunks) (simp add: SQLITE_BATCH_def)
  then have "{} \<union> (\<Union>b\<in>set (chunks SQLITE_BATCH shas). set (?rows b)) = {p \<in> set (packs d). p_sha256 p \<in> set shas}"
    by auto
  ultimately show ?thesis by (simp only:)
qed

lemma known_sizes_None:
  assumes "schema_ok d" "h \<in> set shas"
  shows "map_of (known_sizes shas d) h = None \<longleftrightarrow> h \<notin> p_sha256 ` set (packs d)"
  using known_sizes_dict [OF assms(1), of shas] assms(2)
  by (cases "map_of (known_sizes shas d) h") (force simp: dict_of_def)+

section \<open>Properties\<close>


text \<open>A mirror with one pack file, one empty file and an unrelated file, in a directory of the two-level
  layout.\<close>

definition demo_name :: "char \<Rightarrow> string" where
  "demo_name x = replicate 64 x"

definition demo_file :: "string \<Rightarrow> int \<Rightarrow> file_entry" where
  "demo_file name n = \<lparr>fe_name = name, fe_path = ''/m/data/aa/'' @ name, fe_is_file = Inr True, fe_size = Inr n\<rparr>"

definition demo_mirror :: mirror where
  "demo_mirror = \<lparr>mi_data_dir = ''/m/data'', mi_is_dir = True, mi_entries = Inr
     [\<lparr>fe_name = ''aa'', fe_path = ''/m/data/aa'', fe_is_file = Inr False, fe_size = Inr 0, de_is_dir = Inr True,
       de_entries = Inr [demo_file (demo_name CHR ''a'') 5, demo_file (demo_name CHR ''b'') 0, demo_file ''tmp'' 3]\<rparr>]\<rparr>"


lemma map_eq_by_key:
  assumes "map k rows = map fst xs" "distinct (map fst xs)"
    "\<And>r. r \<in> set rows \<Longrightarrow> (k r, f r) \<in> set xs"
  shows "map (\<lambda>r. (k r, f r)) rows = xs"
proof (rule nth_equalityI)
  show "length (map (\<lambda>r. (k r, f r)) rows) = length xs" using assms(1) map_eq_imp_length_eq by fastforce
  then show "map (\<lambda>r. (k r, f r)) rows ! i = xs ! i" if "i < length (map (\<lambda>r. (k r, f r)) rows)" for i
    using that assms(3) [of "rows ! i"] arg_cong [OF assms(1), of "\<lambda>l. l ! i"] assms(2)
    by (auto intro: eq_key_imp_eq_value simp: prod_eq_iff)
qed

lemma set_mismatches:
  assumes "schema_ok d"
  shows "set [(h, k, n). (h, n) \<leftarrow> scan, k \<leftarrow> (case map_of (known_sizes (map fst scan) d) h of None \<Rightarrow> [] | Some k \<Rightarrow> [k]),
      k \<noteq> n] = {(p_sha256 p, p_size_bytes p, n) | p n. p \<in> set (packs d) \<and> (p_sha256 p, n) \<in> set scan \<and> p_size_bytes p \<noteq> n}"
    (is "set ?mm = ?M")
proof -
  let ?known = "known_sizes (map fst scan) d"
  have known: "map_of ?known h = Some k \<longleftrightarrow> (\<exists>p\<in>set (packs d). p_sha256 p = h \<and> p_size_bytes p = k)"
    if "(h, n) \<in> set scan" for h k n
    using known_sizes_dict [OF assms, of "map fst scan"] image_eqI [OF _ that, of h fst] unfolding dict_of_def by auto
  have "(h, k, n) \<in> set ?mm \<longleftrightarrow> (h, n) \<in> set scan \<and> map_of ?known h = Some k \<and> k \<noteq> n" for h k n
    by (auto split: option.splits)
  then have "(h, k, n) \<in> set ?mm \<longleftrightarrow> (h, k, n) \<in> ?M" for h k n
    using known [of h n k] by auto
  then show ?thesis by (simp only: set_eq_iff split_paired_All simp_thms)
qed

text \<open>The rows that bulk registration returns for packs the catalog does not know.\<close>

lemma bulk_register_new:
  assumes "clean c" "distinct (map fst xs)" "snd ` snd ` set xs \<subseteq> r_id ` set (repositories (db c))"
    "fst ` set xs \<inter> p_sha256 ` set (packs (db c)) = {}"
  shows "\<exists>rows new c'. bulk_register xs c = (Inr rows, c') \<and> durable c' = db c' \<and>
     map (\<lambda>p. (p_sha256 p, p_size_bytes p, p_repo_id p)) rows = xs \<and>
     packs (db c') = packs (db c) @ new \<and> set rows = set new"
proof -
  obtain rows new c' where b: "bulk_register xs c = (Inr rows, c')" "durable c' = db c'" "schema_ok (db c')"
    "map p_sha256 rows = map fst xs" "set rows \<subseteq> set (packs (db c'))" "packs (db c') = packs (db c) @ new"
    "\<forall>p. p \<notin> set new \<or> (p_sha256 p, p_size_bytes p, p_repo_id p) \<in> set xs"
    using bulk_register_runs [OF assms(1,3)] by blast
  have keys: "p_sha256 ` set rows = fst ` set xs" using arg_cong [OF b(4), of set] by simp
  then have sub: "set rows \<subseteq> set new" using b(5,6) assms(4) by auto
  have "p \<in> set rows" if "p \<in> set new" for p
  proof -
    have "p_sha256 p \<in> p_sha256 ` set rows" using b(7) that unfolding keys by force
    then obtain q where "q \<in> set rows" "p_sha256 q = p_sha256 p" by force
    then show ?thesis using schema_pack_unique [OF b(3), of q p] b(5,6) that by auto
  qed
  then have "set rows = set new" using sub by blast
  moreover have "map (\<lambda>p. (p_sha256 p, p_size_bytes p, p_repo_id p)) rows = xs"
    using b(7) sub by (intro map_eq_by_key b(4) assms(2)) auto
  ultimately show ?thesis using b(1,2,6) by blast
qed

text \<open>
  Registering a scan. For a registered repository, registration returns one new row per scanned pack
  the catalog did not know, in scan order, with the scanned size, and commits; the rows of known
  packs are kept. Afterwards every scanned pack is in the catalog. The reported mismatches are
  exactly the known packs whose recorded size differs from the size on the mirror. Without a
  repository a non-empty scan is refused, and nothing changes.
\<close>

theorem register_new_packs_spec:
  assumes "clean c" "distinct (map fst scan)" "R \<in> r_id ` set (repositories (db c))"
  shows "(\<exists>rows mm new c'. register_new_packs scan (Some R) c = (Inr (Inr (rows, mm)), c') \<and> durable c' = db c' \<and>
       map (\<lambda>p. (p_sha256 p, p_size_bytes p, p_repo_id p)) rows =
         map (\<lambda>(h, n). (h, n, R)) (filter (\<lambda>(h, n). h \<notin> p_sha256 ` set (packs (db c))) scan) \<and>
       packs (db c') = packs (db c) @ new \<and> set rows = set new \<and>
       fst ` set scan \<subseteq> p_sha256 ` set (packs (db c')) \<and>
       set mm = {(p_sha256 p, p_size_bytes p, n) | p n.
         p \<in> set (packs (db c)) \<and> (p_sha256 p, n) \<in> set scan \<and> p_size_bytes p \<noteq> n}) \<and>
     register_new_packs scan None c = (Inr (if scan = [] then Inr ([], []) else Inl Repo_id_required), c)"
proof
  let ?new = "map (\<lambda>(h, n). (h, n, R)) (filter (\<lambda>(h, n). h \<notin> p_sha256 ` set (packs (db c))) scan)"
  let ?known = "known_sizes (map fst scan) (db c)"
  let ?mm = "[(h, k, n). (h, n) \<leftarrow> scan, k \<leftarrow> (case map_of ?known h of None \<Rightarrow> [] | Some k \<Rightarrow> [k]), k \<noteq> n]"
  have ok: "schema_ok (db c)" "durable c = db c" using clean_conn [OF assms(1)] by simp_all
  have new: "filter (\<lambda>(h, n). map_of ?known h = None) scan =
      filter (\<lambda>(h, n). h \<notin> p_sha256 ` set (packs (db c))) scan"
    by (intro filter_cong) (auto simp: known_sizes_None [OF ok(1)] rev_image_eqI)
  have fst_new: "fst ` set ?new = {h \<in> fst ` set scan. h \<notin> p_sha256 ` set (packs (db c))}" by force
  obtain rows new c' where run: "register_new_packs scan (Some R) c = (Inr (Inr (rows, ?mm)), c')"
    "durable c' = db c'" "map (\<lambda>p. (p_sha256 p, p_size_bytes p, p_repo_id p)) rows = ?new"
    "packs (db c') = packs (db c) @ new" "set rows = set new"
  proof (cases "?new = []")
    case True
    then have "register_new_packs scan (Some R) c = (Inr (Inr ([], ?mm)), c)"
      by (auto simp: register_new_packs_def op_bind_def op_query_def op_ret_def Let_def new)
    then show ?thesis using True ok by (intro that [of "[]" c "[]"]) auto
  next
    case False
    have d1: "distinct (map fst ?new)" using distinct_map_filter [OF assms(2)] by (simp add: comp_def split_beta)
    have d2: "snd ` snd ` set ?new \<subseteq> r_id ` set (repositories (db c))" using assms(3) by auto
    have d3: "fst ` set ?new \<inter> p_sha256 ` set (packs (db c)) = {}" unfolding fst_new by blast
    obtain rows new c' where b: "bulk_register ?new c = (Inr rows, c')" "durable c' = db c'"
      "map (\<lambda>p. (p_sha256 p, p_size_bytes p, p_repo_id p)) rows = ?new"
      "packs (db c') = packs (db c) @ new" "set rows = set new"
      using bulk_register_new [OF assms(1) d1 d2 d3] by blast
    have "register_new_packs scan (Some R) c = (Inr (Inr (rows, ?mm)), c')"
      using False b(1) by (auto simp: register_new_packs_def op_bind_def op_query_def op_ret_def Let_def new)
    then show ?thesis using b by (intro that)
  qed
  have "p_sha256 ` set rows = fst ` set ?new" using arg_cong [OF run(3), of "\<lambda>l. fst ` set l"]
    by (simp add: image_image)
  then have all: "fst ` set scan \<subseteq> p_sha256 ` set (packs (db c'))" using run(4,5) fst_new by auto
  show "\<exists>rows mm new c'. register_new_packs scan (Some R) c = (Inr (Inr (rows, mm)), c') \<and> durable c' = db c' \<and>
       map (\<lambda>p. (p_sha256 p, p_size_bytes p, p_repo_id p)) rows = ?new \<and>
       packs (db c') = packs (db c) @ new \<and> set rows = set new \<and>
       fst ` set scan \<subseteq> p_sha256 ` set (packs (db c')) \<and>
       set mm = {(p_sha256 p, p_size_bytes p, n) | p n.
         p \<in> set (packs (db c)) \<and> (p_sha256 p, n) \<in> set scan \<and> p_size_bytes p \<noteq> n}"
    by (rule exI [of _ rows], rule exI [of _ ?mm], rule exI [of _ new], rule exI [of _ c'], intro conjI)
      (fact run all set_mismatches [OF ok(1)])+
  show "register_new_packs scan None c = (Inr (if scan = [] then Inr ([], []) else Inl Repo_id_required), c)"
    by (simp add: register_new_packs_def op_ret_def)
qed

theorem register_new_packs_spec_witness:
  "\<exists>rows c'. register_new_packs [(''aa'', 8), (''bb'', 9)] (Some ''R'') (open_connection demo_catalog) =
       (Inr (Inr (rows, [(''aa'', 7, 8)])), c') \<and>
     map (\<lambda>p. (p_sha256 p, p_size_bytes p, p_repo_id p)) rows = [(''bb'', 9, ''R'')]"
proof -
  let ?c = "open_connection demo_catalog" and ?scan = "[(''aa'', 8), (''bb'', 9)] :: (string \<times> int) list"
  have r: "''R'' \<in> r_id ` set (repositories (db ?c))" by (simp add: open_connection_def demo_catalog_def)
  have "(case fst (register_new_packs ?scan (Some ''R'') ?c) of Inr (Inr (_, mm)) \<Rightarrow> mm = [(''aa'', 7, 8)] | _ \<Rightarrow> False)" by code_simp
  moreover have "map (\<lambda>(h, n). (h, n, ''R'')) (filter (\<lambda>(h, n). h \<notin> p_sha256 ` set (packs (db ?c))) ?scan) = [(''bb'', 9, ''R'')]"
    by code_simp
  ultimately show ?thesis using register_new_packs_spec [OF demo_ok(2) _ r, of ?scan] by auto
qed

section \<open>Places of pack files\<close>

text \<open>A pack stored at its destination is found there, and what is found is a file.\<close>

lemma find_pack_dest:
  "is_file (pack_dest_path d h) \<Longrightarrow> find_pack_file is_file d h = Some (pack_dest_path d h)"
  "find_pack_file is_file d h = Some p \<Longrightarrow> is_file p"
  by (auto simp: pack_dest_path_def find_pack_file_def split: if_splits)

text \<open>The name pattern admits a newline after the 64 digits.\<close>

lemma pack_name_with_newline: "PACK_NAME_RE (demo_name CHR ''a'' @ [CHR 0x0A])"
  by code_simp

end
