(* ===== verification/Aes.thy ===== *)
theory Aes
  imports Gf256
begin

text \<open>
  AES as \<open>restore/_aes_pure.py\<close> implements it for the last-resort restore: key schedule for 16 and 32
  byte keys, encryption of one block, and counter mode. Bytes are 8-bit words, the words of the key
  schedule 32-bit words; the masks the code applies to Python integers are the widths of these
  types. A list index that Python would refuse is the error \<open>Index_error\<close>.
\<close>

unbundle bit_operations_syntax

section \<open>Tables and field helpers\<close>

definition SBOX :: "byte list" where
  "SBOX =
    [0x63, 0x7C, 0x77, 0x7B, 0xF2, 0x6B, 0x6F, 0xC5, 0x30, 0x01, 0x67, 0x2B, 0xFE, 0xD7, 0xAB, 0x76,
     0xCA, 0x82, 0xC9, 0x7D, 0xFA, 0x59, 0x47, 0xF0, 0xAD, 0xD4, 0xA2, 0xAF, 0x9C, 0xA4, 0x72, 0xC0,
     0xB7, 0xFD, 0x93, 0x26, 0x36, 0x3F, 0xF7, 0xCC, 0x34, 0xA5, 0xE5, 0xF1, 0x71, 0xD8, 0x31, 0x15,
     0x04, 0xC7, 0x23, 0xC3, 0x18, 0x96, 0x05, 0x9A, 0x07, 0x12, 0x80, 0xE2, 0xEB, 0x27, 0xB2, 0x75,
     0x09, 0x83, 0x2C, 0x1A, 0x1B, 0x6E, 0x5A, 0xA0, 0x52, 0x3B, 0xD6, 0xB3, 0x29, 0xE3, 0x2F, 0x84,
     0x53, 0xD1, 0x00, 0xED, 0x20, 0xFC, 0xB1, 0x5B, 0x6A, 0xCB, 0xBE, 0x39, 0x4A, 0x4C, 0x58, 0xCF,
     0xD0, 0xEF, 0xAA, 0xFB, 0x43, 0x4D, 0x33, 0x85, 0x45, 0xF9, 0x02, 0x7F, 0x50, 0x3C, 0x9F, 0xA8,
     0x51, 0xA3, 0x40, 0x8F, 0x92, 0x9D, 0x38, 0xF5, 0xBC, 0xB6, 0xDA, 0x21, 0x10, 0xFF, 0xF3, 0xD2,
     0xCD, 0x0C, 0x13, 0xEC, 0x5F, 0x97, 0x44, 0x17, 0xC4, 0xA7, 0x7E, 0x3D, 0x64, 0x5D, 0x19, 0x73,
     0x60, 0x81, 0x4F, 0xDC, 0x22, 0x2A, 0x90, 0x88, 0x46, 0xEE, 0xB8, 0x14, 0xDE, 0x5E, 0x0B, 0xDB,
     0xE0, 0x32, 0x3A, 0x0A, 0x49, 0x06, 0x24, 0x5C, 0xC2, 0xD3, 0xAC, 0x62, 0x91, 0x95, 0xE4, 0x79,
     0xE7, 0xC8, 0x37, 0x6D, 0x8D, 0xD5, 0x4E, 0xA9, 0x6C, 0x56, 0xF4, 0xEA, 0x65, 0x7A, 0xAE, 0x08,
     0xBA, 0x78, 0x25, 0x2E, 0x1C, 0xA6, 0xB4, 0xC6, 0xE8, 0xDD, 0x74, 0x1F, 0x4B, 0xBD, 0x8B, 0x8A,
     0x70, 0x3E, 0xB5, 0x66, 0x48, 0x03, 0xF6, 0x0E, 0x61, 0x35, 0x57, 0xB9, 0x86, 0xC1, 0x1D, 0x9E,
     0xE1, 0xF8, 0x98, 0x11, 0x69, 0xD9, 0x8E, 0x94, 0x9B, 0x1E, 0x87, 0xE9, 0xCE, 0x55, 0x28, 0xDF,
     0x8C, 0xA1, 0x89, 0x0D, 0xBF, 0xE6, 0x42, 0x68, 0x41, 0x99, 0x2D, 0x0F, 0xB0, 0x54, 0xBB, 0x16]"

definition RCON :: "byte list" where
  "RCON = [0x01, 0x02, 0x04, 0x08, 0x10, 0x20, 0x40, 0x80, 0x1B, 0x36]"

definition xtime :: "byte \<Rightarrow> byte" where
  "xtime a = (if a AND 0x80 \<noteq> 0 then push_bit 1 a XOR 0x1B else push_bit 1 a)"

definition gf_mul_step :: "byte \<times> byte \<times> byte \<Rightarrow> byte \<times> byte \<times> byte" where
  "gf_mul_step st = (case st of (result, temp, b) \<Rightarrow>
     (if b AND 1 \<noteq> 0 then result XOR temp else result, xtime temp, drop_bit 1 b))"

definition gf_mul :: "byte \<Rightarrow> byte \<Rightarrow> byte" where
  "gf_mul a b = fst ((gf_mul_step ^^ 8) (0, a, b))"

definition MUL2 :: "byte list" where
  "MUL2 = map (\<lambda>i. gf_mul 2 (of_nat i)) [0..<256]"

definition MUL3 :: "byte list" where
  "MUL3 = map (\<lambda>i. gf_mul 3 (of_nat i)) [0..<256]"

section \<open>Key schedule\<close>

type_synonym word32 = "32 word"

definition sub_byte :: "byte \<Rightarrow> byte" where
  "sub_byte b = SBOX ! unat b"

definition byte_of :: "nat \<Rightarrow> word32 \<Rightarrow> byte" where
  "byte_of n w = ucast (drop_bit n w)"

definition sub_word :: "word32 \<Rightarrow> word32" where
  "sub_word w = push_bit 24 (ucast (sub_byte (byte_of 24 w))) OR push_bit 16 (ucast (sub_byte (byte_of 16 w)))
     OR push_bit 8 (ucast (sub_byte (byte_of 8 w))) OR ucast (sub_byte (byte_of 0 w))"

definition rot_word :: "word32 \<Rightarrow> word32" where
  "rot_word w = push_bit 8 w OR drop_bit 24 w"

text \<open>\<open>struct\<close> with the format \<open>>I\<close>.\<close>

definition pack_word :: "word32 \<Rightarrow> bytes" where
  "pack_word w = [byte_of 24 w, byte_of 16 w, byte_of 8 w, byte_of 0 w]"

fun unpack_words :: "bytes \<Rightarrow> word32 list" where
  "unpack_words (a # b # c # d # bs) =
     (push_bit 24 (ucast a) OR push_bit 16 (ucast b) OR push_bit 8 (ucast c) OR ucast d) # unpack_words bs"
| "unpack_words _ = []"

datatype aes_error = Bad_key_length nat | Index_error

definition expand_step :: "nat \<Rightarrow> word32 list \<Rightarrow> nat \<Rightarrow> word32 list" where
  "expand_step nk w i =
     (let temp = w ! (i - 1);
          temp = (if i mod nk = 0
                  then sub_word (rot_word temp) XOR push_bit 24 (ucast (RCON ! (i div nk - 1)))
                  else if nk > 6 \<and> i mod nk = 4 then sub_word temp
                  else temp)
      in w @ [w ! (i - nk) XOR temp])"

definition expand_key :: "nat \<Rightarrow> nat \<Rightarrow> bytes \<Rightarrow> bytes list" where
  "expand_key nk nr key =
     (let w = foldl (expand_step nk) (unpack_words key) [nk..<4 * (nr + 1)]
      in map (\<lambda>r. concat (map (\<lambda>j. pack_word (w ! (4 * r + j))) [0..<4])) [0..<nr + 1])"

definition key_schedule :: "bytes \<Rightarrow> (aes_error, bytes list) result" where
  "key_schedule key =
     (if length key = 16 then Inr (expand_key 4 10 key)
      else if length key = 32 then Inr (expand_key 8 14 key)
      else Inl (Bad_key_length (length key)))"

section \<open>One block\<close>

text \<open>The steps work on the first 16 places of the state and leave any further ones alone.\<close>

definition sub_bytes :: "bytes \<Rightarrow> bytes" where
  "sub_bytes state = map sub_byte (take 16 state) @ drop 16 state"

definition shift_rows :: "bytes \<Rightarrow> bytes" where
  "shift_rows state =
     map (\<lambda>i. state ! i) [0, 5, 10, 15, 4, 9, 14, 3, 8, 13, 2, 7, 12, 1, 6, 11] @ drop 16 state"

definition mix_column :: "byte \<Rightarrow> byte \<Rightarrow> byte \<Rightarrow> byte \<Rightarrow> bytes" where
  "mix_column s0 s1 s2 s3 =
     [MUL2 ! unat s0 XOR MUL3 ! unat s1 XOR s2 XOR s3,
      s0 XOR MUL2 ! unat s1 XOR MUL3 ! unat s2 XOR s3,
      s0 XOR s1 XOR MUL2 ! unat s2 XOR MUL3 ! unat s3,
      MUL3 ! unat s0 XOR s1 XOR s2 XOR MUL2 ! unat s3]"

definition mix_columns :: "bytes \<Rightarrow> bytes" where
  "mix_columns state =
     concat (map (\<lambda>c. mix_column (state ! (4 * c)) (state ! (4 * c + 1)) (state ! (4 * c + 2))
       (state ! (4 * c + 3))) [0..<4]) @ drop 16 state"

definition add_round_key :: "bytes \<Rightarrow> bytes \<Rightarrow> bytes" where
  "add_round_key rk state = map2 (XOR) (take 16 state) (take 16 rk) @ drop 16 state"

definition aes_round :: "bytes list \<Rightarrow> bytes \<Rightarrow> nat \<Rightarrow> bytes" where
  "aes_round round_keys state rnd =
     add_round_key (round_keys ! rnd) (mix_columns (shift_rows (sub_bytes state)))"

definition aes_encrypt_block :: "bytes \<Rightarrow> bytes list \<Rightarrow> (aes_error, bytes) result" where
  "aes_encrypt_block block round_keys =
     (if round_keys = [] \<or> length block < 16 \<or> list_ex (\<lambda>rk. length rk < 16) round_keys then Inl Index_error
      else
        let nr = length round_keys - 1;
            state = foldl (aes_round round_keys) (add_round_key (round_keys ! 0) block) [1..<nr]
        in Inr (add_round_key (round_keys ! nr) (shift_rows (sub_bytes state))))"

section \<open>Counter mode\<close>

fun inc_from :: "nat \<Rightarrow> bytes \<Rightarrow> bytes" where
  "inc_from 0 ctr = ctr"
| "inc_from (Suc i) ctr =
     (let ctr' = ctr[i := ctr ! i + 1] in if ctr' ! i \<noteq> 0 then ctr' else inc_from i ctr')"

definition inc_counter :: "bytes \<Rightarrow> bytes" where
  "inc_counter ctr = inc_from 16 ctr"

function aes_ctr_loop :: "bytes list \<Rightarrow> bytes \<Rightarrow> bytes \<Rightarrow> bytes \<Rightarrow> (aes_error, bytes) result" where
  "aes_ctr_loop rk counter data out =
     (if data = [] then Inr out
      else rbind (aes_encrypt_block counter rk) (\<lambda>keystream.
        aes_ctr_loop rk (inc_counter counter) (drop 16 data) (out @ map2 (XOR) (take 16 data) keystream)))"
  by pat_completeness auto
termination
  by (relation "measure (\<lambda>(rk, counter, data, out). length data)") auto

declare aes_ctr_loop.simps [simp del]

definition aes_ctr :: "bytes \<Rightarrow> bytes \<Rightarrow> bytes \<Rightarrow> (aes_error, bytes) result" where
  "aes_ctr key iv data = rbind (key_schedule key) (\<lambda>rk. aes_ctr_loop rk iv data [])"

section \<open>Multiplication by the tables\<close>

text \<open>The helpers compute in the field of \<^theory_text>\<open>Gf256\<close>: one doubling is multiplication by 2, the
  shift-and-add loop is multiplication, and the tables hold the products by 2 and 3.\<close>

lemma bit_7: "(a :: byte) AND 0x80 \<noteq> 0 \<longleftrightarrow> bit a 7"
proof -
  have "(0x80 :: byte) = push_bit 7 1" by simp
  then show ?thesis by (simp only: and_exp_eq_0_iff_not_bit push_bit_of_1) simp
qed

lemma xtime_gstep: "xtime a = gstep a XOR a"
  by (simp add: xtime_def gstep_def bit_7 xor_ac)

lemma gstep_mul: "gstep b = byte_mul 3 b"
proof -
  have "bexp 1 = 3" by (simp add: bexp_eq gstep_def)
  then have "blog 3 = 1" using blog_bexp [of 1] by simp
  then show ?thesis by (simp add: byte_mul_funpow)
qed

lemma byte_mul_xor_left: "byte_mul (a XOR b) c = byte_mul a c XOR byte_mul b c"
  by (metis byte_mul_commute byte_mul_xor)

lemma xtime_mul: "xtime b = byte_mul 2 b"
proof -
  have "byte_mul (3 XOR 1) b = gstep b XOR b" by (simp only: byte_mul_xor_left gstep_mul byte_mul_1)
  then show ?thesis by (simp add: xtime_gstep)
qed

lemma gf_mul_step_invariant:
  assumes "gf_mul_step (r, t, b) = (r', t', b')"
  shows "r' XOR byte_mul t' b' = r XOR byte_mul t b"
proof -
  have b': "b' = drop_bit 1 b" and t': "t' = xtime t" and r': "r' = (if odd b then r XOR t else r)"
    using assms by (auto simp: gf_mul_step_def and_one_eq odd_iff_mod_2_eq_one split: if_splits)
  have "\<not> bit b' 7" by (auto simp: b' bit_drop_bit_eq dest: bit_imp_le_length)
  then have "push_bit 1 b' = byte_mul 2 b'" by (simp flip: xtime_mul add: xtime_def bit_7)
  moreover have "b = (if odd b then 1 else 0) XOR push_bit 1 b'"
  proof (rule bit_word_eqI)
    fix n
    assume "n < LENGTH(8)"
    then show "bit b n = bit ((if odd b then 1 else 0) XOR push_bit 1 b') n"
      unfolding b' bit_xor_iff bit_push_bit_iff bit_drop_bit_eq by (cases n) (auto simp: bit_1_iff bit_0)
  qed
  ultimately have b: "b = (if odd b then 1 else 0) XOR byte_mul 2 b'" by (simp only:)
  have "byte_mul t b = (if odd b then t else 0) XOR byte_mul t (byte_mul 2 b')"
    using arg_cong [OF b, of "byte_mul t"] by (simp add: byte_mul_xor byte_mul_commute [of t 1] byte_mul_1 split: if_splits)
  also have "byte_mul t (byte_mul 2 b') = byte_mul t' b'"
    by (metis byte_mul_assoc byte_mul_commute t' xtime_mul)
  finally show ?thesis by (simp add: r' xor_ac)
qed

lemma gf_mul_steps:
  "(gf_mul_step ^^ n) (r, t, b) = (r', t', b') \<Longrightarrow> r' XOR byte_mul t' b' = r XOR byte_mul t b \<and> b' = drop_bit n b"
proof (induction n arbitrary: r' t' b')
  case (Suc n)
  obtain r1 t1 b1 where 1: "(gf_mul_step ^^ n) (r, t, b) = (r1, t1, b1)" by (cases "(gf_mul_step ^^ n) (r, t, b)")
  then have "gf_mul_step (r1, t1, b1) = (r', t', b')" using Suc.prems by simp
  then show ?case using Suc.IH [OF 1] gf_mul_step_invariant [of r1 t1 b1 r' t' b']
    by (auto simp: gf_mul_step_def)
qed simp

lemma gf_mul_eq: "gf_mul a b = byte_mul a b"
proof -
  obtain r t c where s: "(gf_mul_step ^^ 8) (0, a, b) = (r, t, c)" by (cases "(gf_mul_step ^^ 8) (0, a, b)")
  have "c = 0" using gf_mul_steps [OF s] by (auto intro!: bit_word_eqI simp: bit_simps)
  then show ?thesis using gf_mul_steps [OF s] s by (auto simp: gf_mul_def)
qed

lemma xtime_xor: "xtime (a XOR b) = xtime a XOR xtime b"
  by (simp add: xtime_mul byte_mul_xor)

lemma MUL2_nth: "MUL2 ! unat b = xtime b"
  by (simp add: MUL2_def gf_mul_eq xtime_mul)

lemma MUL3_nth: "MUL3 ! unat b = xtime b XOR b"
  by (simp add: MUL3_def gf_mul_eq xtime_gstep xor.assoc flip: gstep_mul)

lemma mix_column_code [code]:
  "mix_column s0 s1 s2 s3 =
     [xtime s0 XOR (xtime s1 XOR s1) XOR s2 XOR s3, s0 XOR xtime s1 XOR (xtime s2 XOR s2) XOR s3,
      s0 XOR s1 XOR xtime s2 XOR (xtime s3 XOR s3), (xtime s0 XOR s0) XOR s1 XOR s2 XOR xtime s3]"
  by (simp add: mix_column_def MUL2_nth MUL3_nth)

section \<open>The substitution box\<close>

text \<open>FIPS 197 defines the table: the inverse in the field, then an affine map over the bits.\<close>

definition rotate_byte :: "nat \<Rightarrow> byte \<Rightarrow> byte" where
  "rotate_byte n b = push_bit n b OR drop_bit (8 - n) b"

definition sbox_affine :: "byte \<Rightarrow> byte" where
  "sbox_affine x = x XOR rotate_byte 1 x XOR rotate_byte 2 x XOR rotate_byte 3 x XOR rotate_byte 4 x XOR 0x63"

text \<open>The powers of the generator, so that the check of the table needs no multiplication.\<close>

definition POWERS :: "byte list" where
  "POWERS =
    [0x01, 0x03, 0x05, 0x0F, 0x11, 0x33, 0x55, 0xFF, 0x1A, 0x2E, 0x72, 0x96, 0xA1, 0xF8, 0x13, 0x35,
     0x5F, 0xE1, 0x38, 0x48, 0xD8, 0x73, 0x95, 0xA4, 0xF7, 0x02, 0x06, 0x0A, 0x1E, 0x22, 0x66, 0xAA,
     0xE5, 0x34, 0x5C, 0xE4, 0x37, 0x59, 0xEB, 0x26, 0x6A, 0xBE, 0xD9, 0x70, 0x90, 0xAB, 0xE6, 0x31,
     0x53, 0xF5, 0x04, 0x0C, 0x14, 0x3C, 0x44, 0xCC, 0x4F, 0xD1, 0x68, 0xB8, 0xD3, 0x6E, 0xB2, 0xCD,
     0x4C, 0xD4, 0x67, 0xA9, 0xE0, 0x3B, 0x4D, 0xD7, 0x62, 0xA6, 0xF1, 0x08, 0x18, 0x28, 0x78, 0x88,
     0x83, 0x9E, 0xB9, 0xD0, 0x6B, 0xBD, 0xDC, 0x7F, 0x81, 0x98, 0xB3, 0xCE, 0x49, 0xDB, 0x76, 0x9A,
     0xB5, 0xC4, 0x57, 0xF9, 0x10, 0x30, 0x50, 0xF0, 0x0B, 0x1D, 0x27, 0x69, 0xBB, 0xD6, 0x61, 0xA3,
     0xFE, 0x19, 0x2B, 0x7D, 0x87, 0x92, 0xAD, 0xEC, 0x2F, 0x71, 0x93, 0xAE, 0xE9, 0x20, 0x60, 0xA0,
     0xFB, 0x16, 0x3A, 0x4E, 0xD2, 0x6D, 0xB7, 0xC2, 0x5D, 0xE7, 0x32, 0x56, 0xFA, 0x15, 0x3F, 0x41,
     0xC3, 0x5E, 0xE2, 0x3D, 0x47, 0xC9, 0x40, 0xC0, 0x5B, 0xED, 0x2C, 0x74, 0x9C, 0xBF, 0xDA, 0x75,
     0x9F, 0xBA, 0xD5, 0x64, 0xAC, 0xEF, 0x2A, 0x7E, 0x82, 0x9D, 0xBC, 0xDF, 0x7A, 0x8E, 0x89, 0x80,
     0x9B, 0xB6, 0xC1, 0x58, 0xE8, 0x23, 0x65, 0xAF, 0xEA, 0x25, 0x6F, 0xB1, 0xC8, 0x43, 0xC5, 0x54,
     0xFC, 0x1F, 0x21, 0x63, 0xA5, 0xF4, 0x07, 0x09, 0x1B, 0x2D, 0x77, 0x99, 0xB0, 0xCB, 0x46, 0xCA,
     0x45, 0xCF, 0x4A, 0xDE, 0x79, 0x8B, 0x86, 0x91, 0xA8, 0xE3, 0x3E, 0x42, 0xC6, 0x51, 0xF3, 0x0E,
     0x12, 0x36, 0x5A, 0xEE, 0x29, 0x7B, 0x8D, 0x8C, 0x8F, 0x8A, 0x85, 0x94, 0xA7, 0xF2, 0x0D, 0x17,
     0x39, 0x4B, 0xDD, 0x7C, 0x84, 0x97, 0xA2, 0xFD, 0x1C, 0x24, 0x6C, 0xB4, 0xC7, 0x52, 0xF6]"

lemma POWERS_table: "tl POWERS = map gstep (butlast POWERS)"
  by (simp add: POWERS_def gstep_def)

lemma length_POWERS: "length POWERS = 255"
  by (simp add: POWERS_def)

lemma POWERS_nth: "i < 255 \<Longrightarrow> POWERS ! i = bexp i"
proof (induction i)
  case 0
  then show ?case by (simp add: POWERS_def bexp_eq)
next
  case (Suc i)
  then have "POWERS ! Suc i = gstep (POWERS ! i)"
    using arg_cong [OF POWERS_table, of "\<lambda>l. l ! i"] by (simp add: length_POWERS nth_tl nth_butlast)
  then show ?case using Suc by (simp add: bexp_eq)
qed

lemma SBOX_table: "map (\<lambda>b. SBOX ! unat b) POWERS = map sbox_affine (1 # rev (tl POWERS))"
  by (simp add: POWERS_def SBOX_def sbox_affine_def rotate_byte_def)

lemma sub_byte_affine: "sub_byte b = sbox_affine (byte_inv b)"
proof (cases "b = 0")
  case True
  then show ?thesis by (simp add: sub_byte_def SBOX_def byte_inv_def sbox_affine_def rotate_byte_def)
next
  case False
  let ?i = "blog b"
  have i: "?i < 255" using False by (rule blog_less)
  have "map sbox_affine (1 # rev (tl POWERS)) ! ?i = sbox_affine ((1 # rev (tl POWERS)) ! ?i)"
    by (rule nth_map) (use i in \<open>simp add: length_POWERS\<close>)
  then have "SBOX ! unat (POWERS ! ?i) = sbox_affine ((1 # rev (tl POWERS)) ! ?i)"
    using arg_cong [OF SBOX_table, of "\<lambda>l. l ! ?i"] i by (simp only: nth_map length_POWERS)
  moreover have "(1 # rev (tl POWERS)) ! ?i = POWERS ! ((255 - ?i) mod 255)"
  proof (cases ?i)
    case 0
    then show ?thesis by (simp add: POWERS_nth bexp_eq)
  next
    case (Suc j)
    then have "Suc (253 - j) = 254 - j" using i by arith
    then show ?thesis using i Suc by (simp add: rev_nth length_POWERS nth_tl)
  qed
  ultimately show ?thesis
    using False i by (simp add: POWERS_nth bexp_blog sub_byte_def byte_inv_def)
qed

text \<open>The affine map is injective, so the table is a permutation.\<close>

lemma bit_rotate_byte: "n \<le> 8 \<Longrightarrow> bit (rotate_byte n b) i \<longleftrightarrow> i < 8 \<and> bit b ((i + 8 - n) mod 8)"
proof -
  assume n: "n \<le> 8"
  have "i < 8 \<Longrightarrow> n \<le> i \<Longrightarrow> (i + 8 - n) mod 8 = i - n" by (simp add: mod_if)
  moreover have "i < 8 \<Longrightarrow> i < n \<Longrightarrow> (i + 8 - n) mod 8 = 8 - n + i" using n by (subst mod_less) auto
  ultimately show ?thesis using n
    by (cases "n \<le> i"; cases "i < 8")
      (auto simp: rotate_byte_def bit_or_iff bit_push_bit_iff bit_drop_bit_eq dest: bit_imp_le_length)
qed

lemma rotate_byte_xor: "rotate_byte n (a XOR b) = rotate_byte n a XOR rotate_byte n b" if "n \<le> 8"
  by (rule bit_word_eqI) (auto simp: bit_rotate_byte [OF that] bit_xor_iff)

lemma rotate_byte_add: "m \<le> 8 \<Longrightarrow> n \<le> 8 \<Longrightarrow> rotate_byte m (rotate_byte n b) = rotate_byte ((m + n) mod 8) b"
proof (rule bit_word_eqI)
  fix i
  assume h: "m \<le> 8" "n \<le> 8" and i: "i < LENGTH(8)"
  have "(x mod 8 + (8 - y)) mod 8 = (x - y) mod 8" for x y :: int
    using mod_add_left_eq [of x 8 "8 - y"] mod_add_self2 [of "x - y" 8] by (simp add: add_diff_eq diff_add_eq)
  from this [of "int (i + 8 - m)" "int n"]
  have "int (((i + 8 - m) mod 8 + 8 - n) mod 8) = int ((i + 8 - (m + n) mod 8) mod 8)"
    using h mod_less_divisor [of 8 "m + n"]
    by (simp add: zmod_int of_nat_diff trans_le_add2 less_imp_le mod_simps algebra_simps)
  then have "((i + 8 - m) mod 8 + 8 - n) mod 8 = (i + 8 - (m + n) mod 8) mod 8" by simp
  then show "bit (rotate_byte m (rotate_byte n b)) i = bit (rotate_byte ((m + n) mod 8) b) i"
    using h i mod_less_divisor [of 8 "m + n"] by (simp add: bit_rotate_byte less_imp_le)
qed

lemma rotate_byte_0: "rotate_byte 0 b = b"
  by (rule bit_word_eqI) (simp add: bit_rotate_byte)

lemma sbox_affine_inj:
  assumes "sbox_affine x = sbox_affine y" shows "x = y"
proof -
  let ?A = "\<lambda>x. x XOR rotate_byte 1 x XOR rotate_byte 2 x XOR rotate_byte 3 x XOR rotate_byte 4 x"
  let ?B = "\<lambda>y. rotate_byte 1 y XOR rotate_byte 3 y XOR rotate_byte 6 y"
  have B: "?B (?A x) = x" for x by (simp add: rotate_byte_xor rotate_byte_add rotate_byte_0 xor_ac flip: numeral_2_eq_2)
  have A: "sbox_affine x XOR 0x63 = ?A x" for x by (simp add: sbox_affine_def xor.assoc)
  have "?B (sbox_affine x XOR 0x63) = ?B (sbox_affine y XOR 0x63)" by (simp only: assms)
  then show ?thesis by (simp only: A B)
qed

lemma byte_inv_inj:
  assumes "byte_inv a = byte_inv b" shows "a = b"
proof (cases "a = 0 \<or> b = 0")
  case True
  then show ?thesis using assms byte_inv_nonzero [of a] byte_inv_nonzero [of b] by (auto simp: byte_inv_def split: if_splits)
next
  case False
  then have "byte_mul (byte_inv a) a = 1" "byte_mul (byte_inv a) b = 1"
    using byte_mul_inv [of a] byte_mul_inv [of b] assms by simp_all
  then have "byte_mul a (byte_mul (byte_inv a) b) = a" "byte_mul (byte_mul a (byte_inv a)) b = b"
    using byte_mul_commute [of a] by (simp_all add: byte_mul_1)
  then show ?thesis by (simp add: byte_mul_assoc)
qed

lemma sub_byte_inj: "sub_byte a = sub_byte b \<longleftrightarrow> a = b"
  unfolding sub_byte_affine using sbox_affine_inj byte_inv_inj by blast

section \<open>Encryption of a block is a permutation\<close>

abbreviation blocks :: "bytes set" where
  "blocks \<equiv> {b. length b = 16}"

lemma block_cases:
  assumes "length b = 16"
  obtains b0 b1 b2 b3 b4 b5 b6 b7 b8 b9 b10 b11 b12 b13 b14 b15
  where "b = [b0, b1, b2, b3, b4, b5, b6, b7, b8, b9, b10, b11, b12, b13, b14, b15]"
  using assms by (auto simp: length_Suc_conv eval_nat_numeral)

lemma sub_bytes_inj: "inj_on sub_bytes blocks"
proof -
  have "inj sub_byte" by (simp add: inj_def sub_byte_inj)
  then show ?thesis by (auto simp: inj_on_def sub_bytes_def inj_map_eq_map)
qed

lemma shift_rows_inj: "inj_on shift_rows blocks"
  by (rule inj_onI) (auto simp: shift_rows_def elim!: block_cases)

text \<open>The mix of a column has order four: its square is \<open>5, 0, 4, 0\<close> in the ring of the columns.\<close>

definition mix4 :: "byte \<times> byte \<times> byte \<times> byte \<Rightarrow> byte \<times> byte \<times> byte \<times> byte" where
  "mix4 c = (case c of (s0, s1, s2, s3) \<Rightarrow> case mix_column s0 s1 s2 s3 of [t0, t1, t2, t3] \<Rightarrow> (t0, t1, t2, t3))"

lemma mix4_eq: "mix4 (s0, s1, s2, s3) =
   (xtime s0 XOR (xtime s1 XOR s1) XOR s2 XOR s3, s0 XOR xtime s1 XOR (xtime s2 XOR s2) XOR s3,
    s0 XOR s1 XOR xtime s2 XOR (xtime s3 XOR s3), (xtime s0 XOR s0) XOR s1 XOR s2 XOR xtime s3)"
  by (simp add: mix4_def mix_column_code)

lemma mix4_square: "mix4 (mix4 (s0, s1, s2, s3)) =
   (xtime (xtime s0) XOR s0 XOR xtime (xtime s2), xtime (xtime s1) XOR s1 XOR xtime (xtime s3),
    xtime (xtime s2) XOR s2 XOR xtime (xtime s0), xtime (xtime s3) XOR s3 XOR xtime (xtime s1))"
  by (simp add: mix4_eq xtime_xor xor_ac)

lemma mix4_order: "mix4 (mix4 (mix4 (mix4 c))) = c"
proof -
  obtain s0 s1 s2 s3 where c: "c = (s0, s1, s2, s3)" by (cases c)
  show ?thesis unfolding c mix4_square by (simp add: xtime_xor xor_ac)
qed

lemma mix_column_inj:
  assumes "mix_column a0 a1 a2 a3 = mix_column b0 b1 b2 b3"
  shows "a0 = b0 \<and> a1 = b1 \<and> a2 = b2 \<and> a3 = b3"
proof -
  have "mix4 (a0, a1, a2, a3) = mix4 (b0, b1, b2, b3)" using assms by (simp add: mix4_def)
  then have "(a0, a1, a2, a3) = (b0, b1, b2, b3)" by (metis mix4_order)
  then show ?thesis by simp
qed

lemma mix_columns_block:
  "mix_columns [b0, b1, b2, b3, b4, b5, b6, b7, b8, b9, b10, b11, b12, b13, b14, b15] =
     mix_column b0 b1 b2 b3 @ mix_column b4 b5 b6 b7 @ mix_column b8 b9 b10 b11 @ mix_column b12 b13 b14 b15"
  by (simp add: mix_columns_def upt_conv_Cons)

lemma length_mix_column [simp]: "length (mix_column a b c d) = 4"
  by (simp add: mix_column_def)

lemma mix_columns_inj: "inj_on mix_columns blocks"
proof (rule inj_onI)
  fix a b
  assume "a \<in> blocks" "b \<in> blocks" "mix_columns a = mix_columns b"
  then show "a = b" by (auto elim!: block_cases simp: mix_columns_block dest!: mix_column_inj)
qed

lemma round_key_inj: "length rk \<ge> 16 \<Longrightarrow> inj_on (add_round_key rk) blocks"
proof (rule inj_onI)
  fix a b
  assume rk: "length rk \<ge> 16" and h: "a \<in> blocks" "b \<in> blocks" "add_round_key rk a = add_round_key rk b"
  then have "map2 (XOR) a (take 16 rk) = map2 (XOR) b (take 16 rk)" by (simp add: add_round_key_def)
  then have "map2 (XOR) (map2 (XOR) a (take 16 rk)) (take 16 rk) = map2 (XOR) (map2 (XOR) b (take 16 rk)) (take 16 rk)"
    by (simp only:)
  moreover have "map2 (XOR) (map2 (XOR) x k) k = x" if "length x = length k" for x k :: bytes
    using that by (induction x k rule: list_induct2) (simp_all add: xor.assoc)
  ultimately show "a = b" using rk h by simp
qed

lemma length_steps:
  "length b = 16 \<Longrightarrow> length (sub_bytes b) = 16" "length b = 16 \<Longrightarrow> length (shift_rows b) = 16"
  "length b = 16 \<Longrightarrow> length (mix_columns b) = 16"
  "length b = 16 \<Longrightarrow> length rk \<ge> 16 \<Longrightarrow> length (add_round_key rk b) = 16"
  by (auto simp: sub_bytes_def shift_rows_def add_round_key_def mix_columns_block elim!: block_cases)

text \<open>An endomorphism of blocks that is injective.\<close>

definition block_inj :: "(bytes \<Rightarrow> bytes) \<Rightarrow> bool" where
  "block_inj f \<longleftrightarrow> inj_on f blocks \<and> f ` blocks \<subseteq> blocks"

lemma block_inj_comp: "block_inj f \<Longrightarrow> block_inj g \<Longrightarrow> block_inj (f \<circ> g)"
  unfolding block_inj_def using comp_inj_on [of g blocks f] inj_on_subset [of f blocks "g ` blocks"]
  by (auto simp: image_comp [symmetric])

lemma block_inj_steps:
  "block_inj sub_bytes" "block_inj shift_rows" "block_inj mix_columns"
  "length rk \<ge> 16 \<Longrightarrow> block_inj (add_round_key rk)"
  by (auto simp: block_inj_def sub_bytes_inj shift_rows_inj mix_columns_inj round_key_inj length_steps)

lemma block_inj_rounds:
  assumes "\<And>i. i \<in> set rounds \<Longrightarrow> length (rks ! i) \<ge> 16"
  shows "block_inj (\<lambda>b. foldl (aes_round rks) b rounds)"
  using assms
proof (induction rounds)
  case Nil
  then show ?case by (simp add: block_inj_def)
next
  case (Cons i rounds)
  have "(\<lambda>b. foldl (aes_round rks) b (i # rounds)) =
      (\<lambda>b. foldl (aes_round rks) b rounds) \<circ> (add_round_key (rks ! i) \<circ> (mix_columns \<circ> (shift_rows \<circ> sub_bytes)))"
    by (rule ext) (simp add: aes_round_def)
  then show ?case using Cons by (simp only:) (intro block_inj_comp block_inj_steps, simp_all)
qed

text \<open>The function that encryption computes on blocks.\<close>

definition cipher :: "bytes list \<Rightarrow> bytes \<Rightarrow> bytes" where
  "cipher rks b = add_round_key (rks ! (length rks - 1)) (shift_rows (sub_bytes
     (foldl (aes_round rks) (add_round_key (rks ! 0) b) [1..<length rks - 1])))"

lemma aes_encrypt_cipher:
  "rks \<noteq> [] \<Longrightarrow> list_all (\<lambda>rk. length rk \<ge> 16) rks \<Longrightarrow> length b \<ge> 16 \<Longrightarrow>
     aes_encrypt_block b rks = Inr (cipher rks b)"
  by (auto simp: aes_encrypt_block_def cipher_def Let_def list_ex_iff list_all_iff)

lemma block_inj_cipher:
  assumes "rks \<noteq> []" "list_all (\<lambda>rk. length rk \<ge> 16) rks"
  shows "block_inj (cipher rks)"
proof -
  have k: "length (rks ! i) \<ge> 16" if "i < length rks" for i using assms(2) that by (simp add: list_all_length)
  let ?rounds = "\<lambda>b. foldl (aes_round rks) b [1..<length rks - 1]"
  have "block_inj ?rounds" by (rule block_inj_rounds) (auto intro: k)
  moreover have "cipher rks = add_round_key (rks ! (length rks - 1)) \<circ> (shift_rows \<circ> (sub_bytes \<circ>
      (?rounds \<circ> add_round_key (rks ! 0))))"
    by (rule ext) (simp add: cipher_def)
  ultimately show ?thesis using assms(1) by (simp only:) (intro block_inj_comp block_inj_steps k, simp_all)
qed

end
