(* ===== verification/Aes_Ctr.thy ===== *)
theory Aes_Ctr
  imports Aes
begin

text \<open>
  What the AES functions of \<open>restore/_aes_pure.py\<close> compute: the key schedule yields 11 or 15 round keys of
  16 bytes, a block is encrypted by a permutation, and counter mode is the exclusive or with the
  encryptions of consecutive 128-bit counters.
\<close>

unbundle bit_operations_syntax

section \<open>Key schedule\<close>

lemma length_expand_key: "length (expand_key nk nr key) = nr + 1"
  by (simp add: expand_key_def Let_def)

lemma expand_key_blocks: "rk \<in> set (expand_key nk nr key) \<Longrightarrow> length rk = 16"
  by (auto simp: expand_key_def Let_def pack_word_def upt_conv_Cons)

lemma key_schedule_ok:
  assumes "length key = 16 \<or> length key = 32"
  obtains rks where "key_schedule key = Inr rks" "rks \<noteq> []" "list_all (\<lambda>rk. length rk = 16) rks"
    "length rks = (if length key = 16 then 11 else 15)"
proof (cases "length key = 16")
  case True
  show ?thesis
    using that [of "expand_key 4 10 key"] True length_expand_key [of 4 10 key] expand_key_blocks [of _ 4 10 key]
    by (fastforce simp: key_schedule_def list_all_iff)
next
  case False
  show ?thesis
    using that [of "expand_key 8 14 key"] False assms length_expand_key [of 8 14 key] expand_key_blocks [of _ 8 14 key]
    by (fastforce simp: key_schedule_def list_all_iff)
qed

section \<open>The counter\<close>

lemma undigits_be_append: "undigits_be b (xs @ ys) = undigits_be b xs * b ^ length ys + undigits_be b ys"
  by (induction ys rule: rev_induct) (simp_all add: algebra_simps flip: append_assoc)

lemma int_from_bytes_append:
  "int_from_bytes_be (xs @ ys) = int_from_bytes_be xs * 256 ^ length ys + int_from_bytes_be ys"
  by (simp add: int_from_bytes_be_def undigits_be_append)

lemma int_from_bytes_snoc: "int_from_bytes_be (xs @ [y]) = int_from_bytes_be xs * 256 + unat y"
  by (simp add: int_from_bytes_be_def)

lemma inc_from_append: "i \<le> length xs \<Longrightarrow> inc_from i (xs @ ys) = inc_from i xs @ ys"
  by (induction i arbitrary: xs) (auto simp: Let_def nth_append list_update_append)

lemma length_inc_from [simp]: "length (inc_from i xs) = length xs"
  by (induction i arbitrary: xs) (auto simp: Let_def)

text \<open>Incrementing the bytes increments the number they write, modulo its range.\<close>

lemma inc_from_value:
  "int_from_bytes_be (inc_from (length xs) xs) = (int_from_bytes_be xs + 1) mod 256 ^ length xs"
proof (induction xs rule: rev_induct)
  case Nil
  then show ?case by (simp add: int_from_bytes_be_def)
next
  case (snoc x xs)
  let ?n = "int_from_bytes_be xs"
  have lt: "?n < 256 ^ length xs" by (rule int_from_bytes_be_less)
  show ?case
  proof (cases "x + 1 = 0")
    case True
    have "unat (- 1 :: byte) = 255" by code_simp
    then have x: "unat x = 255" using True by (simp add: eq_neg_iff_add_eq_0 [symmetric])
    have "inc_from (length (xs @ [x])) (xs @ [x]) = inc_from (length xs) xs @ [0]"
      using True by (simp add: Let_def inc_from_append)
    then have "int_from_bytes_be (inc_from (length (xs @ [x])) (xs @ [x])) = (?n + 1) mod 256 ^ length xs * 256"
      by (simp add: int_from_bytes_snoc snoc)
    also have "\<dots> = (?n * 256 + unat x + 1) mod 256 ^ length (xs @ [x])"
      unfolding mult_mod_left using x by (simp add: mult.commute add.commute)
    finally show ?thesis by (simp add: int_from_bytes_snoc)
  next
    case False
    then have u: "unat (x + 1) = unat x + 1" using unatSuc [of x] by (simp add: add.commute)
    have "inc_from (length (xs @ [x])) (xs @ [x]) = xs @ [x + 1]"
      using False by (simp add: Let_def list_update_append)
    moreover have "?n * 256 + unat x + 1 < 256 ^ length (xs @ [x])"
    proof -
      have "unat x + 1 < 256" using u unat_byte_less [of "x + 1"] by simp
      moreover have "(?n + 1) * 256 \<le> 256 ^ length xs * 256" using lt by (intro mult_right_mono) simp_all
      ultimately show ?thesis by simp
    qed
    ultimately show ?thesis using u by (simp add: int_from_bytes_snoc)
  qed
qed

lemma inc_counter_value:
  "length ctr = 16 \<Longrightarrow> int_from_bytes_be (inc_counter ctr) = (int_from_bytes_be ctr + 1) mod 2 ^ 128"
  using inc_from_value [of ctr] by (simp add: inc_counter_def)

lemma length_inc_counter [simp]: "length (inc_counter ctr) = length ctr"
  by (simp add: inc_counter_def)

lemma int_from_bytes_inj: "length xs = length ys \<Longrightarrow> int_from_bytes_be xs = int_from_bytes_be ys \<Longrightarrow> xs = ys"
  by (metis int_to_from_bytes_be option.inject)

text \<open>The block of the counter \<open>n\<close>.\<close>

definition counter_block :: "nat \<Rightarrow> bytes" where
  "counter_block n = map of_nat (digits_be 256 16 (n mod 2 ^ 128))"

lemma length_counter_block [simp]: "length (counter_block n) = 16"
  by (simp add: counter_block_def)

lemma counter_block_value [simp]: "int_from_bytes_be (counter_block n) = n mod 2 ^ 128"
  unfolding counter_block_def by (rule int_from_to_bytes_be) simp

lemma counter_blocks:
  assumes "length iv = 16"
  shows "(inc_counter ^^ k) iv = counter_block (int_from_bytes_be iv + k)"
proof -
  have "length ((inc_counter ^^ k) iv) = 16 \<and>
      int_from_bytes_be ((inc_counter ^^ k) iv) = (int_from_bytes_be iv + k) mod 2 ^ 128"
  proof (induction k)
    case 0
    then show ?case using assms int_from_bytes_be_less [of iv] by simp
  next
    case (Suc k)
    then show ?case by (simp add: inc_counter_value mod_simps)
  qed
  then show ?thesis by (intro int_from_bytes_inj) simp_all
qed

section \<open>Counter mode\<close>

text \<open>The byte of the key stream at position \<open>i\<close>.\<close>

definition stream_byte :: "bytes list \<Rightarrow> bytes \<Rightarrow> nat \<Rightarrow> byte" where
  "stream_byte rks ctr i = cipher rks ((inc_counter ^^ (i div 16)) ctr) ! (i mod 16)"

lemma stream_byte_shift: "stream_byte rks ctr (i + 16) = stream_byte rks (inc_counter ctr) i"
proof -
  have "(i + 16) div 16 = Suc (i div 16)" by simp
  then show ?thesis by (simp add: stream_byte_def funpow_swap1 del: div_add_self2)
qed

lemma length_cipher:
  "rks \<noteq> [] \<Longrightarrow> list_all (\<lambda>rk. length rk = 16) rks \<Longrightarrow> length b = 16 \<Longrightarrow> length (cipher rks b) = 16"
  using block_inj_cipher [of rks] by (auto simp: block_inj_def list_all_iff image_subset_iff)

lemma upt_split: "[0..<n] = [0..<min k n] @ map (\<lambda>i. i + k) [0..<n - k]"
proof (cases "n \<le> k")
  case False
  then have "[0..<n] = [0..<k] @ [k..<n]" by (metis le_add_diff_inverse linear upt_add_eq_append zero_le)
  then show ?thesis using False by (simp add: map_add_upt min_absorb1 not_le)
qed (simp add: min_absorb2)

lemma aes_ctr_loop_runs:
  assumes "rks \<noteq> []" "list_all (\<lambda>rk. length rk = 16) rks" "length ctr = 16"
  shows "aes_ctr_loop rks ctr data out =
     Inr (out @ map (\<lambda>i. data ! i XOR stream_byte rks ctr i) [0..<length data])"
  using assms(3)
proof (induction data arbitrary: ctr out rule: measure_induct_rule [of length])
  case (less data)
  show ?case
  proof (cases "data = []")
    case True
    then show ?thesis by (simp add: aes_ctr_loop.simps)
  next
    case False
    let ?ks = "cipher rks ctr"
    let ?f = "\<lambda>i. data ! i XOR stream_byte rks ctr i"
    have ks: "aes_encrypt_block ctr rks = Inr ?ks" "length ?ks = 16"
      using assms(1,2) less.prems by (auto simp: length_cipher list_all_iff intro!: aes_encrypt_cipher)
    have first: "map2 (XOR) (take 16 data) ?ks = map ?f [0..<min 16 (length data)]"
      using ks(2) by (intro nth_equalityI) (auto simp: stream_byte_def)
    have rest: "map (\<lambda>i. drop 16 data ! i XOR stream_byte rks (inc_counter ctr) i) [0..<length (drop 16 data)] =
        map ?f (map (\<lambda>i. i + 16) [0..<length data - 16])"
      by (auto simp: stream_byte_shift add.commute)
    have "aes_ctr_loop rks ctr data out =
        aes_ctr_loop rks (inc_counter ctr) (drop 16 data) (out @ map2 (XOR) (take 16 data) ?ks)"
      using False ks(1) by (subst aes_ctr_loop.simps) simp
    also have "\<dots> = Inr ((out @ map2 (XOR) (take 16 data) ?ks) @
        map (\<lambda>i. drop 16 data ! i XOR stream_byte rks (inc_counter ctr) i) [0..<length (drop 16 data)])"
      using False less.prems by (intro less.IH) simp_all
    also have "\<dots> = Inr (out @ map ?f [0..<length data])"
      unfolding first rest by (subst upt_split [of "length data" 16]) simp
    finally show ?thesis .
  qed
qed

lemma aes_ctr_runs:
  assumes "key_schedule key = Inr rks" "length iv = 16"
  shows "aes_ctr key iv data = Inr (map (\<lambda>i. data ! i XOR stream_byte rks iv i) [0..<length data])"
proof -
  have "length key = 16 \<or> length key = 32" using assms(1) by (auto simp: key_schedule_def split: if_splits)
  then have "rks \<noteq> [] \<and> list_all (\<lambda>rk. length rk = 16) rks" using key_schedule_ok assms(1) by (metis sum.inject(2))
  then show ?thesis using assms by (simp add: aes_ctr_def aes_ctr_loop_runs)
qed

section \<open>Properties\<close>

text \<open>
  Block encryption. A key of 16 or 32 bytes expands to 11 or 15 round keys, any other length is
  refused, and under the expanded key the encryption of blocks is a permutation of the 16-byte
  blocks: every ciphertext block is the encryption of exactly one block. A shorter block raises.
\<close>

theorem aes_block_permutation:
  "case key_schedule key of
     Inl e \<Rightarrow> e = Bad_key_length (length key) \<and> length key \<notin> {16, 32}
   | Inr rks \<Rightarrow> length rks = (if length key = 16 then 11 else 15) \<and> length key \<in> {16, 32} \<and>
       bij_betw (\<lambda>b. aes_encrypt_block b rks) {b. length b = 16} (Inr ` {b. length b = 16}) \<and>
       (\<forall>b. length b \<ge> 16 \<or> aes_encrypt_block b rks = Inl Index_error)"
proof (cases "length key = 16 \<or> length key = 32")
  case False
  then show ?thesis by (simp add: key_schedule_def)
next
  case True
  then obtain rks where rks: "key_schedule key = Inr rks" "rks \<noteq> []" "list_all (\<lambda>rk. length rk = 16) rks"
    "length rks = (if length key = 16 then 11 else 15)" by (rule key_schedule_ok)
  have ge: "list_all (\<lambda>rk. length rk \<ge> 16) rks" using rks(3) by (simp add: list_all_iff)
  have fin: "finite blocks" using finite_lists_length_eq [of "UNIV :: byte set" 16] by simp
  have "bij_betw (cipher rks) blocks blocks"
    using block_inj_cipher [OF rks(2) ge] fin by (auto simp: block_inj_def bij_betw_def endo_inj_surj)
  moreover have "bij_betw Inr blocks (Inr ` blocks)" by (auto simp: bij_betw_def inj_on_def)
  ultimately have "bij_betw (Inr \<circ> cipher rks) blocks (Inr ` blocks)" by (rule bij_betw_trans)
  then have "bij_betw (\<lambda>b. aes_encrypt_block b rks) blocks (Inr ` blocks)"
    by (rule bij_betw_cong [THEN iffD1, rotated]) (simp add: aes_encrypt_cipher [OF rks(2) ge])
  then show ?thesis using True rks by (auto simp: aes_encrypt_block_def)
qed

text \<open>
  C18. Counter mode. With a 16-byte vector, the output has the length of the data and is the exclusive or
  of the data with the encryptions of the counters that start at the vector and count up modulo
  \<open>2^128\<close>, so applying it twice gives the data back; a key of another length is refused.
\<close>

theorem aes_ctr_spec:
  assumes "length iv = 16"
  shows "case aes_ctr key iv data of
     Inl e \<Rightarrow> e = Bad_key_length (length key) \<and> length key \<notin> {16, 32}
   | Inr out \<Rightarrow> length out = length data \<and> aes_ctr key iv out = Inr data \<and>
       (\<forall>i<length data. \<exists>rks ks. key_schedule key = Inr rks \<and>
          aes_encrypt_block (counter_block (int_from_bytes_be iv + i div 16)) rks = Inr ks \<and>
          out ! i = data ! i XOR ks ! (i mod 16))"
proof (cases "length key = 16 \<or> length key = 32")
  case False
  then show ?thesis by (simp add: aes_ctr_def key_schedule_def)
next
  case True
  then obtain rks where rks: "key_schedule key = Inr rks" "rks \<noteq> []" "list_all (\<lambda>rk. length rk = 16) rks"
    "length rks = (if length key = 16 then 11 else 15)" by (rule key_schedule_ok)
  have ge: "list_all (\<lambda>rk. length rk \<ge> 16) rks" using rks(3) by (simp add: list_all_iff)
  let ?out = "map (\<lambda>i. data ! i XOR stream_byte rks iv i) [0..<length data]"
  have "map (\<lambda>i. ?out ! i XOR stream_byte rks iv i) [0..<length ?out] = data"
    by (rule nth_equalityI) (auto simp: xor.assoc)
  then have twice: "aes_ctr key iv ?out = Inr data"
    unfolding aes_ctr_runs [OF rks(1) assms, of ?out] by simp
  have "\<exists>ks. aes_encrypt_block (counter_block (int_from_bytes_be iv + i div 16)) rks = Inr ks \<and>
      ?out ! i = data ! i XOR ks ! (i mod 16)" if "i < length data" for i
    using that by (simp add: aes_encrypt_cipher [OF rks(2) ge] stream_byte_def counter_blocks [OF assms])
  then show ?thesis using twice rks(1) by (simp add: aes_ctr_runs [OF rks(1) assms, of data])
qed

theorem aes_ctr_spec_witness:
  "\<exists>out. aes_ctr (replicate 32 7) (replicate 16 0xFF) [1, 2, 3] = Inr out \<and> length out = 3 \<and>
     aes_ctr (replicate 32 7) (replicate 16 0xFF) out = Inr [1, 2, 3]"
proof -
  have iv: "length (replicate 16 0xFF :: bytes) = 16" by simp
  show ?thesis using aes_ctr_spec [OF iv, of "replicate 32 7" "[1, 2, 3]"]
    by (cases "aes_ctr (replicate 32 7) (replicate 16 0xFF) [1, 2, 3]") simp_all
qed

text \<open>
  The substitution table. Every entry of the table is the inverse of its index in GF(256) under the
  affine map of FIPS 197, and the shift-and-add product and the tables of MixColumns are the
  multiplication of that field.
\<close>

theorem aes_tables:
  "sub_byte b = sbox_affine (byte_inv b) \<and> gf_mul a b = byte_mul a b \<and>
   MUL2 ! unat b = byte_mul 2 b \<and> MUL3 ! unat b = byte_mul 3 b"
  by (simp add: sub_byte_affine gf_mul_eq MUL2_def MUL3_def)

end
