(* ===== verification/Restic_Crypt.thy ===== *)
theory Restic_Crypt
  imports Aes_Ctr Sha256
begin

text \<open>
  The authenticated encryption of a restic repository as \<open>restore/restic_fallback.py\<close> opens it: the
  Poly1305-AES tag, its comparison, and the decryption of \<open>IV || ciphertext || tag\<close>.
\<close>

unbundle bit_operations_syntax

section \<open>Poly1305\<close>

text \<open>\<open>int.from_bytes(bs, "little")\<close> and \<open>to_bytes(n, "little")\<close>.\<close>

definition int_from_bytes_le :: "bytes \<Rightarrow> nat" where
  "int_from_bytes_le bs = int_from_bytes_be (rev bs)"

definition bytes_le :: "nat \<Rightarrow> nat \<Rightarrow> bytes" where
  "bytes_le n v = rev (map of_nat (digits_be 256 n v))"

definition clamp_r :: "bytes \<Rightarrow> nat" where
  "clamp_r r_bytes = int_from_bytes_le r_bytes AND 0x0FFFFFFC0FFFFFFC0FFFFFFC0FFFFFFF"

definition poly1305_p :: nat where
  "poly1305_p = push_bit 130 1 - 5"

definition poly1305_block :: "bytes \<Rightarrow> nat" where
  "poly1305_block block = int_from_bytes_le block OR push_bit (length block * 8) 1"

definition poly1305_mac :: "bytes \<Rightarrow> bytes \<Rightarrow> bytes \<Rightarrow> bytes" where
  "poly1305_mac key_r key_s message =
     (let r = clamp_r key_r; s = int_from_bytes_le key_s;
          h = foldl (\<lambda>h block. ((h + poly1305_block block) * r) mod poly1305_p) 0 (chunks 16 message)
      in bytes_le 16 ((h + s) AND (push_bit 128 1 - 1)))"

section \<open>Opening\<close>

definition constant_time_eq :: "bytes \<Rightarrow> bytes \<Rightarrow> bool" where
  "constant_time_eq a b =
     (if length a \<noteq> length b then False else foldl (\<lambda>result (x, y). result OR (x XOR y)) 0 (zip a b) = 0)"

record master_key =
  mk_encrypt :: bytes
  mk_mac_k :: bytes
  mk_mac_r :: bytes

datatype crypt_error = Data_too_short nat | Mac_mismatch | Aes_failed aes_error

definition lift_aes :: "(aes_error, 'a) result \<Rightarrow> (crypt_error, 'a) result" where
  "lift_aes r = (case r of Inl e \<Rightarrow> Inl (Aes_failed e) | Inr a \<Rightarrow> Inr a)"

definition decrypt_authenticated :: "bytes \<Rightarrow> bytes \<Rightarrow> bytes \<Rightarrow> bytes \<Rightarrow> (crypt_error, bytes) result" where
  "decrypt_authenticated encrypt_key mac_k mac_r data =
     (if length data < 33 then Inl (Data_too_short (length data))
      else
        let iv = take 16 data;
            ciphertext = take (length data - 32) (drop 16 data);
            expected_mac = drop (length data - 16) data
        in rbind (lift_aes (key_schedule mac_k)) (\<lambda>mac_rk.
           rbind (lift_aes (aes_encrypt_block iv mac_rk)) (\<lambda>s.
           if \<not> constant_time_eq (poly1305_mac mac_r s ciphertext) expected_mac then Inl Mac_mismatch
           else lift_aes (aes_ctr encrypt_key iv ciphertext))))"

section \<open>Lemmas\<close>

lemma or_eq_0: "(a :: byte) OR b = 0 \<longleftrightarrow> a = 0 \<and> b = 0"
  by (metis or_eq_0_iff)

lemma foldl_or_eq_0:
  "foldl (\<lambda>result (x, y). result OR (x XOR y)) acc ps = (0 :: byte) \<longleftrightarrow> acc = 0 \<and> (\<forall>(x, y)\<in>set ps. x = y)"
proof (induction ps arbitrary: acc)
  case (Cons p ps)
  obtain x y where p: "p = (x, y)" by (cases p)
  have "x XOR y = 0 \<longleftrightarrow> x = y" by (metis xor_self_eq xor_self_left xor.right_neutral)
  then show ?case using Cons by (auto simp: p or_eq_0)
qed simp

lemma constant_time_eq_iff: "constant_time_eq a b \<longleftrightarrow> a = b"
proof (cases "length a = length b")
  case True
  have "(\<forall>(x, y)\<in>set (zip a b). x = y) \<longleftrightarrow> a = b"
    using True by (induction a b rule: list_induct2) auto
  then show ?thesis using True by (simp add: constant_time_eq_def foldl_or_eq_0)
qed (auto simp: constant_time_eq_def)

lemma length_poly1305_mac [simp]: "length (poly1305_mac r s m) = 16"
  by (simp add: poly1305_mac_def bytes_le_def Let_def)

lemma or_top_bit: "n < 2 ^ k \<Longrightarrow> n OR push_bit k 1 = n + (2 ^ k :: nat)"
proof -
  assume n: "n < 2 ^ k"
  have "\<not> bit n k" using n by (simp add: bit_iff_odd)
  then have "n AND 2 ^ k = 0" by (simp add: and_exp_eq_0_iff_not_bit)
  then show ?thesis using disjunctive_add_eq_or [of n "2 ^ k"] by (simp add: push_bit_nat_def)
qed

lemma poly1305_block_eq: "poly1305_block block = int_from_bytes_le block + 2 ^ (8 * length block)"
proof -
  have "int_from_bytes_le block < 2 ^ (8 * length block)"
    using int_from_bytes_be_less [of "rev block"] by (simp add: int_from_bytes_le_def power_mult)
  then show ?thesis unfolding poly1305_block_def by (subst or_top_bit) (simp_all add: mult.commute)
qed

text \<open>The loop is Horner's rule for a polynomial in \<open>r\<close> modulo the prime.\<close>

lemma horner_mod:
  "foldl (\<lambda>h x. ((h + f x) * r) mod m) 0 xs = (\<Sum>i<length xs. f (xs ! i) * r ^ (length xs - i)) mod (m :: nat)"
proof (induction xs rule: rev_induct)
  case (snoc x xs)
  have "(\<Sum>i<length (xs @ [x]). f ((xs @ [x]) ! i) * r ^ (length (xs @ [x]) - i)) =
      (\<Sum>i<length xs. f (xs ! i) * r ^ (length xs - i)) * r + f x * r"
    by (simp add: nth_append sum_distrib_left Suc_diff_le ac_simps)
  moreover have "((S mod m + f x) * r) mod m = ((S + f x) * r) mod m" for S
    by (metis mod_add_left_eq mod_mult_left_eq)
  ultimately show ?case using snoc by (simp add: add_mult_distrib)
qed simp

section \<open>Properties\<close>

text \<open>The tag as RFC 8439 defines it: the polynomial with the blocks as coefficients, at the clamped key,
  modulo \<open>2^130 - 5\<close>, plus the second key, in the low 128 bits.\<close>

definition poly1305_value :: "nat \<Rightarrow> bytes list \<Rightarrow> nat" where
  "poly1305_value r bs =
     (\<Sum>i<length bs. (int_from_bytes_le (bs ! i) + 2 ^ (8 * length (bs ! i))) * r ^ (length bs - i))
       mod (2 ^ 130 - 5)"

text \<open>
  C19. The tag. The computed tag is the RFC 8439 tag: the polynomial over the 16-byte blocks, each with a
  bit set above its last byte, evaluated at the clamped key modulo \<open>2^130 - 5\<close>, plus the second key
  modulo \<open>2^128\<close>, in 16 little-endian bytes.
\<close>

theorem poly1305_mac_spec:
  "length (poly1305_mac key_r key_s message) = 16 \<and>
   int_from_bytes_le (poly1305_mac key_r key_s message) =
     (poly1305_value (clamp_r key_r) (chunks 16 message) + int_from_bytes_le key_s) mod 2 ^ 128"
proof -
  let ?h = "foldl (\<lambda>h block. ((h + poly1305_block block) * clamp_r key_r) mod poly1305_p) 0 (chunks 16 message)"
  have p: "poly1305_p = 2 ^ 130 - 5" by (simp add: poly1305_p_def push_bit_nat_def)
  have h: "?h = poly1305_value (clamp_r key_r) (chunks 16 message)"
    unfolding horner_mod p poly1305_value_def by (simp add: poly1305_block_eq)
  have "(?h + int_from_bytes_le key_s) AND (push_bit 128 1 - 1) = (?h + int_from_bytes_le key_s) mod 2 ^ 128"
    using take_bit_eq_mask [of 128 "?h + int_from_bytes_le key_s"]
    by (simp add: push_bit_nat_def mask_eq_exp_minus_1 take_bit_nat_def)
  then have "int_from_bytes_le (poly1305_mac key_r key_s message) = (?h + int_from_bytes_le key_s) mod 2 ^ 128"
    unfolding poly1305_mac_def Let_def bytes_le_def int_from_bytes_le_def rev_rev_ident
    by (subst int_from_to_bytes_be) (simp_all add: int_from_bytes_le_def)
  then show ?thesis by (simp add: h)
qed

text \<open>How a repository seals data: counter mode, and the tag over the ciphertext with the encrypted vector.\<close>

definition seal :: "master_key \<Rightarrow> bytes \<Rightarrow> bytes \<Rightarrow> (crypt_error, bytes) result" where
  "seal mk iv plain =
     rbind (lift_aes (aes_ctr (mk_encrypt mk) iv plain)) (\<lambda>ct.
     rbind (lift_aes (key_schedule (mk_mac_k mk))) (\<lambda>rk.
     rbind (lift_aes (aes_encrypt_block iv rk)) (\<lambda>s.
     Inr (iv @ ct @ poly1305_mac (mk_mac_r mk) s ct))))"

definition key_lengths_ok :: "master_key \<Rightarrow> bool" where
  "key_lengths_ok mk \<longleftrightarrow> length (mk_encrypt mk) \<in> {16, 32} \<and> length (mk_mac_k mk) \<in> {16, 32}"

lemma aes_total:
  assumes "length key \<in> {16, 32}"
  obtains rks where "key_schedule key = Inr rks" "\<And>b. length b = 16 \<Longrightarrow> aes_encrypt_block b rks = Inr (cipher rks b)"
proof -
  have "length key = 16 \<or> length key = 32" using assms by auto
  then obtain rks where rks: "key_schedule key = Inr rks" "rks \<noteq> []" "list_all (\<lambda>rk. length rk = 16) rks"
    by (rule key_schedule_ok)
  show ?thesis by (rule that [OF rks(1)]) (use rks(2,3) in \<open>auto simp: list_all_iff intro!: aes_encrypt_cipher\<close>)
qed

lemma split_sealed:
  assumes "33 \<le> length data"
  obtains iv ct mac where "data = iv @ ct @ mac" "length iv = 16" "length mac = 16" "ct \<noteq> []"
proof
  show "data = take 16 data @ take (length data - 32) (drop 16 data) @ drop (length data - 16) data"
  proof -
    have "drop (length data - 16) data = drop (length data - 32) (drop 16 data)" using assms by (simp add: add.commute)
    then show ?thesis by (metis append_take_drop_id)
  qed
qed (use assms in auto)

lemma decrypt_parts:
  assumes "length iv = 16" "length mac = 16" "ct \<noteq> []"
  shows "decrypt_authenticated e k r (iv @ ct @ mac) =
     rbind (lift_aes (key_schedule k)) (\<lambda>rk. rbind (lift_aes (aes_encrypt_block iv rk)) (\<lambda>s.
       if poly1305_mac r s ct \<noteq> mac then Inl Mac_mismatch else lift_aes (aes_ctr e iv ct)))"
proof -
  have "\<not> length (iv @ ct @ mac) < 33" using assms by (cases ct) simp_all
  then show ?thesis using assms(1,2) by (simp add: decrypt_authenticated_def constant_time_eq_iff Let_def)
qed

lemma ctr_involution:
  assumes "length key \<in> {16, 32}" "length iv = 16"
  obtains C where "\<And>x. aes_ctr key iv x = Inr (C x)" "\<And>x. length (C x) = length x" "\<And>x. C (C x) = x"
proof -
  obtain rks where rks: "key_schedule key = Inr rks" using assms(1) by (rule aes_total)
  let ?C = "\<lambda>x. map (\<lambda>i. x ! i XOR stream_byte rks iv i) [0..<length x]"
  have "?C (?C x) = x" for x by (rule nth_equalityI) (auto simp: xor.assoc)
  then show ?thesis by (intro that [of ?C]) (simp_all add: aes_ctr_runs [OF rks assms(2)])
qed

text \<open>
  C20. Authenticated decryption. With keys of AES length, opening returns a plaintext exactly when the
  data is the sealing of that plaintext under the data's own vector and the plaintext is not empty;
  everything else is refused as too short or as a tag mismatch, and what was sealed is opened again.
\<close>

theorem decrypt_authenticated_spec:
  assumes "key_lengths_ok mk"
  shows "(decrypt_authenticated (mk_encrypt mk) (mk_mac_k mk) (mk_mac_r mk) data = Inr plain \<longleftrightarrow>
       plain \<noteq> [] \<and> length (take 16 data) = 16 \<and> seal mk (take 16 data) plain = Inr data) \<and>
     (case decrypt_authenticated (mk_encrypt mk) (mk_mac_k mk) (mk_mac_r mk) data of
        Inl e \<Rightarrow> e = (if length data < 33 then Data_too_short (length data) else Mac_mismatch)
      | Inr p \<Rightarrow> length data = length p + 32)"
proof (cases "length (take 16 data) = 16")
  case False
  then show ?thesis by (auto simp: decrypt_authenticated_def)
next
  case True
  let ?iv = "take 16 data"
  obtain C where C: "\<And>x. aes_ctr (mk_encrypt mk) ?iv x = Inr (C x)" "\<And>x. length (C x) = length x" "\<And>x. C (C x) = x"
    using ctr_involution [OF _ True] assms unfolding key_lengths_ok_def by blast
  obtain rk where rk: "key_schedule (mk_mac_k mk) = Inr rk" "aes_encrypt_block ?iv rk = Inr (cipher rk ?iv)"
    using aes_total [of "mk_mac_k mk"] assms True unfolding key_lengths_ok_def by metis
  let ?mac = "poly1305_mac (mk_mac_r mk) (cipher rk ?iv)"
  have seal: "seal mk ?iv x = Inr (?iv @ C x @ ?mac (C x))" for x
    using C(1) rk by (simp add: seal_def lift_aes_def)
  show ?thesis
  proof (cases "length data < 33")
    case short: True
    have "?iv @ C plain @ ?mac (C plain) \<noteq> data" if "plain \<noteq> []"
      using short that C(2) [of plain] True by (cases plain) (auto dest!: arg_cong [of _ _ length])
    then show ?thesis using short seal [of plain] by (auto simp: decrypt_authenticated_def)
  next
    case False
    then obtain iv ct mac where d: "data = iv @ ct @ mac" "length iv = 16" "length mac = 16" "ct \<noteq> []"
      by (metis not_less split_sealed)
    then have iv: "?iv = iv" by simp
    have opened: "decrypt_authenticated (mk_encrypt mk) (mk_mac_k mk) (mk_mac_r mk) data =
        (if ?mac ct \<noteq> mac then Inl Mac_mismatch else Inr (C ct))"
      using rk C(1) unfolding d(1) decrypt_parts [OF d(2-4)] by (simp add: lift_aes_def d(2))
    have "seal mk ?iv plain = Inr data \<longleftrightarrow> C plain = ct \<and> ?mac ct = mac"
      unfolding seal by (simp add: iv) (auto simp: d)
    moreover have "C plain = ct \<longleftrightarrow> plain = C ct" using C(3) by metis
    moreover have "C ct \<noteq> []" using C(2) [of ct] d(4) by auto
    moreover have "length data = length (C ct) + 32" using d C(2) [of ct] by simp
    ultimately show ?thesis using True False by (auto simp: opened)
  qed
qed

theorem decrypt_authenticated_spec_witness:
  "let mk = \<lparr>mk_encrypt = replicate 32 1, mk_mac_k = replicate 16 2, mk_mac_r = replicate 16 3\<rparr> in
   \<exists>data. seal mk (replicate 16 4) [5, 6] = Inr data \<and> length data = 34 \<and>
     decrypt_authenticated (mk_encrypt mk) (mk_mac_k mk) (mk_mac_r mk) data = Inr [5, 6]"
proof -
  let ?mk = "\<lparr>mk_encrypt = replicate 32 1, mk_mac_k = replicate 16 2, mk_mac_r = replicate 16 3\<rparr> :: master_key"
  have ok: "key_lengths_ok ?mk" by (simp add: key_lengths_ok_def)
  have iv: "length (replicate 16 4 :: bytes) = 16" by simp
  obtain C where C: "\<And>x. aes_ctr (mk_encrypt ?mk) (replicate 16 4) x = Inr (C x)" "\<And>x. length (C x) = length x"
    by (rule ctr_involution [OF _ iv, of "mk_encrypt ?mk"]) auto
  obtain rk where rk: "key_schedule (mk_mac_k ?mk) = Inr rk"
    "\<And>b. length b = 16 \<Longrightarrow> aes_encrypt_block b rk = Inr (cipher rk b)"
    by (rule aes_total [of "mk_mac_k ?mk"]) auto
  obtain data where data: "seal ?mk (replicate 16 4) [5, 6] = Inr data" "take 16 data = replicate 16 4" "length data = 34"
    using C rk by (simp add: seal_def lift_aes_def)
  then show ?thesis using decrypt_authenticated_spec [OF ok, of data "[5, 6]"] by (simp add: Let_def)
qed

end
