(* ===== verification/Restic_Keys.thy ===== *)
theory Restic_Keys
  imports Restic_Crypt Mirror
begin

text \<open>
  The key files of a repository (\<open>restore/restic_fallback.py\<close>): checking the scrypt parameters, opening
  one key file with the password, and trying all of them. \<open>json.loads\<close> is a parameter, from bytes to
  a value or a failure; base64 decoding and scrypt are modelled as the Python library has them.
\<close>

unbundle bit_operations_syntax

section \<open>JSON values\<close>

datatype json =
    J_null
  | J_bool bool
  | J_int int
  | J_float string
  | J_str string
  | J_list "json list"
  | J_dict "(string \<times> json) list"

text \<open>\<open>doc["key"]\<close> raises for anything but a dict with that key; \<open>doc.get("key", default)\<close> is used on
  dicts only.\<close>

fun item :: "json \<Rightarrow> string \<Rightarrow> json option" where
  "item (J_dict kvs) k = map_of (rev kvs) k"
| "item _ k = None"

definition get_default :: "json \<Rightarrow> string \<Rightarrow> json \<Rightarrow> json" where
  "get_default j k x = (case item j k of None \<Rightarrow> x | Some v \<Rightarrow> v)"

section \<open>Base64\<close>

definition b64_value :: "char \<Rightarrow> nat option" where
  "b64_value c =
     (let n = code c in
      if 65 \<le> n \<and> n \<le> 90 then Some (n - 65)
      else if 97 \<le> n \<and> n \<le> 122 then Some (n - 71)
      else if 48 \<le> n \<and> n \<le> 57 then Some (n + 4)
      else if n = 43 then Some 62 else if n = 47 then Some 63 else None)"

text \<open>The decoder: characters outside the alphabet are skipped, padding that completes a group of four
  ends the data, and an incomplete group at the end raises. The state is the position in the group,
  the bits left over, and the padding seen.\<close>

fun b64_loop :: "nat \<Rightarrow> nat \<Rightarrow> nat \<Rightarrow> string \<Rightarrow> bytes option" where
  "b64_loop quad left pads [] = (if quad = 0 then Some [] else None)"
| "b64_loop quad left pads (c # cs) =
     (if c = CHR ''='' then
        (if quad \<ge> 2 \<and> quad + (pads + 1) \<ge> 4 then Some []
         else b64_loop quad left (if quad \<ge> 2 then pads + 1 else pads) cs)
      else
        case b64_value c of
          None \<Rightarrow> b64_loop quad left pads cs
        | Some v \<Rightarrow>
            if quad = 0 then b64_loop 1 v 0 cs
            else if quad = 1 then map_option ((#) (of_nat (left * 4 + v div 16))) (b64_loop 2 (v mod 16) 0 cs)
            else if quad = 2 then map_option ((#) (of_nat (left * 16 + v div 4))) (b64_loop 3 (v mod 4) 0 cs)
            else map_option ((#) (of_nat (left * 64 + v))) (b64_loop 0 0 0 cs))"

definition b64decode :: "json \<Rightarrow> bytes option" where
  "b64decode j =
     (case j of J_str s \<Rightarrow> if list_all (\<lambda>c. code c < 128) s then b64_loop 0 0 0 s else None | _ \<Rightarrow> None)"

section \<open>Scrypt\<close>

text \<open>RFC 7914 with SHA-256, as \<open>hashlib.scrypt\<close> computes it.\<close>

definition SALSA_STEPS :: "(nat \<times> nat \<times> nat \<times> nat) list" where
  "SALSA_STEPS =
     [(4, 0, 12, 7), (8, 4, 0, 9), (12, 8, 4, 13), (0, 12, 8, 18),
      (9, 5, 1, 7), (13, 9, 5, 9), (1, 13, 9, 13), (5, 1, 13, 18),
      (14, 10, 6, 7), (2, 14, 10, 9), (6, 2, 14, 13), (10, 6, 2, 18),
      (3, 15, 11, 7), (7, 3, 15, 9), (11, 7, 3, 13), (15, 11, 7, 18),
      (1, 0, 3, 7), (2, 1, 0, 9), (3, 2, 1, 13), (0, 3, 2, 18),
      (6, 5, 4, 7), (7, 6, 5, 9), (4, 7, 6, 13), (5, 4, 7, 18),
      (11, 10, 9, 7), (8, 11, 10, 9), (9, 8, 11, 13), (10, 9, 8, 18),
      (12, 15, 14, 7), (13, 12, 15, 9), (14, 13, 12, 13), (15, 14, 13, 18)]"

definition salsa20_8 :: "32 word list \<Rightarrow> 32 word list" where
  "salsa20_8 b = map2 (+) b (foldl (\<lambda>x (d, i, j, n). x[d := x ! d XOR word_rotl n (x ! i + x ! j)]) b
     (concat (replicate 4 SALSA_STEPS)))"

fun block_mix_loop :: "32 word list \<Rightarrow> 32 word list list \<Rightarrow> 32 word list list" where
  "block_mix_loop x [] = []"
| "block_mix_loop x (b # bs) = (let y = salsa20_8 (map2 (XOR) x b) in y # block_mix_loop y bs)"

definition block_mix :: "32 word list list \<Rightarrow> 32 word list list" where
  "block_mix bs =
     (let ys = block_mix_loop (last bs) bs; r = length bs div 2
      in map (\<lambda>i. ys ! (2 * i)) [0..<r] @ map (\<lambda>i. ys ! (2 * i + 1)) [0..<r])"

definition ro_mix :: "nat \<Rightarrow> 32 word list list \<Rightarrow> 32 word list list" where
  "ro_mix n x =
     (let v = map (\<lambda>i. (block_mix ^^ i) x) [0..<n];
          step = (\<lambda>x. let j = (unat (last x ! 0) + 2 ^ 32 * unat (last x ! 1)) mod n
                      in block_mix (map2 (map2 (XOR)) x (v ! j)))
      in (step ^^ n) ((block_mix ^^ n) x))"

definition words_le :: "bytes \<Rightarrow> 32 word list" where
  "words_le bs = map (\<lambda>b. of_nat (int_from_bytes_le b)) (chunks 4 bs)"

definition scrypt :: "bytes \<Rightarrow> bytes \<Rightarrow> nat \<Rightarrow> nat \<Rightarrow> nat \<Rightarrow> nat \<Rightarrow> bytes" where
  "scrypt password salt n r p dklen =
     (let b = pbkdf2_hmac_sha256 password salt 1 (p * 128 * r);
          mixed = concat (map (\<lambda>c. concat (ro_mix n (chunks 16 (words_le c)))) (chunks (128 * r) b))
      in pbkdf2_hmac_sha256 password (concat (map (\<lambda>w. bytes_le 4 (unat w)) mixed)) 1 dklen)"

section \<open>Key files\<close>

definition SCRYPT_MAX_WORK :: int where "SCRYPT_MAX_WORK = push_bit 25 1"
definition SCRYPT_MAX_MEM :: int where "SCRYPT_MAX_MEM = push_bit 31 1"

text \<open>The type test admits integers only: JSON booleans and floats are refused.\<close>

definition scrypt_maxmem :: "json \<Rightarrow> json \<Rightarrow> json \<Rightarrow> int option" where
  "scrypt_maxmem jn jr jp =
     (case (jn, jr, jp) of
        (J_int n, J_int r, J_int p) \<Rightarrow>
          if n < 2 \<or> n AND (n - 1) \<noteq> 0 \<or> r < 1 \<or> p < 1 \<or> n * r * p > SCRYPT_MAX_WORK \<or>
             128 * r * (n + p + 3) > SCRYPT_MAX_MEM
          then None
          else Some (min (max (128 * r * (n + p + 3)) (2 ^ 25)) (2 ^ 31 - 1))
      | _ \<Rightarrow> None)"

datatype corrupt_reason = Unreadable_or_malformed | Bad_scrypt_parameters | Master_malformed

datatype key_error =
    Key_file_corrupt corrupt_reason
  | Key_rejected crypt_error
  | Key_crashed aes_error

type_synonym json_reader = "bytes \<Rightarrow> json option"

text \<open>The fields of the file that are read before the password is tried: salt, the three parameters, data.\<close>

definition read_key_doc :: "json \<Rightarrow> (key_error, bytes \<times> nat \<times> nat \<times> nat \<times> bytes) result" where
  "read_key_doc doc =
     (case Option.bind (item doc ''salt'') b64decode of
        None \<Rightarrow> Inl (Key_file_corrupt Unreadable_or_malformed)
      | Some salt \<Rightarrow>
          (let n = get_default doc ''N'' (J_int 32768); r = get_default doc ''r'' (J_int 8);
               p = get_default doc ''p'' (J_int 1)
           in case (n, r, p, scrypt_maxmem n r p) of
                (J_int n', J_int r', J_int p', Some maxmem) \<Rightarrow>
                  (case Option.bind (item doc ''data'') b64decode of
                     None \<Rightarrow> Inl (Key_file_corrupt Unreadable_or_malformed)
                   | Some d \<Rightarrow> Inr (salt, nat n', nat r', nat p', d))
              | _ \<Rightarrow> Inl (Key_file_corrupt Bad_scrypt_parameters)))"

definition read_master :: "json \<Rightarrow> master_key option" where
  "read_master master =
     Option.bind (Option.bind (item master ''encrypt'') b64decode) (\<lambda>e.
     Option.bind (item master ''mac'') (\<lambda>mac.
     Option.bind (Option.bind (item mac ''k'') b64decode) (\<lambda>k.
     Option.bind (Option.bind (item mac ''r'') b64decode) (\<lambda>r.
     Some \<lparr>mk_encrypt = e, mk_mac_k = k, mk_mac_r = r\<rparr>))))"

definition load_master_key ::
  "json_reader \<Rightarrow> (os_error, bytes) result \<Rightarrow> bytes \<Rightarrow> (key_error, master_key) result" where
  "load_master_key json_loads content password =
     (case (case content of Inl _ \<Rightarrow> None | Inr bs \<Rightarrow> json_loads bs) of
        None \<Rightarrow> Inl (Key_file_corrupt Unreadable_or_malformed)
      | Some doc \<Rightarrow>
          rbind (read_key_doc doc) (\<lambda>(salt, n, r, p, encrypted_master).
          (let derived = scrypt password salt n r p 64 in
          case decrypt_authenticated (take 32 derived) (take 16 (drop 32 derived)) (take 16 (drop 48 derived))
                 encrypted_master of
            Inl (Aes_failed e) \<Rightarrow> Inl (Key_crashed e)
          | Inl e \<Rightarrow> Inl (Key_rejected e)
          | Inr master_json \<Rightarrow>
              (case Option.bind (json_loads master_json) read_master of
                 None \<Rightarrow> Inl (Key_file_corrupt Master_malformed)
               | Some mk \<Rightarrow> Inr mk))))"

record key_entry =
  ke_name :: string
  ke_is_file :: bool
  ke_content :: "(os_error, bytes) result"

datatype keys_error =
    No_key_files
  | No_key_unlocked "string list" "(string \<times> corrupt_reason) list"
  | Keys_crashed aes_error

fun try_each :: "json_reader \<Rightarrow> bytes \<Rightarrow> key_entry list \<Rightarrow> string list \<Rightarrow> (string \<times> corrupt_reason) list
    \<Rightarrow> (keys_error, master_key) result" where
  "try_each json_loads password [] rejected corrupt = Inl (No_key_unlocked rejected corrupt)"
| "try_each json_loads password (kf # kfs) rejected corrupt =
     (if \<not> ke_is_file kf then try_each json_loads password kfs rejected corrupt
      else case load_master_key json_loads (ke_content kf) password of
        Inr mk \<Rightarrow> Inr mk
      | Inl (Key_file_corrupt why) \<Rightarrow> try_each json_loads password kfs rejected (corrupt @ [(ke_name kf, why)])
      | Inl (Key_rejected _) \<Rightarrow> try_each json_loads password kfs (rejected @ [ke_name kf]) corrupt
      | Inl (Key_crashed e) \<Rightarrow> Inl (Keys_crashed e))"

definition try_keys :: "json_reader \<Rightarrow> key_entry list \<Rightarrow> bytes \<Rightarrow> (keys_error, master_key) result" where
  "try_keys json_loads entries password =
     (let key_files = sort_key ke_name entries in
      if key_files = [] then Inl No_key_files else try_each json_loads password key_files [] [])"

section \<open>Lemmas\<close>

text \<open>A positive number shares no bit with its predecessor exactly when it is a power of two.\<close>

lemma and_pred_nat: "0 < n \<Longrightarrow> n AND (n - 1) = 0 \<Longrightarrow> \<exists>k. n = 2 ^ k" for n :: nat
proof (induction n rule: less_induct)
  case (less n)
  show ?case
  proof (cases "even n")
    case True
    then obtain m where m: "n = 2 * m" by (elim evenE)
    then have m0: "0 < m" "m < n" using less.prems by auto
    have "(2 * m) AND (2 * m - 1) = 2 * (m AND (m - 1))"
      using m0(1) and_rec [of "2 * m" "2 * m - 1"] by (cases m) simp_all
    then have "m AND (m - 1) = 0" using less.prems m by simp
    then obtain k where "m = 2 ^ k" using less.IH [OF m0(2,1)] by blast
    then show ?thesis using m by (intro exI [of _ "Suc k"]) simp
  next
    case False
    then obtain m where m: "n = 2 * m + 1" by (elim oddE)
    have "(2 * m + 1) AND (2 * m) = 2 * m" using and_rec [of "2 * m + 1" "2 * m"] by simp
    then have "m = 0" using less.prems m by simp
    then show ?thesis using m by (intro exI [of _ 0]) simp
  qed
qed

lemma and_pred_exp: "2 ^ k AND (2 ^ k - 1) = (0 :: int)"
  by (metis and_exp_eq_0_iff_not_bit and.commute bit_mask_iff less_irrefl mask_eq_exp_minus_1)

lemma and_pred_int:
  assumes "2 \<le> n" shows "n AND (n - 1) = (0 :: int) \<longleftrightarrow> (\<exists>k\<ge>1. n = 2 ^ k)"
proof
  assume 0: "n AND (n - 1) = 0"
  have "int (nat n AND (nat n - 1)) = n AND (n - 1)" using assms by (simp add: of_nat_and_eq of_nat_diff)
  then have "nat n AND (nat n - 1) = 0" using 0 by simp
  then obtain k where k: "nat n = 2 ^ k" using and_pred_nat [of "nat n"] assms by auto
  then have "n = 2 ^ k" using assms by (metis int_nat_eq of_nat_numeral of_nat_power order_trans zero_le_numeral)
  moreover have "k \<noteq> 0" using k assms by (cases k) auto
  ultimately show "\<exists>k\<ge>1. n = 2 ^ k" by (intro exI [of _ k]) simp
qed (auto simp: and_pred_exp)

lemma length_scrypt: "length (scrypt pw salt n r p 64) = 64"
  by (simp add: scrypt_def Let_def length_pbkdf2_hmac_sha256)

lemma decrypt_no_aes_error:
  assumes "length e \<in> {16, 32}" "length k \<in> {16, 32}"
  shows "decrypt_authenticated e k r data \<noteq> Inl (Aes_failed x)"
proof (cases "length data < 33")
  case False
  then obtain iv ct mac where d: "data = iv @ ct @ mac" "length iv = 16" "length mac = 16" "ct \<noteq> []"
    by (metis not_less split_sealed)
  obtain C where C: "\<And>y. aes_ctr e iv y = Inr (C y)" using ctr_involution [OF assms(1) d(2)] by metis
  obtain rk where rk: "key_schedule k = Inr rk" "aes_encrypt_block iv rk = Inr (cipher rk iv)"
    using aes_total [OF assms(2)] d(2) by metis
  show ?thesis unfolding d(1) decrypt_parts [OF d(2-4)] by (simp add: rk C lift_aes_def)
qed (simp add: decrypt_authenticated_def)

lemma load_never_crashes: "load_master_key json_loads content pw \<noteq> Inl (Key_crashed e)"
proof -
  have "decrypt_authenticated (take 32 d) (take 16 (drop 32 d)) r x \<noteq> Inl (Aes_failed e)" if "length d = 64" for d r x
    using that by (intro decrypt_no_aes_error) simp_all
  then show ?thesis
    using length_scrypt unfolding load_master_key_def
    by (fastforce simp: rbind_def read_key_doc_def Let_def
        split: option.splits sum.splits prod.splits crypt_error.splits json.splits)
qed

text \<open>The verdicts on a key file: it opens, the password is rejected, or the file is damaged.\<close>

definition opens :: "json_reader \<Rightarrow> bytes \<Rightarrow> key_entry \<Rightarrow> bool" where
  "opens json_loads pw kf \<longleftrightarrow> (\<exists>mk. load_master_key json_loads (ke_content kf) pw = Inr mk)"

definition rejects :: "json_reader \<Rightarrow> bytes \<Rightarrow> key_entry \<Rightarrow> bool" where
  "rejects json_loads pw kf \<longleftrightarrow> (\<exists>e. load_master_key json_loads (ke_content kf) pw = Inl (Key_rejected e))"

definition damage :: "json_reader \<Rightarrow> bytes \<Rightarrow> key_entry \<Rightarrow> (string \<times> corrupt_reason) option" where
  "damage json_loads pw kf =
     (case load_master_key json_loads (ke_content kf) pw of
        Inl (Key_file_corrupt why) \<Rightarrow> Some (ke_name kf, why) | _ \<Rightarrow> None)"

lemmas verdict_defs = opens_def rejects_def damage_def

lemma verdicts:
  "opens json_loads pw kf \<or> rejects json_loads pw kf \<or> damage json_loads pw kf \<noteq> None"
  "opens json_loads pw kf \<Longrightarrow> \<not> rejects json_loads pw kf \<and> damage json_loads pw kf = None"
  "rejects json_loads pw kf \<Longrightarrow> damage json_loads pw kf = None"
  using load_never_crashes [of json_loads "ke_content kf" pw]
  by (auto simp: verdict_defs split: sum.splits key_error.splits)

lemma damage_iff:
  "damage json_loads pw kf = Some (name, why) \<longleftrightarrow>
     name = ke_name kf \<and> load_master_key json_loads (ke_content kf) pw = Inl (Key_file_corrupt why)"
  by (auto simp: damage_def split: sum.splits key_error.splits)

lemma mem_map_filter: "y \<in> set (List.map_filter f xs) \<longleftrightarrow> (\<exists>x\<in>set xs. f x = Some y)"
  by (induction xs) (auto simp: map_filter_simps split: option.splits)

lemma try_each_spec:
  "try_each json_loads pw kfs rejected corrupt =
     (case find (opens json_loads pw) (filter ke_is_file kfs) of
        Some kf \<Rightarrow> Inr (projr (load_master_key json_loads (ke_content kf) pw))
      | None \<Rightarrow> Inl (No_key_unlocked
          (rejected @ map ke_name (filter (rejects json_loads pw) (filter ke_is_file kfs)))
          (corrupt @ List.map_filter (damage json_loads pw) (filter ke_is_file kfs))))"
  using load_never_crashes
  by (induction json_loads pw kfs rejected corrupt rule: try_each.induct)
     (auto simp: verdict_defs map_filter_simps split: sum.splits key_error.splits option.splits)

section \<open>Properties\<close>


text \<open>
  C22. Limits on scrypt. Parameters are accepted exactly when all three are integers, the first a power of
  two from 2 on, the others positive, and the work and memory limits hold; the memory bound passed to
  the library is then enough for what scrypt needs and below the largest the library accepts. The
  parameters restic writes at its maximum are accepted.
\<close>

theorem scrypt_maxmem_spec:
  "(\<exists>mm. scrypt_maxmem jn jr jp = Some mm) =
     (\<exists>n r p. jn = J_int n \<and> jr = J_int r \<and> jp = J_int p \<and> (\<exists>k\<ge>1. n = 2 ^ k) \<and> 1 \<le> r \<and> 1 \<le> p \<and>
        n * r * p \<le> 2 ^ 25 \<and> 128 * r * (n + p + 3) \<le> 2 ^ 31) \<and>
   (case scrypt_maxmem (J_int n) (J_int r) (J_int p) of
      Some mm \<Rightarrow> 128 * r * (n + p + 2) \<le> mm \<and> 2 ^ 25 \<le> mm \<and> mm < 2 ^ 31 | None \<Rightarrow> True) \<and>
   scrypt_maxmem (J_int (2 ^ 20)) (J_int 8) (J_int 1) = Some (2 ^ 30 + 4096)"
proof -
  have work: "SCRYPT_MAX_WORK = 2 ^ 25" "SCRYPT_MAX_MEM = 2 ^ 31"
    by (simp_all add: SCRYPT_MAX_WORK_def SCRYPT_MAX_MEM_def)
  have exp: "2 \<le> n \<and> n AND (n - 1) = 0 \<longleftrightarrow> (\<exists>k\<ge>1. n = 2 ^ k)" for n :: int
  proof (cases "2 \<le> n")
    case False
    moreover have "(2 :: int) \<le> 2 ^ k" if "k \<ge> 1" for k :: nat using power_increasing [OF that, of "2 :: int"] by simp
    ultimately show ?thesis by auto
  qed (simp add: and_pred_int)
  have ok: "(\<exists>mm. scrypt_maxmem (J_int n) (J_int r) (J_int p) = Some mm) \<longleftrightarrow>
      (\<exists>k\<ge>1. n = 2 ^ k) \<and> 1 \<le> r \<and> 1 \<le> p \<and> n * r * p \<le> 2 ^ 25 \<and> 128 * r * (n + p + 3) \<le> 2 ^ 31" for n r p
    unfolding exp [symmetric] by (auto simp: scrypt_maxmem_def work not_less)
  have ints: "(\<exists>mm. scrypt_maxmem jn jr jp = Some mm) \<Longrightarrow> \<exists>n r p. jn = J_int n \<and> jr = J_int r \<and> jp = J_int p"
    by (auto simp: scrypt_maxmem_def split: json.splits)
  have "128 * r * (n + p + 2) = 128 * r * (n + p + 3) - 128 * r" by (simp add: algebra_simps)
  then have "case scrypt_maxmem (J_int n) (J_int r) (J_int p) of
      Some mm \<Rightarrow> 128 * r * (n + p + 2) \<le> mm \<and> 2 ^ 25 \<le> mm \<and> mm < 2 ^ 31 | None \<Rightarrow> True"
    by (auto simp: scrypt_maxmem_def work)
  moreover have "scrypt_maxmem (J_int (2 ^ 20)) (J_int 8) (J_int 1) = Some (2 ^ 30 + 4096)" by code_simp
  moreover have "(\<exists>mm. scrypt_maxmem jn jr jp = Some mm) =
     (\<exists>n r p. jn = J_int n \<and> jr = J_int r \<and> jp = J_int p \<and> (\<exists>k\<ge>1. n = 2 ^ k) \<and> 1 \<le> r \<and> 1 \<le> p \<and>
        n * r * p \<le> 2 ^ 25 \<and> 128 * r * (n + p + 3) \<le> 2 ^ 31)"
    using ints ok by blast
  ultimately show ?thesis by blast
qed

end
