(* ===== verification/Restic_Repo.thy ===== *)
theory Restic_Repo
  imports Restic_Keys
begin

text \<open>
  Reading a restic repository (\<open>PurePythonRestorer\<close> of \<open>restore/restic_fallback.py\<close>): index and snapshot
  files, the search for pack files with the prompt for another disc, and the reading of blobs.

  The files the reader sees are a view: the result of reading each path that is a file. Each line
  typed at the prompt comes with the view after the swap; the end of the list is the end of the
  input. \<open>json.loads\<close> and the zstd decoder are parameters: which decoder is used depends on the
  installation.
\<close>

unbundle bit_operations_syntax

section \<open>Data\<close>

text \<open>The exceptions, by the classes the callers distinguish.\<close>

datatype repo_error =
    Integrity_failed
  | Key_failed
  | Os_failed
  | Json_failed
  | Type_failed
  | Value_failed
  | Recursion_failed

text \<open>Values JSON can yield as dict keys: lists and dicts are not hashable.\<close>

fun hashable :: "json \<Rightarrow> bool" where
  "hashable (J_list _) = False"
| "hashable (J_dict _) = False"
| "hashable _ = True"

text \<open>\<open>doc.get(key, [])\<close> and the iteration over it; iterating a string yields its characters, a dict its
  keys.\<close>

fun is_dict :: "json \<Rightarrow> bool" where
  "is_dict (J_dict _) = True"
| "is_dict _ = False"

fun py_iter :: "json \<Rightarrow> (repo_error, json list) result" where
  "py_iter (J_list xs) = Inr xs"
| "py_iter (J_str s) = Inr (map (\<lambda>c. J_str [c]) s)"
| "py_iter (J_dict kvs) = Inr (map J_str (remdups (map fst kvs)))"
| "py_iter _ = Inl Type_failed"

definition get_list :: "json \<Rightarrow> string \<Rightarrow> (repo_error, json list) result" where
  "get_list doc k = (if is_dict doc then py_iter (get_default doc k (J_list [])) else Inl Type_failed)"

text \<open>\<open>doc[key]\<close>: KeyError for a missing key of a dict, TypeError for other values.\<close>

definition subscript :: "json \<Rightarrow> string \<Rightarrow> (repo_error, json) result" where
  "subscript doc k =
     (if is_dict doc then (case item doc k of None \<Rightarrow> Inl Key_failed | Some v \<Rightarrow> Inr v) else Inl Type_failed)"

record blob_location =
  bl_pack_id :: json
  bl_offset :: json
  bl_length :: json
  bl_blob_type :: json
  bl_uncompressed_length :: json

record snapshot_meta =
  sm_snapshot_id :: string
  sm_time :: json
  sm_tree :: json
  sm_paths :: json
  sm_hostname :: json
  sm_tags :: json

type_synonym view = "string \<Rightarrow> (os_error, bytes) result option"

record world =
  w_view :: view
  w_swaps :: "(string \<times> view) list"

record reader =
  rd_json :: json_reader
  rd_zstd :: "bytes \<Rightarrow> int \<Rightarrow> bytes option"
  rd_key :: master_key
  rd_index :: "(json \<times> blob_location) list"
  rd_roots :: "string list"
  rd_interactive :: bool
  rd_strict :: bool

section \<open>Decrypting files\<close>

definition ZSTD_MAGIC :: bytes where
  "ZSTD_MAGIC = [0x28, 0xB5, 0x2F, 0xFD]"

definition decrypt_blob :: "master_key \<Rightarrow> bytes \<Rightarrow> (repo_error, bytes) result" where
  "decrypt_blob mk encrypted =
     (case decrypt_authenticated (mk_encrypt mk) (mk_mac_k mk) (mk_mac_r mk) encrypted of
        Inl (Aes_failed _) \<Rightarrow> Inl Value_failed
      | Inl _ \<Rightarrow> Inl Integrity_failed
      | Inr d \<Rightarrow> Inr d)"

text \<open>The error of the decoder on a repository file is its own class, which no caller catches.\<close>

definition decrypt_file ::
  "(bytes \<Rightarrow> int \<Rightarrow> bytes option) \<Rightarrow> master_key \<Rightarrow> (os_error, bytes) result \<Rightarrow> (repo_error, bytes) result" where
  "decrypt_file zstd mk content =
     (case content of
        Inl _ \<Rightarrow> Inl Os_failed
      | Inr raw \<Rightarrow>
          rbind (decrypt_blob mk raw) (\<lambda>d.
          if length d > 5 \<and> take 4 (drop 1 d) = ZSTD_MAGIC then
            (case zstd (drop 1 d) 0 of None \<Rightarrow> Inl Value_failed | Some x \<Rightarrow> Inr x)
          else if length d > 1 \<and> hd d \<in> {0, 1, 2} then Inr (drop 1 d)
          else Inr d))"

definition read_json ::
  "json_reader \<Rightarrow> (bytes \<Rightarrow> int \<Rightarrow> bytes option) \<Rightarrow> master_key \<Rightarrow> (os_error, bytes) result \<Rightarrow> (repo_error, json) result" where
  "read_json json_loads zstd mk content =
     rbind (decrypt_file zstd mk content) (\<lambda>plain.
     case json_loads plain of None \<Rightarrow> Inl Json_failed | Some doc \<Rightarrow> Inr doc)"

section \<open>Index and snapshots\<close>

text \<open>A directory of repository files: the names, whether each is a file, and its content.\<close>

definition supersedes_of :: "json \<Rightarrow> (repo_error, json list) result" where
  "supersedes_of doc =
     rbind (get_list doc ''supersedes'') (\<lambda>xs. if list_all hashable xs then Inr xs else Inl Type_failed)"

definition index_blob :: "json \<Rightarrow> json \<Rightarrow> (json \<times> blob_location) list \<Rightarrow> (repo_error, (json \<times> blob_location) list) result" where
  "index_blob pack_id blob idx =
     rbind (subscript blob ''id'') (\<lambda>blob_id.
     rbind (subscript blob ''offset'') (\<lambda>off.
     rbind (subscript blob ''length'') (\<lambda>len.
     rbind (subscript blob ''type'') (\<lambda>ty.
     if \<not> hashable blob_id then Inl Type_failed
     else Inr (dict_put blob_id \<lparr>bl_pack_id = pack_id, bl_offset = off, bl_length = len, bl_blob_type = ty,
            bl_uncompressed_length = get_default blob ''uncompressed_length'' J_null\<rparr> idx)))))"

definition index_pack :: "json \<Rightarrow> (json \<times> blob_location) list \<Rightarrow> (repo_error, (json \<times> blob_location) list) result" where
  "index_pack pack_entry idx =
     rbind (subscript pack_entry ''id'') (\<lambda>pack_id.
     rbind (get_list pack_entry ''blobs'') (\<lambda>blobs.
     rfold (index_blob pack_id) blobs idx))"

definition index_doc :: "json set \<Rightarrow> string \<times> json \<Rightarrow> (json \<times> blob_location) list \<Rightarrow> (repo_error, (json \<times> blob_location) list) result" where
  "index_doc superseded nd idx =
     (case nd of (name, doc) \<Rightarrow>
        if J_str name \<in> superseded then Inr idx
        else rbind (get_list doc ''packs'') (\<lambda>ps. rfold index_pack ps idx))"

definition load_index ::
  "json_reader \<Rightarrow> (bytes \<Rightarrow> int \<Rightarrow> bytes option) \<Rightarrow> master_key \<Rightarrow> key_entry list option
     \<Rightarrow> (repo_error, (json \<times> blob_location) list) result" where
  "load_index json_loads zstd mk dir =
     (case dir of
        None \<Rightarrow> Inl Os_failed
      | Some entries \<Rightarrow>
          rbind (rmap (\<lambda>f. rbind (read_json json_loads zstd mk (ke_content f)) (\<lambda>doc.
                     rbind (supersedes_of doc) (\<lambda>sup. Inr (ke_name f, doc, sup))))
                   (filter ke_is_file (sort_key ke_name entries))) (\<lambda>docs.
          let superseded = set (concat (map (\<lambda>(_, _, sup). sup) docs)) in
          rfold (index_doc superseded) (map (\<lambda>(name, doc, _). (name, doc)) docs) []))"

definition read_snapshot ::
  "json_reader \<Rightarrow> (bytes \<Rightarrow> int \<Rightarrow> bytes option) \<Rightarrow> master_key \<Rightarrow> key_entry \<Rightarrow> (repo_error, snapshot_meta) result" where
  "read_snapshot json_loads zstd mk f =
     rbind (read_json json_loads zstd mk (ke_content f)) (\<lambda>doc.
     rbind (if is_dict doc then Inr () else Inl Type_failed) (\<lambda>_.
     rbind (subscript doc ''tree'') (\<lambda>tree.
     Inr \<lparr>sm_snapshot_id = ke_name f, sm_time = get_default doc ''time'' (J_str []), sm_tree = tree,
          sm_paths = get_default doc ''paths'' (J_list []), sm_hostname = get_default doc ''hostname'' (J_str []),
          sm_tags = get_default doc ''tags'' (J_list [])\<rparr>)))"

text \<open>The sort compares the times; values that are not all strings raise as soon as there are two.\<close>

fun str_of :: "json \<Rightarrow> string" where
  "str_of (J_str s) = s"
| "str_of _ = []"

fun is_str :: "json \<Rightarrow> bool" where
  "is_str (J_str _) = True"
| "is_str _ = False"

definition load_snapshots ::
  "json_reader \<Rightarrow> (bytes \<Rightarrow> int \<Rightarrow> bytes option) \<Rightarrow> master_key \<Rightarrow> key_entry list option
     \<Rightarrow> (repo_error, snapshot_meta list) result" where
  "load_snapshots json_loads zstd mk dir =
     (case dir of
        None \<Rightarrow> Inl Os_failed
      | Some entries \<Rightarrow>
          rbind (rmap (read_snapshot json_loads zstd mk) (filter ke_is_file (sort_key ke_name entries))) (\<lambda>snaps.
          if length snaps \<le> 1 \<or> list_all (\<lambda>s. is_str (sm_time s)) snaps
          then Inr (sort_key (\<lambda>s. str_of (sm_time s)) snaps) else Inl Type_failed))"

definition latest_snapshot :: "snapshot_meta list \<Rightarrow> (repo_error, snapshot_meta) result" where
  "latest_snapshot snaps = (if snaps = [] then Inl Value_failed else Inr (last snaps))"

definition find_snapshot :: "snapshot_meta list \<Rightarrow> string \<Rightarrow> (repo_error, snapshot_meta) result" where
  "find_snapshot snaps snapshot_id =
     (case find (\<lambda>s. sm_snapshot_id s = snapshot_id) snaps of
        Some s \<Rightarrow> Inr s
      | None \<Rightarrow>
          (case filter (\<lambda>s. starts_with (sm_snapshot_id s) snapshot_id) snaps of
             [s] \<Rightarrow> Inr s
           | _ \<Rightarrow> Inl Value_failed))"

section \<open>Finding packs\<close>

definition pack_candidates :: "string \<Rightarrow> string \<Rightarrow> string list" where
  "pack_candidates root pack_id =
     (let prefix = take 2 pack_id in
      [path_join (path_join root prefix) pack_id, path_join root pack_id,
       path_join (path_join (path_join root ''data'') prefix) pack_id, path_join (path_join root ''data'') pack_id])"

definition scan_pack_search_paths :: "string list \<Rightarrow> view \<Rightarrow> string \<Rightarrow> string option" where
  "scan_pack_search_paths roots v pack_id =
     find (\<lambda>p. v p \<noteq> None) (concat (map (\<lambda>root. pack_candidates root pack_id) roots))"

definition DISC_SWAP_MAX_RETRIES :: nat where "DISC_SWAP_MAX_RETRIES = 50"

fun swap_loop :: "nat \<Rightarrow> string list \<Rightarrow> string \<Rightarrow> world \<Rightarrow> string option \<times> world" where
  "swap_loop 0 roots pack_id w = (None, w)"
| "swap_loop (Suc n) roots pack_id w =
     (case w_swaps w of
        [] \<Rightarrow> (None, w)
      | (line, v) # rest \<Rightarrow>
          if line = [] then (None, w\<lparr>w_view := v, w_swaps := rest\<rparr>)
          else if py_lower (py_strip line) = ''q'' then (None, w\<lparr>w_view := v, w_swaps := rest\<rparr>)
          else case scan_pack_search_paths roots v pack_id of
            Some p \<Rightarrow> (Some p, w\<lparr>w_view := v, w_swaps := rest\<rparr>)
          | None \<Rightarrow> swap_loop n roots pack_id (w\<lparr>w_view := v, w_swaps := rest\<rparr>))"

definition find_pack_path :: "reader \<Rightarrow> json \<Rightarrow> world \<Rightarrow> (repo_error, string) result \<times> world" where
  "find_pack_path rd pack_id w =
     (if \<not> is_str pack_id then (Inl Type_failed, w)
      else
        case scan_pack_search_paths (rd_roots rd) (w_view w) (str_of pack_id) of
          Some p \<Rightarrow> (Inr p, w)
        | None \<Rightarrow>
            if \<not> rd_interactive rd then (Inl Os_failed, w)
            else (case swap_loop DISC_SWAP_MAX_RETRIES (rd_roots rd) (str_of pack_id) w of
                    (Some p, w') \<Rightarrow> (Inr p, w')
                  | (None, w') \<Rightarrow> (Inl Os_failed, w')))"

section \<open>Reading blobs\<close>

definition hex_digit :: "nat \<Rightarrow> char" where
  "hex_digit n = ''0123456789abcdef'' ! (n mod 16)"

definition hexdigest :: "bytes \<Rightarrow> string" where
  "hexdigest bs = concat (map (\<lambda>b. [hex_digit (unat b div 16), hex_digit (unat b)]) bs)"

text \<open>Integers where Python takes one: a bool counts as 0 or 1.\<close>

fun as_int :: "json \<Rightarrow> int option" where
  "as_int (J_int n) = Some n"
| "as_int (J_bool b) = Some (if b then 1 else 0)"
| "as_int _ = None"

text \<open>\<open>f.seek(offset); f.read(length)\<close>: a negative offset is an OSError, a negative length or None reads
  to the end.\<close>

definition read_range :: "bytes \<Rightarrow> json \<Rightarrow> json \<Rightarrow> (repo_error, bytes) result" where
  "read_range content off len =
     (case as_int off of
        None \<Rightarrow> Inl Type_failed
      | Some o' \<Rightarrow>
          if o' < 0 then Inl Os_failed
          else if len = J_null then Inr (drop (nat o') content)
          else (case as_int len of
                  None \<Rightarrow> Inl Type_failed
                | Some n \<Rightarrow> Inr (if n < 0 then drop (nat o') content else take (nat n) (drop (nat o') content))))"

definition decompress_blob :: "reader \<Rightarrow> json \<Rightarrow> blob_location \<Rightarrow> bytes \<Rightarrow> (repo_error, bytes) result" where
  "decompress_blob rd blob_id loc plain =
     (if bl_uncompressed_length loc \<noteq> J_null then
        (case as_int (bl_uncompressed_length loc) of
           None \<Rightarrow> Inl Type_failed
         | Some n \<Rightarrow> (case rd_zstd rd plain n of None \<Rightarrow> Inl Integrity_failed | Some x \<Rightarrow> Inr x))
      else if take 4 plain = ZSTD_MAGIC \<and> J_str (hexdigest (sha256 plain)) \<noteq> blob_id then
        (case rd_zstd rd plain (int (length plain) * 20) of None \<Rightarrow> Inl Integrity_failed | Some x \<Rightarrow> Inr x)
      else Inr plain)"

definition open_blob :: "reader \<Rightarrow> json \<Rightarrow> blob_location \<Rightarrow> (os_error, bytes) result option \<Rightarrow> (repo_error, bytes) result" where
  "open_blob rd blob_id loc file =
     (case file of
        Some (Inr content) \<Rightarrow>
          rbind (read_range content (bl_offset loc) (bl_length loc)) (\<lambda>encrypted.
          rbind (decrypt_blob (rd_key rd) encrypted) (\<lambda>plain.
          rbind (decompress_blob rd blob_id loc plain) (\<lambda>plain.
          if J_str (hexdigest (sha256 plain)) \<noteq> blob_id then Inl Integrity_failed else Inr plain)))
      | _ \<Rightarrow> Inl Os_failed)"

definition read_blob :: "reader \<Rightarrow> json \<Rightarrow> world \<Rightarrow> (repo_error, bytes) result \<times> world" where
  "read_blob rd blob_id w =
     (if \<not> hashable blob_id then (Inl Type_failed, w)
      else case map_of (rd_index rd) blob_id of
        None \<Rightarrow> (Inl Key_failed, w)
      | Some loc \<Rightarrow>
          (case find_pack_path rd (bl_pack_id loc) w of
             (Inl e, w') \<Rightarrow> (Inl e, w')
           | (Inr p, w') \<Rightarrow> (open_blob rd blob_id loc (w_view w' p), w')))"

section \<open>Lemmas: the index\<close>

text \<open>What an index document lists, read without the error cases.\<close>

definition seq_of :: "json \<Rightarrow> string \<Rightarrow> json list" where
  "seq_of doc k = (case get_list doc k of Inl _ \<Rightarrow> [] | Inr xs \<Rightarrow> xs)"

definition blob_entry :: "json \<Rightarrow> json \<Rightarrow> json \<times> blob_location" where
  "blob_entry pack_id b =
     (the (item b ''id''),
      \<lparr>bl_pack_id = pack_id, bl_offset = the (item b ''offset''), bl_length = the (item b ''length''),
       bl_blob_type = the (item b ''type''), bl_uncompressed_length = get_default b ''uncompressed_length'' J_null\<rparr>)"

definition pack_entries :: "json \<Rightarrow> (json \<times> blob_location) list" where
  "pack_entries p = map (blob_entry (the (item p ''id''))) (seq_of p ''blobs'')"

definition doc_entries :: "json \<Rightarrow> (json \<times> blob_location) list" where
  "doc_entries doc = concat (map pack_entries (seq_of doc ''packs''))"

lemma subscript_Inr: "subscript doc k = Inr v \<longleftrightarrow> item doc k = Some v"
  by (cases doc) (auto simp: subscript_def split: option.splits)

text \<open>A dict built by assignments, as a map: later assignments win.\<close>

definition built :: "('k \<times> 'x) list \<Rightarrow> ('k \<times> 'x) list \<Rightarrow> ('k \<times> 'x) list \<Rightarrow> bool" where
  "built es idx idx' \<longleftrightarrow> map_of idx' = map_of idx ++ map_of (rev es) \<and>
     (distinct (map fst idx) \<longrightarrow> distinct (map fst idx'))"

lemma built_Nil: "built [] idx idx"
  by (simp add: built_def)

lemma built_append: "built es idx idx1 \<Longrightarrow> built es' idx1 idx2 \<Longrightarrow> built (es @ es') idx idx2"
  by (simp add: built_def)

lemma built_rfold:
  assumes "rfold f xs idx = Inr idx'" "\<And>x i i'. x \<in> set xs \<Longrightarrow> f x i = Inr i' \<Longrightarrow> built (g x) i i'"
  shows "built (concat (map g xs)) idx idx'"
  using assms
proof (induction xs arbitrary: idx)
  case Nil
  then show ?case by (simp add: built_Nil)
next
  case (Cons x xs)
  then obtain i where "f x idx = Inr i" "rfold f xs i = Inr idx'" by (auto elim: rbind_eq_InrE)
  then show ?case using Cons.IH Cons.prems(2) by (auto intro!: built_append)
qed

lemma built_index_blob: "index_blob pack_id b idx = Inr idx' \<Longrightarrow> built [blob_entry pack_id b] idx idx'"
  by (auto simp: index_blob_def rbind_eq_Inr subscript_Inr built_def blob_entry_def map_of_dict_put distinct_dict_put
      split: if_splits)

lemma built_index_pack: "index_pack p idx = Inr idx' \<Longrightarrow> built (pack_entries p) idx idx'"
  unfolding index_pack_def rbind_eq_Inr subscript_Inr
  by (auto simp: pack_entries_def seq_of_def dest!: built_rfold [where g = "\<lambda>b. [blob_entry (the (item p ''id'')) b]"]
      intro: built_index_blob)

lemma built_index_doc:
  "index_doc superseded nd idx = Inr idx' \<Longrightarrow>
     built (if J_str (fst nd) \<in> superseded then [] else doc_entries (snd nd)) idx idx'"
  unfolding index_doc_def
  by (auto simp: doc_entries_def seq_of_def built_Nil rbind_eq_Inr split: prod.splits if_splits
      dest!: built_rfold [where g = pack_entries] intro: built_index_pack)

section \<open>Lemmas: sealed data\<close>

lemma seal_opens:
  assumes "key_lengths_ok mk" "length iv = 16" "plain \<noteq> []"
  obtains sealed where "seal mk iv plain = Inr sealed" "decrypt_blob mk sealed = Inr plain"
    "length sealed = length plain + 32"
proof -
  obtain C where C: "\<And>x. aes_ctr (mk_encrypt mk) iv x = Inr (C x)" "\<And>x. length (C x) = length x" "\<And>x. C (C x) = x"
    using ctr_involution [OF _ assms(2)] assms(1) unfolding key_lengths_ok_def by blast
  obtain rk where rk: "key_schedule (mk_mac_k mk) = Inr rk" "aes_encrypt_block iv rk = Inr (cipher rk iv)"
    using aes_total [of "mk_mac_k mk"] assms(1,2) unfolding key_lengths_ok_def by metis
  have ne: "C plain \<noteq> []" using C(2) [of plain] assms(3) by auto
  show ?thesis
    by (rule that [of "iv @ C plain @ poly1305_mac (mk_mac_r mk) (cipher rk iv) (C plain)"])
      (use C rk assms(2) ne in \<open>simp_all add: seal_def lift_aes_def decrypt_blob_def decrypt_parts\<close>)
qed

lemma decrypt_blob_seal:
  assumes "key_lengths_ok mk" "length iv = 16" "plain \<noteq> []" "seal mk iv plain = Inr sealed"
  shows "decrypt_blob mk sealed = Inr plain" "length sealed = length plain + 32"
  by (rule seal_opens [OF assms(1-3)], simp add: assms(4))+

section \<open>Lemmas: the search for packs\<close>

lemma scan_Some:
  "scan_pack_search_paths roots v pack_id = Some p \<Longrightarrow>
     v p \<noteq> None \<and> (\<exists>root\<in>set roots. p \<in> set (pack_candidates root pack_id))"
  unfolding scan_pack_search_paths_def find_Some_iff by (metis (no_types, lifting) UN_E nth_mem set_concat set_map image_iff)

text \<open>A prompt is answered by a line that is neither empty nor a \<open>q\<close>.\<close>

definition goes_on :: "string \<Rightarrow> bool" where
  "goes_on line \<longleftrightarrow> line \<noteq> [] \<and> py_lower (py_strip line) \<noteq> ''q''"

lemma swap_loop_consumes:
  "\<exists>k \<le> n. w_swaps (snd (swap_loop n roots pack_id w)) = drop k (w_swaps w)"
proof (induction n roots pack_id w rule: swap_loop.induct)
  case (2 n roots pack_id w)
  show ?case
  proof (cases "w_swaps w")
    case (Cons s rest)
    obtain line v where s: "s = (line, v)" by (cases s)
    show ?thesis
    proof (cases "goes_on line \<and> scan_pack_search_paths roots v pack_id = None")
      case True
      then obtain k where "k \<le> n"
        "w_swaps (snd (swap_loop n roots pack_id (w\<lparr>w_view := v, w_swaps := rest\<rparr>))) = drop k rest"
        using "2.IH" [OF Cons s [symmetric]] by (auto simp: goes_on_def)
      then show ?thesis using True by (intro exI [of _ "Suc k"]) (simp add: Cons s goes_on_def)
    next
      case False
      then show ?thesis
        by (intro exI [of _ 1]) (auto simp: Cons s goes_on_def split: option.splits)
    qed
  qed auto
qed auto

lemma swap_loop_found:
  "swap_loop n roots pack_id w = (Some p, w') \<Longrightarrow> scan_pack_search_paths roots (w_view w') pack_id = Some p"
  by (induction n roots pack_id w rule: swap_loop.induct) (auto split: list.splits prod.splits if_splits option.splits)

lemma swap_loop_live:
  assumes "k < n" "k < length (w_swaps w)" "list_all (\<lambda>(line, _). goes_on line) (take (Suc k) (w_swaps w))"
    and "scan_pack_search_paths roots (snd (w_swaps w ! k)) pack_id \<noteq> None"
  shows "\<exists>p w'. swap_loop n roots pack_id w = (Some p, w') \<and> (\<exists>j \<le> Suc k. w_swaps w' = drop j (w_swaps w))"
  using assms
proof (induction n roots pack_id w arbitrary: k rule: swap_loop.induct)
  case (2 n roots pack_id w)
  then obtain line v rest where s: "w_swaps w = (line, v) # rest" by (cases "w_swaps w") auto
  let ?w = "w\<lparr>w_view := v, w_swaps := rest\<rparr>"
  have line: "line \<noteq> []" "py_lower (py_strip line) \<noteq> ''q''" using "2.prems"(3) by (auto simp: s goes_on_def)
  show ?case
  proof (cases "scan_pack_search_paths roots v pack_id")
    case None
    then obtain k' where k: "k = Suc k'" using "2.prems"(4) by (cases k) (auto simp: s)
    have "\<exists>p w'. swap_loop n roots pack_id ?w = (Some p, w') \<and> (\<exists>j \<le> Suc k'. w_swaps w' = drop j (w_swaps ?w))"
      by (rule "2.IH" [OF s refl line None, of k']) (use "2.prems" in \<open>auto simp: s k\<close>)
    then obtain p w' j where "swap_loop n roots pack_id ?w = (Some p, w')" "j \<le> Suc k'" "w_swaps w' = drop j rest" by auto
    then show ?thesis using line None by (intro exI [of _ p] exI [of _ w'] conjI exI [of _ "Suc j"]) (simp_all add: s k)
  next
    case (Some p)
    then show ?thesis using line
      by (intro exI [of _ p] exI [of _ ?w] conjI exI [of _ 1]) (simp_all add: s)
  qed
qed simp

section \<open>Properties\<close>

text \<open>The documents of the index files in the order of their names, and the file names they supersede.\<close>

definition index_docs ::
  "json_reader \<Rightarrow> (bytes \<Rightarrow> int \<Rightarrow> bytes option) \<Rightarrow> master_key \<Rightarrow> key_entry list \<Rightarrow> (repo_error, (string \<times> json) list) result" where
  "index_docs json_loads zstd mk entries =
     rmap (\<lambda>f. rbind (read_json json_loads zstd mk (ke_content f)) (\<lambda>doc. Inr (ke_name f, doc)))
       (filter ke_is_file (sort_key ke_name entries))"

definition current_docs :: "(string \<times> json) list \<Rightarrow> (string \<times> json) list" where
  "current_docs docs =
     filter (\<lambda>(name, _). \<forall>(_, doc)\<in>set docs. J_str name \<notin> set (seq_of doc ''supersedes'')) docs"

lemma index_docs_read:
  assumes "rmap (\<lambda>f. rbind (read_json json_loads zstd mk (ke_content f)) (\<lambda>doc.
      rbind (supersedes_of doc) (\<lambda>sup. Inr (ke_name f, doc, sup)))) fs = Inr docs"
  shows "rmap (\<lambda>f. rbind (read_json json_loads zstd mk (ke_content f)) (\<lambda>doc. Inr (ke_name f, doc))) fs =
      Inr (map (\<lambda>(name, doc, _). (name, doc)) docs) \<and>
    (\<forall>(name, doc, sup)\<in>set docs. sup = seq_of doc ''supersedes'')"
  using assms
  by (induction fs arbitrary: docs) (auto simp: rbind_eq_Inr supersedes_of_def seq_of_def split: if_splits)

lemma concat_map_if: "concat (map (\<lambda>x. if P x then [] else g x) xs) = concat (map g (filter (\<lambda>x. \<not> P x) xs))"
  by (induction xs) auto

lemma load_index_built:
  assumes "load_index json_loads zstd mk (Some entries) = Inr idx"
  obtains docs where "index_docs json_loads zstd mk entries = Inr docs"
    "built (concat (map (\<lambda>(_, doc). doc_entries doc) (current_docs docs))) [] idx"
proof -
  obtain docs3 where d: "rmap (\<lambda>f. rbind (read_json json_loads zstd mk (ke_content f)) (\<lambda>doc.
        rbind (supersedes_of doc) (\<lambda>sup. Inr (ke_name f, doc, sup)))) (filter ke_is_file (sort_key ke_name entries)) = Inr docs3"
      and r: "rfold (index_doc (set (concat (map (\<lambda>(_, _, sup). sup) docs3)))) (map (\<lambda>(name, doc, _). (name, doc)) docs3) [] = Inr idx"
    using assms by (auto simp: load_index_def Let_def elim!: rbind_eq_InrE)
  let ?docs = "map (\<lambda>(name, doc, _). (name, doc)) docs3"
  let ?S = "set (concat (map (\<lambda>(_, _, sup). sup) docs3))"
  note docs = index_docs_read [OF d]
  have S: "x \<in> ?S \<longleftrightarrow> (\<exists>(_, doc)\<in>set ?docs. x \<in> set (seq_of doc ''supersedes''))" for x
  proof -
    have "snd (snd t) = seq_of (fst (snd t)) ''supersedes''" if "t \<in> set docs3" for t using docs that by (cases t) auto
    then have "x \<in> ?S \<longleftrightarrow> (\<exists>t\<in>set docs3. x \<in> set (seq_of (fst (snd t)) ''supersedes''))"
      by (simp add: case_prod_unfold)
    then show ?thesis by (simp add: case_prod_unfold)
  qed
  have "built (concat (map (\<lambda>nd. if J_str (fst nd) \<in> ?S then [] else doc_entries (snd nd)) ?docs)) [] idx"
    by (rule built_rfold [OF r]) (rule built_index_doc)
  then have "built (concat (map (\<lambda>nd. doc_entries (snd nd)) (filter (\<lambda>nd. J_str (fst nd) \<notin> ?S) ?docs))) [] idx"
    by (simp only: concat_map_if)
  moreover have "filter (\<lambda>nd. J_str (fst nd) \<notin> ?S) ?docs = current_docs ?docs"
    unfolding current_docs_def S by (rule filter_cong) auto
  ultimately show ?thesis using docs by (intro that [of ?docs]) (simp_all add: index_docs_def case_prod_unfold)
qed

text \<open>
  C25. The blob index. Loading the index is the map in which a blob id leads to its last entry, over the
  documents in the order of the file names and without the files that some document (itself
  superseded or not) names as superseded; each blob id occurs once.
\<close>

theorem load_index_spec:
  assumes "load_index json_loads zstd mk dir = Inr idx"
  shows "\<exists>entries docs. dir = Some entries \<and> index_docs json_loads zstd mk entries = Inr docs \<and>
     distinct (map fst idx) \<and>
     map_of idx = map_of (rev (concat (map (\<lambda>(_, doc). doc_entries doc) (current_docs docs))))"
proof -
  obtain entries where e: "dir = Some entries" using assms by (cases dir) (auto simp: load_index_def)
  obtain docs where "index_docs json_loads zstd mk entries = Inr docs"
    "built (concat (map (\<lambda>(_, doc). doc_entries doc) (current_docs docs))) [] idx"
    using load_index_built assms unfolding e by metis
  then show ?thesis using e by (auto simp: built_def)
qed

text \<open>Two index files that list the same blob; the first one is superseded.\<close>

definition sample_key :: master_key where
  "sample_key = \<lparr>mk_encrypt = replicate 32 1, mk_mac_k = replicate 16 2, mk_mac_r = replicate 16 3\<rparr>"

definition sample_doc :: "string list \<Rightarrow> string \<Rightarrow> json" where
  "sample_doc supersedes pack =
     J_dict [(''supersedes'', J_list (map J_str supersedes)), (''packs'', J_list [J_dict [(''id'', J_str pack), (''blobs'',
       J_list [J_dict [(''id'', J_str ''b''), (''type'', J_str ''data''), (''offset'', J_int 0), (''length'', J_int 40)]])]])]"

definition sample_json :: json_reader where
  "sample_json plain = (if plain = [5, 6] then Some (sample_doc [] ''p'') else if plain = [7, 8] then Some (sample_doc [''x''] ''q'') else None)"

lemma sample_key_ok: "key_lengths_ok sample_key"
  by (simp add: key_lengths_ok_def sample_key_def)

theorem load_index_spec_witness:
  "\<exists>entries idx. load_index sample_json (\<lambda>_ _. None) sample_key (Some entries) = Inr idx \<and> length entries = 2 \<and>
     map_option bl_pack_id (map_of idx (J_str ''b'')) = Some (J_str ''q'') \<and> distinct (map fst idx)"
proof -
  obtain x where x: "decrypt_blob sample_key x = Inr [5, 6]"
    by (rule seal_opens [OF sample_key_ok, of "replicate 16 0" "[5, 6]"]) simp_all
  obtain y where y: "decrypt_blob sample_key y = Inr [7, 8]"
    by (rule seal_opens [OF sample_key_ok, of "replicate 16 0" "[7, 8]"]) simp_all
  let ?es = "[\<lparr>ke_name = ''x'', ke_is_file = True, ke_content = Inr x\<rparr>, \<lparr>ke_name = ''y'', ke_is_file = True, ke_content = Inr y\<rparr>]"
  have sorted: "sort_key ke_name ?es = ?es" by simp
  obtain idx where idx: "load_index sample_json (\<lambda>_ _. None) sample_key (Some ?es) = Inr idx"
    by (simp add: load_index_def read_json_def decrypt_file_def x y sample_json_def sample_doc_def supersedes_of_def
        get_list_def get_default_def index_doc_def index_pack_def index_blob_def subscript_def Let_def sorted)
  obtain docs where docs: "index_docs sample_json (\<lambda>_ _. None) sample_key ?es = Inr docs" "distinct (map fst idx)"
    "map_of idx = map_of (rev (concat (map (\<lambda>(_, doc). doc_entries doc) (current_docs docs))))"
    using load_index_spec [OF idx] by auto
  have "docs = [(''x'', sample_doc [] ''p''), (''y'', sample_doc [''x''] ''q'')]"
    using docs(1) by (simp add: index_docs_def read_json_def decrypt_file_def x y sample_json_def)
  then have "map_option bl_pack_id (map_of idx (J_str ''b'')) = Some (J_str ''q'')"
    by (simp add: docs(3) current_docs_def sample_doc_def seq_of_def get_list_def get_default_def doc_entries_def
        pack_entries_def blob_entry_def)
  then show ?thesis using idx docs(2) by (intro exI [of _ ?es] exI [of _ idx]) simp
qed

lemma find_pack_path_world:
  "\<exists>k \<le> DISC_SWAP_MAX_RETRIES. w_swaps (snd (find_pack_path rd pack_id w)) = drop k (w_swaps w)"
  "\<not> rd_interactive rd \<Longrightarrow> snd (find_pack_path rd pack_id w) = w"
  using swap_loop_consumes [of DISC_SWAP_MAX_RETRIES "rd_roots rd" "str_of pack_id" w]
  by (auto simp: find_pack_path_def split: option.splits prod.splits intro: exI [of _ 0])

lemma snd_read_blob:
  "snd (read_blob rd blob_id w) =
     (case map_of (rd_index rd) blob_id of
        Some loc \<Rightarrow> if hashable blob_id then snd (find_pack_path rd (bl_pack_id loc) w) else w
      | None \<Rightarrow> w)"
  by (auto simp: read_blob_def split: option.splits prod.splits sum.splits)

lemma read_blob_world:
  "\<exists>k \<le> DISC_SWAP_MAX_RETRIES. w_swaps (snd (read_blob rd blob_id w)) = drop k (w_swaps w)"
  "\<not> rd_interactive rd \<Longrightarrow> snd (read_blob rd blob_id w) = w"
  using find_pack_path_world [of rd _ w] unfolding snd_read_blob
  by (auto split: option.splits intro: exI [of _ 0])

lemma open_blob_hash: "open_blob rd blob_id loc f = Inr d \<Longrightarrow> blob_id = J_str (hexdigest (sha256 d))"
  by (auto simp: open_blob_def rbind_eq_Inr split: option.splits sum.splits if_splits)

lemma read_blob_hash: "read_blob rd blob_id w = (Inr d, w') \<Longrightarrow> blob_id = J_str (hexdigest (sha256 d))"
  by (auto simp: read_blob_def split: if_splits option.splits prod.splits sum.splits dest: open_blob_hash)

text \<open>
  C24. Reading a blob. Whatever the discs hold, the bytes returned have the SHA-256 digest the blob id
  names; at most 50 lines are read from the operator, in order, and none without interaction.
\<close>

theorem read_blob_spec:
  "(case fst (read_blob rd blob_id w) of
      Inl _ \<Rightarrow> True
    | Inr d \<Rightarrow> blob_id = J_str (hexdigest (sha256 d)) \<and> map_of (rd_index rd) blob_id \<noteq> None) \<and>
   (\<exists>k \<le> 50. w_swaps (snd (read_blob rd blob_id w)) = drop k (w_swaps w)) \<and>
   (rd_interactive rd \<or> snd (read_blob rd blob_id w) = w)"
proof (intro conjI)
  show "case fst (read_blob rd blob_id w) of Inl _ \<Rightarrow> True
    | Inr d \<Rightarrow> blob_id = J_str (hexdigest (sha256 d)) \<and> map_of (rd_index rd) blob_id \<noteq> None"
    using read_blob_hash [of rd blob_id w]
    by (cases "read_blob rd blob_id w") (auto simp: read_blob_def split: sum.splits option.splits if_splits)
  show "\<exists>k\<le>50. w_swaps (snd (read_blob rd blob_id w)) = drop k (w_swaps w)"
    using read_blob_world(1) [of rd blob_id w] by (simp add: DISC_SWAP_MAX_RETRIES_def)
  show "rd_interactive rd \<or> snd (read_blob rd blob_id w) = w" using read_blob_world(2) by blast
qed

lemma find_pack_path_hit:
  assumes "root \<in> set (rd_roots rd)" "p \<in> set (pack_candidates root pack_id)" "w_view w p \<noteq> None"
  shows "\<exists>q. find_pack_path rd (J_str pack_id) w = (Inr q, w) \<and> w_view w q \<noteq> None"
proof -
  have "scan_pack_search_paths (rd_roots rd) (w_view w) pack_id \<noteq> None"
    using assms unfolding scan_pack_search_paths_def find_None_iff by auto
  then obtain q where q: "scan_pack_search_paths (rd_roots rd) (w_view w) pack_id = Some q" by auto
  then show ?thesis using scan_Some [OF q] by (auto simp: find_pack_path_def)
qed

text \<open>How a pack file stores a blob: sealed, after compression if the index entry has a length for it.\<close>

definition stored :: "reader \<Rightarrow> blob_location \<Rightarrow> bytes \<Rightarrow> bytes \<Rightarrow> bool" where
  "stored rd loc plain content \<longleftrightarrow>
     (\<exists>pre iv body sealed post.
        content = pre @ sealed @ post \<and> length iv = 16 \<and> body \<noteq> [] \<and> seal (rd_key rd) iv body = Inr sealed \<and>
        bl_offset loc = J_int (int (length pre)) \<and> bl_length loc = J_int (int (length sealed)) \<and>
        (if bl_uncompressed_length loc = J_null then body = plain
         else \<exists>n. bl_uncompressed_length loc = J_int n \<and> rd_zstd rd body n = Some plain))"

lemma open_blob_stored:
  assumes "key_lengths_ok (rd_key rd)" "stored rd loc plain content"
  shows "open_blob rd (J_str (hexdigest (sha256 plain))) loc (Some (Inr content)) = Inr plain"
proof -
  obtain pre iv body sealed post where c: "content = pre @ sealed @ post" and iv: "length iv = 16" "body \<noteq> []"
    "seal (rd_key rd) iv body = Inr sealed" and off: "bl_offset loc = J_int (int (length pre))"
    "bl_length loc = J_int (int (length sealed))"
    and z: "if bl_uncompressed_length loc = J_null then body = plain
         else \<exists>n. bl_uncompressed_length loc = J_int n \<and> rd_zstd rd body n = Some plain"
    using assms(2) unfolding stored_def by blast
  have "decrypt_blob (rd_key rd) sealed = Inr body" by (rule decrypt_blob_seal(1) [OF assms(1) iv])
  moreover have "read_range content (bl_offset loc) (bl_length loc) = Inr sealed" by (simp add: read_range_def off c)
  moreover have "decompress_blob rd (J_str (hexdigest (sha256 plain))) loc body = Inr plain"
    using z by (auto simp: decompress_blob_def split: if_splits)
  ultimately show ?thesis by (simp add: open_blob_def)
qed

text \<open>
  C23. A stored blob is read back. If the index leads to a pack that is somewhere on the search paths, and
  every copy of it there holds the blob sealed at the given place (compressed or not, even if the raw
  bytes begin like a zstd frame), then reading gives the blob back without asking the operator.
\<close>

theorem read_blob_roundtrip:
  assumes "key_lengths_ok (rd_key rd)"
    and "map_of (rd_index rd) (J_str (hexdigest (sha256 plain))) = Some loc" "bl_pack_id loc = J_str pack_id"
    and "\<exists>root\<in>set (rd_roots rd). \<exists>p\<in>set (pack_candidates root pack_id). w_view w p \<noteq> None"
    and "\<And>root p f. root \<in> set (rd_roots rd) \<Longrightarrow> p \<in> set (pack_candidates root pack_id) \<Longrightarrow> w_view w p = Some f \<Longrightarrow>
          \<exists>content. f = Inr content \<and> stored rd loc plain content"
  shows "read_blob rd (J_str (hexdigest (sha256 plain))) w = (Inr plain, w)"
proof -
  obtain q where q: "find_pack_path rd (J_str pack_id) w = (Inr q, w)"
    using find_pack_path_hit assms(4) by meson
  then have scan: "scan_pack_search_paths (rd_roots rd) (w_view w) pack_id = Some q"
    by (auto simp: find_pack_path_def split: option.splits if_splits prod.splits dest: swap_loop_found)
  then obtain root f where "root \<in> set (rd_roots rd)" "q \<in> set (pack_candidates root pack_id)" "w_view w q = Some f"
    using scan_Some by blast
  then obtain content where "w_view w q = Some (Inr content)" "stored rd loc plain content" using assms(5) by blast
  then show ?thesis using q assms(2,3) open_blob_stored [OF assms(1)] by (simp add: read_blob_def)
qed

definition sample_loc :: blob_location where
  "sample_loc = \<lparr>bl_pack_id = J_str ''abcd'', bl_offset = J_int 2, bl_length = J_int 34, bl_blob_type = J_str ''data'',
     bl_uncompressed_length = J_null\<rparr>"

definition sample_reader :: "blob_location \<Rightarrow> string \<Rightarrow> bool \<Rightarrow> reader" where
  "sample_reader loc blob_id interactive =
     \<lparr>rd_json = sample_json, rd_zstd = (\<lambda>_ _. None), rd_key = sample_key, rd_index = [(J_str blob_id, loc)],
      rd_roots = [''/mnt''], rd_interactive = interactive, rd_strict = False\<rparr>"

definition on_disc :: "string \<Rightarrow> (os_error, bytes) result \<Rightarrow> view" where
  "on_disc path content p = (if p = path then Some content else None)"

theorem read_blob_roundtrip_witness:
  "\<exists>sealed. let blob_id = hexdigest (sha256 [5, 6]);
       w = \<lparr>w_view = on_disc ''/mnt/data/ab/abcd'' (Inr ([0, 0] @ sealed @ [1])), w_swaps = []\<rparr>
     in read_blob (sample_reader sample_loc blob_id True) (J_str blob_id) w = (Inr [5, 6], w)"
proof -
  obtain sealed where sealed: "seal sample_key (replicate 16 0) [5, 6] = Inr sealed" "length sealed = length [5, 6 :: byte] + 32"
    by (rule seal_opens [OF sample_key_ok, of "replicate 16 0" "[5, 6]"]) simp_all
  define w where "w = \<lparr>w_view = on_disc ''/mnt/data/ab/abcd'' (Inr ([0, 0] @ sealed @ [1])), w_swaps = []\<rparr>"
  define rd where "rd = sample_reader sample_loc (hexdigest (sha256 [5, 6])) True"
  have st: "stored rd sample_loc [5, 6] ([0, 0] @ sealed @ [1])"
    unfolding stored_def
    by (rule exI [of _ "[0, 0]"], rule exI [of _ "replicate 16 0"], rule exI [of _ "[5, 6]"], rule exI [of _ sealed],
        rule exI [of _ "[1]"]) (simp add: sealed rd_def sample_reader_def sample_loc_def)
  have cand: "''/mnt/data/ab/abcd'' \<in> set (pack_candidates ''/mnt'' ''abcd'')"
    by (simp add: pack_candidates_def path_join_def Let_def)
  have "read_blob rd (J_str (hexdigest (sha256 [5, 6]))) w = (Inr [5, 6], w)"
  proof (rule read_blob_roundtrip)
    show "key_lengths_ok (rd_key rd)" using sample_key_ok by (simp add: rd_def sample_reader_def)
    show "map_of (rd_index rd) (J_str (hexdigest (sha256 [5, 6]))) = Some sample_loc" by (simp add: rd_def sample_reader_def)
    show "bl_pack_id sample_loc = J_str ''abcd''" by (simp add: sample_loc_def)
    show "\<exists>root\<in>set (rd_roots rd). \<exists>p\<in>set (pack_candidates root ''abcd''). w_view w p \<noteq> None"
      using cand by (force simp: rd_def sample_reader_def w_def on_disc_def)
    show "\<exists>content. f = Inr content \<and> stored rd sample_loc [5, 6] content" if "w_view w p = Some f" for root p f
      using that st by (auto simp: w_def on_disc_def split: if_splits)
  qed
  then show ?thesis unfolding rd_def w_def Let_def by blast
qed

text \<open>
  C26. Swapping discs. An operator who answers the prompts (no end of input, no \<open>q\<close>) and puts a disc with
  the pack in the drive within the first 50 prompts gets the pack: the search ends with a path that
  is a file then, and has read no line after the one for that disc.
\<close>

theorem disc_swap_live:
  assumes "rd_interactive rd" "k < 50" "k < length (w_swaps w)"
    and "list_all (\<lambda>(line, _). goes_on line) (take (Suc k) (w_swaps w))"
    and "root \<in> set (rd_roots rd)" "p \<in> set (pack_candidates root pack_id)" "snd (w_swaps w ! k) p \<noteq> None"
  shows "\<exists>q w' j. find_pack_path rd (J_str pack_id) w = (Inr q, w') \<and> w_view w' q \<noteq> None \<and>
     j \<le> Suc k \<and> w_swaps w' = drop j (w_swaps w)"
proof (cases "scan_pack_search_paths (rd_roots rd) (w_view w) pack_id")
  case None
  have "scan_pack_search_paths (rd_roots rd) (snd (w_swaps w ! k)) pack_id \<noteq> None"
    using assms(5-7) unfolding scan_pack_search_paths_def find_None_iff by auto
  then obtain q w' j where q: "swap_loop DISC_SWAP_MAX_RETRIES (rd_roots rd) pack_id w = (Some q, w')"
    "j \<le> Suc k" "w_swaps w' = drop j (w_swaps w)"
    using swap_loop_live [of k DISC_SWAP_MAX_RETRIES w] assms(2-4) unfolding DISC_SWAP_MAX_RETRIES_def by blast
  have "w_view w' q \<noteq> None" using scan_Some [OF swap_loop_found [OF q(1)]] by blast
  then show ?thesis using q None assms(1) by (intro exI [of _ q] exI [of _ w'] exI [of _ j]) (simp add: find_pack_path_def)
next
  case (Some q)
  then show ?thesis using scan_Some [OF Some]
    by (intro exI [of _ q] exI [of _ w] exI [of _ 0]) (simp add: find_pack_path_def)
qed

theorem disc_swap_live_witness:
  "let w = \<lparr>w_view = (\<lambda>_. None),
            w_swaps = [([CHR 10], \<lambda>_. None), ([CHR 10], on_disc ''/mnt/data/ab/abcd'' (Inr [])), (''q'', \<lambda>_. None)]\<rparr>
   in \<exists>q w' j. find_pack_path (sample_reader sample_loc ''b'' True) (J_str ''abcd'') w = (Inr q, w') \<and> w_view w' q \<noteq> None \<and>
     j \<le> Suc 1 \<and> w_swaps w' = drop j (w_swaps w)"
  unfolding Let_def
  by (rule disc_swap_live [where root = "''/mnt''" and p = "''/mnt/data/ab/abcd''" and k = 1])
    (simp_all add: sample_reader_def goes_on_def py_lower_def py_strip_def is_space_def code_def lower_char_def
      pack_candidates_def path_join_def on_disc_def)

end
