(* ===== verification/Restore_Target.thy ===== *)
theory Restore_Target
  imports Restic_Repo
begin

text \<open>
  The directory a snapshot is restored into, and the file system calls \<open>restore/restic_fallback.py\<close> makes
  there. The target is a map from absolute paths (lists of components) to files, directories and
  links; the root always exists. A path is looked up as the operating system does it, through links
  and \<open>..\<close>, with at most 40 links on the way. Each call fails where the state of the directory makes
  it fail; besides, a parameter says which calls the system refuses (permissions, a full disk).

  Not distinguished: the kinds of OSError, and hard links from copies (a restore changes a file in
  place only while it has its temporary name). Names hold no NUL character. Removing a tree is
  refused as a whole or not at all.
\<close>

type_synonym path = "string list"

datatype tnode = T_file bytes | T_dir | T_link string

type_synonym target = "path \<Rightarrow> tnode option"

datatype os_call =
    Os_mkdir path
  | Os_open path
  | Os_write path
  | Os_replace path
  | Os_link path path
  | Os_remove path
  | Os_symlink path

section \<open>Paths\<close>

text \<open>The components of a path as \<open>pathlib\<close> splits it, and \<open>Path(s).name\<close>.\<close>

definition components :: "string \<Rightarrow> string list" where
  "components s = filter (\<lambda>c. c \<noteq> [] \<and> c \<noteq> ''.'') (py_split_on (CHR ''/'') s)"

definition path_name :: "string \<Rightarrow> string" where
  "path_name s = (case rev (components s) of [] \<Rightarrow> [] | c # _ \<Rightarrow> c)"

definition MAX_LINKS :: nat where "MAX_LINKS = 40"

definition link_of :: "target \<Rightarrow> path \<Rightarrow> string option" where
  "link_of fs q = (case fs q of Some (T_link t) \<Rightarrow> Some t | _ \<Rightarrow> None)"

definition link_base :: "path \<Rightarrow> string \<Rightarrow> path" where
  "link_base d t = (if starts_with t ''/'' then [] else d)"

fun place :: "nat \<Rightarrow> target \<Rightarrow> path \<Rightarrow> string list \<Rightarrow> path option" where
  "place n fs acc [] = Some acc"
| "place n fs acc (c # cs) =
     (if c = ''..'' then place n fs (butlast acc) cs
      else case link_of fs (acc @ [c]) of
        None \<Rightarrow> place n fs (acc @ [c]) cs
      | Some t \<Rightarrow>
          (case n of
             0 \<Rightarrow> None
           | Suc n' \<Rightarrow> place n' fs (link_base acc t) (components t @ cs)))"

definition resolve :: "target \<Rightarrow> path \<Rightarrow> path option" where
  "resolve fs p = place MAX_LINKS fs [] p"

text \<open>The directory entry a path names: a link at its end is not followed.\<close>

definition entry :: "target \<Rightarrow> path \<Rightarrow> path option" where
  "entry fs p =
     (if p = [] \<or> last p = ''..'' then resolve fs p
      else map_option (\<lambda>d. d @ [last p]) (resolve fs (butlast p)))"

definition is_dir_at :: "target \<Rightarrow> path \<Rightarrow> bool" where
  "is_dir_at fs q \<longleftrightarrow> q = [] \<or> fs q = Some T_dir"

definition below :: "path \<Rightarrow> path \<Rightarrow> bool" where
  "below d q \<longleftrightarrow> take (length d) q = d"

section \<open>Calls\<close>

text \<open>\<open>mkdir(parents=True, exist_ok=True)\<close>: \<open>None\<close> is an OSError, here and below.\<close>

definition mkdirs :: "target \<Rightarrow> path \<Rightarrow> target option" where
  "mkdirs fs p =
     (case resolve fs p of
        None \<Rightarrow> None
      | Some q \<Rightarrow>
          if list_ex (\<lambda>k. case fs (take k q) of Some (T_file _) \<Rightarrow> True | _ \<Rightarrow> False) [1..<length q + 1] \<or>
             \<not> is_dir_at fs q \<and> (\<exists>e\<in>set_option (entry fs p). link_of fs e \<noteq> None)
          then None
          else Some (\<lambda>q'. if q' \<noteq> [] \<and> below q' q \<and> fs q' = None then Some T_dir else fs q'))"

text \<open>\<open>open(p, "wb")\<close>: the place written to.\<close>

definition open_write :: "target \<Rightarrow> path \<Rightarrow> path option" where
  "open_write fs p =
     (case resolve fs p of
        None \<Rightarrow> None
      | Some q \<Rightarrow> if is_dir_at fs q \<or> \<not> is_dir_at fs (butlast q) then None else Some q)"

text \<open>\<open>unlink(missing_ok=True)\<close>.\<close>

definition unlink :: "bool \<Rightarrow> target \<Rightarrow> path \<Rightarrow> target option" where
  "unlink refused fs p =
     (case entry fs p of
        None \<Rightarrow> None
      | Some q \<Rightarrow>
          if q \<noteq> [] \<and> fs q = None then Some fs
          else if refused \<or> is_dir_at fs q then None
          else Some (fs(q := None)))"

definition replace_file :: "target \<Rightarrow> path \<Rightarrow> path \<Rightarrow> target option" where
  "replace_file fs src dst =
     (case (entry fs src, entry fs dst) of
        (Some a, Some b) \<Rightarrow>
          if fs a = None \<or> is_dir_at fs a \<or> is_dir_at fs b \<or> \<not> is_dir_at fs (butlast b) then None
          else Some ((fs(a := None))(b := fs a))
      | _ \<Rightarrow> None)"

definition link_file :: "target \<Rightarrow> path \<Rightarrow> path \<Rightarrow> target option" where
  "link_file fs src dst =
     (case (entry fs src, entry fs dst) of
        (Some a, Some b) \<Rightarrow>
          if fs a = None \<or> is_dir_at fs a \<or> b = [] \<or> fs b \<noteq> None \<or> \<not> is_dir_at fs (butlast b) then None
          else Some (fs(b := fs a))
      | _ \<Rightarrow> None)"

definition symlink_to :: "target \<Rightarrow> path \<Rightarrow> string \<Rightarrow> target option" where
  "symlink_to fs p t =
     (case entry fs p of
        None \<Rightarrow> None
      | Some q \<Rightarrow>
          if q = [] \<or> fs q \<noteq> None \<or> \<not> is_dir_at fs (butlast q) \<or> t = [] then None
          else Some (fs(q := Some (T_link t))))"

text \<open>\<open>shutil.rmtree\<close> on a directory: the contents go first; the directory itself cannot be removed
  under a name that ends in \<open>..\<close>, which is an OSError after the contents are gone (second component).\<close>

definition rmtree :: "target \<Rightarrow> path \<Rightarrow> path \<Rightarrow> target \<times> bool" where
  "rmtree fs p q =
     (let keep_top = q = [] \<or> last p = ''..'' in
      (\<lambda>q'. if below q q' \<and> \<not> (keep_top \<and> q' = q) then None else fs q', keep_top))"

section \<open>Lemmas: looking up paths\<close>

lemma below_refl [simp]: "below d d"
  by (simp add: below_def)

lemma below_append [simp]: "below d (d @ xs)"
  by (simp add: below_def)

lemma below_snoc: "below (d @ [c]) q \<Longrightarrow> below d q"
  unfolding below_def
  by (metis append_eq_append_conv_if append_take_drop_id length_append take_append take_take min.absorb1 le_add1)

text \<open>Only the links of the directory matter.\<close>

definition same_links :: "target \<Rightarrow> target \<Rightarrow> bool" where
  "same_links fs fs' \<longleftrightarrow> (\<forall>q. link_of fs q = link_of fs' q)"

lemma same_links_refl [simp]: "same_links fs fs"
  by (simp add: same_links_def)

lemma same_links_trans: "same_links fs fs' \<Longrightarrow> same_links fs' fs'' \<Longrightarrow> same_links fs fs''"
  by (simp add: same_links_def)

lemma place_same_links: "same_links fs fs' \<Longrightarrow> place n fs' acc cs = place n fs acc cs"
  by (induction n fs acc cs rule: place.induct)
    (auto simp: same_links_def split: option.splits nat.splits)

lemma resolve_same_links: "same_links fs fs' \<Longrightarrow> resolve fs' p = resolve fs p"
  by (simp add: resolve_def place_same_links)

lemma entry_same_links: "same_links fs fs' \<Longrightarrow> entry fs' p = entry fs p"
  by (simp add: entry_def resolve_same_links)

lemma place_snoc:
  assumes "c \<noteq> ''..''" "place n fs acc cs = Some d" "link_of fs (d @ [c]) = None"
  shows "place n fs acc (cs @ [c]) = Some (d @ [c])"
  using assms
  by (induction n fs acc cs rule: place.induct)
    (auto split: option.splits nat.splits if_splits)

lemma place_snoc_None:
  "place n fs acc cs = None \<Longrightarrow> place n fs acc (cs @ [c]) = None"
  by (induction n fs acc cs rule: place.induct) (auto split: option.splits nat.splits if_splits)

lemma resolve_entry:
  assumes "entry fs p = Some q" "link_of fs q = None"
  shows "resolve fs p = Some q"
proof (cases "p = [] \<or> last p = ''..''")
  case False
  then obtain d where d: "resolve fs (butlast p) = Some d" "q = d @ [last p]" using assms(1) by (auto simp: entry_def)
  then have "place MAX_LINKS fs [] (butlast p @ [last p]) = Some q"
    using assms(2) False d(1) unfolding d(2) by (intro place_snoc) (simp_all add: resolve_def)
  then show ?thesis using False by (simp add: resolve_def)
qed (use assms in \<open>simp add: entry_def\<close>)

text \<open>Without links a path is the place it names.\<close>

lemma place_no_links:
  "(\<And>q. link_of fs q = None) \<Longrightarrow> ''..'' \<notin> set cs \<Longrightarrow> place n fs acc cs = Some (acc @ cs)"
  by (induction n fs acc cs rule: place.induct)
    auto

lemma resolve_no_links: "(\<And>q. link_of fs q = None) \<Longrightarrow> ''..'' \<notin> set p \<Longrightarrow> resolve fs p = Some p"
  by (simp add: resolve_def place_no_links)

lemma entry_no_links:
  assumes "\<And>q. link_of fs q = None" "''..'' \<notin> set p"
  shows "entry fs p = Some p"
proof (cases "p = []")
  case False
  have "''..'' \<notin> set (butlast p)" using assms(2) in_set_butlastD by fast
  then show ?thesis using False assms resolve_no_links by (simp add: entry_def)
qed (use assms resolve_no_links in \<open>simp add: entry_def\<close>)

section \<open>Lemmas: what the calls change\<close>

lemma mkdirs_same:
  assumes "mkdirs fs p = Some fs'"
  shows "fs' q = fs q \<or> fs q = None \<and> fs' q = Some T_dir \<and> (\<exists>d. resolve fs p = Some d \<and> below q d)"
  using assms by (auto simp: mkdirs_def split: option.splits if_splits)

lemma mkdirs_links: "mkdirs fs p = Some fs' \<Longrightarrow> same_links fs fs'"
  by (auto simp: same_links_def link_of_def mkdirs_def split: option.splits if_splits)

end
