(* ===== verification/Restic_Restore.thy ===== *)
theory Restic_Restore
  imports Restore_Target
begin

text \<open>
  Writing a snapshot to disk: \<open>_restore_tree\<close>, \<open>_restore_file\<close>, their helpers and \<open>restore\<close> of
  \<open>restore/restic_fallback.py\<close>, over the directory of \<open>Restore_Target\<close>.

  Times, permissions and attributes are not part of the target, only the exceptions their handling
  lets through. A recorded failure has the class of the exception as its reason, without the
  message. The recursion limit of Python is an argument; a loop of links met by \<open>Path.resolve\<close>
  (a RuntimeError up to Python 3.12) is the same exception.
\<close>

section \<open>State\<close>

record restorer = reader +
  ro_os :: "os_call \<Rightarrow> bool"
  ro_progress :: bool

record rstate =
  rs_world :: world
  rs_fs :: target
  rs_failures :: "(path \<times> json \<times> string) list"
  rs_links :: "((json \<times> json) \<times> path) list"
  rs_done_files :: nat
  rs_done_bytes :: nat
  rs_last_files :: nat
  rs_last_bytes :: nat
  rs_total :: nat
  rs_lines :: "(nat \<times> nat \<times> nat) list"

datatype outcome = O_done | O_node_failed | O_raised repo_error

section \<open>Helpers\<close>

fun error_class :: "repo_error \<Rightarrow> string" where
  "error_class Integrity_failed = ''IntegrityError''"
| "error_class Key_failed = ''KeyError''"
| "error_class Os_failed = ''OSError''"
| "error_class Json_failed = ''JSONDecodeError''"
| "error_class Type_failed = ''TypeError''"
| "error_class Value_failed = ''ValueError''"
| "error_class Recursion_failed = ''RecursionError''"

definition record_failure :: "path \<Rightarrow> json \<Rightarrow> repo_error \<Rightarrow> rstate \<Rightarrow> rstate" where
  "record_failure p blob_id e st = st\<lparr>rs_failures := rs_failures st @ [(p, blob_id, error_class e)]\<rparr>"

text \<open>The classes a node's handler catches.\<close>

definition node_error :: "repo_error \<Rightarrow> bool" where
  "node_error e \<longleftrightarrow> e \<in> {Integrity_failed, Key_failed, Os_failed}"

definition on_world :: "(world \<Rightarrow> 'a \<times> world) \<Rightarrow> rstate \<Rightarrow> 'a \<times> rstate" where
  "on_world f st = (case f (rs_world st) of (a, w) \<Rightarrow> (a, st\<lparr>rs_world := w\<rparr>))"

definition on_fs :: "bool \<Rightarrow> (target \<Rightarrow> target option) \<Rightarrow> rstate \<Rightarrow> rstate option" where
  "on_fs refused f st = (if refused then None else map_option (\<lambda>fs. st\<lparr>rs_fs := fs\<rparr>) (f (rs_fs st)))"

definition PROGRESS_FILES_INTERVAL :: nat where "PROGRESS_FILES_INTERVAL = 50"
definition PROGRESS_BYTES_INTERVAL :: nat where "PROGRESS_BYTES_INTERVAL = 64 * 1024 * 1024"

definition emit_progress :: "'r restorer_scheme \<Rightarrow> bool \<Rightarrow> rstate \<Rightarrow> rstate" where
  "emit_progress ro force st =
     (if \<not> ro_progress ro then st
      else if \<not> force \<and> rs_done_files st - rs_last_files st < PROGRESS_FILES_INTERVAL \<and>
              rs_done_bytes st - rs_last_bytes st < PROGRESS_BYTES_INTERVAL then st
      else if force \<and> rs_done_files st = 0 then st
      else st\<lparr>rs_lines := rs_lines st @ [(rs_done_files st, rs_total st, rs_done_bytes st)],
              rs_last_files := rs_done_files st, rs_last_bytes := rs_done_bytes st\<rparr>)"

fun truthy :: "json \<Rightarrow> bool" where
  "truthy J_null = False"
| "truthy (J_bool b) = b"
| "truthy (J_int n) = (n \<noteq> 0)"
| "truthy (J_float s) = True"
| "truthy (J_str s) = (s \<noteq> [])"
| "truthy (J_list xs) = (xs \<noteq> [])"
| "truthy (J_dict kvs) = (kvs \<noteq> [])"

text \<open>The exceptions that restoring the metadata of a node lets through: a mode that is no integer, a
  time that is no string, attributes of the wrong shape or with bad base64. A mode is not set on a link.\<close>

fun xattr_errors :: "json list \<Rightarrow> repo_error option" where
  "xattr_errors [] = None"
| "xattr_errors (xa # xas) =
     (if \<not> is_dict xa then Some Type_failed
      else case get_default xa ''value'' (J_str []) of
        J_str s \<Rightarrow>
          if b64decode (J_str s) = None then Some Value_failed
          else
            let xa_name = get_default xa ''name'' (J_str []) in
            if truthy xa_name \<and> \<not> is_str xa_name then Some Type_failed else xattr_errors xas
      | _ \<Rightarrow> Some Type_failed)"

definition metadata_error :: "bool \<Rightarrow> json \<Rightarrow> repo_error option" where
  "metadata_error link node =
     (if \<not> link \<and> (\<exists>m. item node ''mode'' = Some m \<and> as_int m = None) then Some Type_failed
      else
        let mtime = get_default node ''mtime'' J_null; atime = get_default node ''atime'' J_null in
        if truthy mtime \<and> (\<not> is_str mtime \<or> truthy atime \<and> \<not> is_str atime) then Some Type_failed
        else case get_list node ''extended_attributes'' of
          Inl e \<Rightarrow> Some e
        | Inr xas \<Rightarrow> xattr_errors xas)"

section \<open>Files\<close>

definition partial_path :: "path \<Rightarrow> path" where
  "partial_path p = butlast p @ [last p @ ''.lcsas-partial'']"

definition write_at :: "path \<Rightarrow> bytes \<Rightarrow> rstate \<Rightarrow> rstate" where
  "write_at q content st = st\<lparr>rs_fs := (rs_fs st)(q := Some (T_file content))\<rparr>"

text \<open>The loop over the content blobs, writing to the open file at \<open>q\<close>.\<close>

fun write_blobs :: "'r restorer_scheme \<Rightarrow> path \<Rightarrow> path \<Rightarrow> json list \<Rightarrow> bytes \<Rightarrow> rstate \<Rightarrow> (outcome + bytes) \<times> rstate" where
  "write_blobs ro p q [] written st = (Inr written, st)"
| "write_blobs ro p q (blob_id # ids) written st =
     (case on_world (read_blob (reader.truncate ro) blob_id) st of
        (Inl e, st') \<Rightarrow>
          if node_error e \<and> \<not> rd_strict ro then (Inl O_node_failed, record_failure p blob_id e st')
          else (Inl (O_raised e), st')
      | (Inr chunk, st') \<Rightarrow>
          if ro_os ro (Os_write (partial_path p)) then (Inl (O_raised Os_failed), st')
          else write_blobs ro p q ids (written @ chunk) (write_at q (written @ chunk) st'))"

definition write_file :: "'r restorer_scheme \<Rightarrow> json \<Rightarrow> path \<Rightarrow> rstate \<Rightarrow> (outcome + bytes) \<times> rstate" where
  "write_file ro node p st =
     (case (if ro_os ro (Os_open (partial_path p)) then None else open_write (rs_fs st) (partial_path p)) of
        None \<Rightarrow> (Inl (O_raised Os_failed), st)
      | Some q \<Rightarrow>
          let st = write_at q [] st in
          (case get_list node ''content'' of
             Inl e \<Rightarrow> (Inl (O_raised e), st)
           | Inr ids \<Rightarrow> write_blobs ro p q ids [] st))"

text \<open>The metadata and the final name.\<close>

definition finish_file :: "'r restorer_scheme \<Rightarrow> json \<Rightarrow> path \<Rightarrow> rstate \<Rightarrow> outcome \<times> rstate" where
  "finish_file ro node p st =
     (case metadata_error (\<exists>q\<in>set_option (entry (rs_fs st) (partial_path p)). link_of (rs_fs st) q \<noteq> None) node of
        Some e \<Rightarrow> (O_raised e, st)
      | None \<Rightarrow>
          (case on_fs (ro_os ro (Os_replace p)) (\<lambda>fs. replace_file fs (partial_path p) p) st of
             None \<Rightarrow> (O_raised Os_failed, st)
           | Some st' \<Rightarrow> (O_done, st')))"

text \<open>Removing the partial file after a failure that the handlers catch.\<close>

definition cleanup_file :: "'r restorer_scheme \<Rightarrow> path \<Rightarrow> outcome \<Rightarrow> rstate \<Rightarrow> outcome \<times> rstate" where
  "cleanup_file ro p out st =
     (case out of
        O_done \<Rightarrow> (O_done, st)
      | O_node_failed \<Rightarrow>
          (case on_fs False (\<lambda>fs. unlink (ro_os ro (Os_remove (partial_path p))) fs (partial_path p)) st of
             None \<Rightarrow> (O_raised Os_failed, st)
           | Some st' \<Rightarrow> (O_node_failed, st'))
      | O_raised e \<Rightarrow>
          if \<not> node_error e then (O_raised e, st)
          else
            (case on_fs False (\<lambda>fs. unlink (ro_os ro (Os_remove (partial_path p))) fs (partial_path p)) st of
               None \<Rightarrow> (O_raised Os_failed, st)
             | Some st' \<Rightarrow>
                 if rd_strict ro then (O_raised e, st') else (O_node_failed, record_failure p (J_str []) e st')))"

definition restore_file :: "'r restorer_scheme \<Rightarrow> json \<Rightarrow> path \<Rightarrow> rstate \<Rightarrow> outcome \<times> rstate" where
  "restore_file ro node p st =
     (case on_fs (ro_os ro (Os_mkdir (butlast p))) (\<lambda>fs. mkdirs fs (butlast p)) st of
        None \<Rightarrow> (O_raised Os_failed, st)
      | Some st \<Rightarrow>
          (case write_file ro node p st of
             (Inl out, st) \<Rightarrow> cleanup_file ro p out st
           | (Inr content, st) \<Rightarrow>
               (case finish_file ro node p st of
                  (O_done, st) \<Rightarrow>
                    (O_done, emit_progress ro False
                       (st\<lparr>rs_done_files := rs_done_files st + 1, rs_done_bytes := rs_done_bytes st + length content\<rparr>))
                | (out, st) \<Rightarrow> cleanup_file ro p out st)))"

section \<open>Nodes\<close>

text \<open>\<open>links > 1\<close>; the format has an integer there, and anything else raises.\<close>

definition more_links :: "json \<Rightarrow> bool option" where
  "more_links j = map_option (\<lambda>n. n > 1) (as_int j)"

definition link_key :: "json \<Rightarrow> json \<times> json" where
  "link_key node =
     (get_default node ''device_id'' (get_default node ''device'' (J_int 0)), get_default node ''inode'' (J_int 0))"

text \<open>An earlier name of the same file: \<open>None\<close> if the test raises.\<close>

definition linked_source :: "json \<Rightarrow> rstate \<Rightarrow> path option option" where
  "linked_source node st =
     (if \<not> truthy (snd (link_key node)) then Some None
      else case more_links (get_default node ''links'' (J_int 1)) of
        None \<Rightarrow> None
      | Some False \<Rightarrow> Some None
      | Some True \<Rightarrow>
          if hashable (fst (link_key node)) \<and> hashable (snd (link_key node))
          then Some (map_of (rs_links st) (link_key node)) else None)"

definition try_link :: "'r restorer_scheme \<Rightarrow> path \<Rightarrow> path \<Rightarrow> rstate \<Rightarrow> bool \<times> rstate" where
  "try_link ro src p st =
     (case on_fs (ro_os ro (Os_mkdir (butlast p))) (\<lambda>fs. mkdirs fs (butlast p)) st of
        None \<Rightarrow> (False, st)
      | Some st \<Rightarrow>
          (case on_fs (ro_os ro (Os_link src p)) (\<lambda>fs. link_file fs src p) st of
             None \<Rightarrow> (False, st)
           | Some st \<Rightarrow> (True, st)))"

definition restore_copy :: "'r restorer_scheme \<Rightarrow> json \<Rightarrow> path \<Rightarrow> rstate \<Rightarrow> outcome \<times> rstate" where
  "restore_copy ro node p st =
     (case restore_file ro node p st of
        (O_done, st') \<Rightarrow>
          (O_done,
           if truthy (snd (link_key node)) \<and> more_links (get_default node ''links'' (J_int 1)) = Some True
           then st'\<lparr>rs_links := dict_put (link_key node) p (rs_links st')\<rparr> else st')
      | r \<Rightarrow> r)"

definition restore_file_node :: "'r restorer_scheme \<Rightarrow> json \<Rightarrow> path \<Rightarrow> rstate \<Rightarrow> outcome \<times> rstate" where
  "restore_file_node ro node p st =
     (case linked_source node st of
        None \<Rightarrow> (O_raised Type_failed, st)
      | Some None \<Rightarrow> restore_copy ro node p st
      | Some (Some src) \<Rightarrow>
          (case try_link ro src p st of
             (True, st) \<Rightarrow> (O_done, st)
           | (False, st) \<Rightarrow> restore_copy ro node p st))"

text \<open>Making room for a link: whatever has the name is removed.\<close>

definition clear_name :: "'r restorer_scheme \<Rightarrow> path \<Rightarrow> rstate \<Rightarrow> bool \<times> rstate" where
  "clear_name ro p st =
     (case entry (rs_fs st) p of
        None \<Rightarrow> (True, st)
      | Some q \<Rightarrow>
          if q \<noteq> [] \<and> rs_fs st q = None then (True, st)
          else if ro_os ro (Os_remove p) then (False, st)
          else if is_dir_at (rs_fs st) q then
            (case rmtree (rs_fs st) p q of (fs, raised) \<Rightarrow> (\<not> raised, st\<lparr>rs_fs := fs\<rparr>))
          else (True, st\<lparr>rs_fs := (rs_fs st)(q := None)\<rparr>))"

definition restore_symlink :: "'r restorer_scheme \<Rightarrow> json \<Rightarrow> path \<Rightarrow> path \<Rightarrow> rstate \<Rightarrow> outcome \<times> rstate" where
  "restore_symlink ro node dir p st =
     (case get_default node ''linktarget'' (J_str []) of
        J_str link_target \<Rightarrow>
          if starts_with link_target ''/'' then (O_done, st)
          else
            (case (resolve (rs_fs st) (dir @ components link_target), resolve (rs_fs st) dir) of
               (Some resolved, Some target_dir) \<Rightarrow>
                 if \<not> below target_dir resolved then
                   (O_done, st\<lparr>rs_failures := rs_failures st @ [(p, J_str [], ''skipped-symlink: '' @ link_target)]\<rparr>)
                 else
                   (case clear_name ro p st of
                      (False, st) \<Rightarrow> (O_raised Os_failed, st)
                    | (True, st) \<Rightarrow>
                        (case on_fs (ro_os ro (Os_symlink p)) (\<lambda>fs. symlink_to fs p link_target) st of
                           None \<Rightarrow> (O_raised Os_failed, st)
                         | Some st \<Rightarrow> (O_done, st)))
             | _ \<Rightarrow> (O_raised Recursion_failed, st))
      | _ \<Rightarrow> (O_raised Type_failed, st))"

text \<open>A directory: the subtree is restored by the function given.\<close>

definition restore_dir ::
  "(json \<Rightarrow> path \<Rightarrow> rstate \<Rightarrow> outcome \<times> rstate) \<Rightarrow> 'r restorer_scheme \<Rightarrow> json \<Rightarrow> path \<Rightarrow> rstate \<Rightarrow> outcome \<times> rstate" where
  "restore_dir subtree ro node p st =
     (case on_fs (ro_os ro (Os_mkdir p)) (\<lambda>fs. mkdirs fs p) st of
        None \<Rightarrow> (O_raised Os_failed, st)
      | Some st \<Rightarrow>
          (case (case item node ''subtree'' of None \<Rightarrow> (O_done, st) | Some t \<Rightarrow> subtree t p st) of
             (O_done, st) \<Rightarrow>
               (case metadata_error (\<exists>q\<in>set_option (entry (rs_fs st) p). link_of (rs_fs st) q \<noteq> None) node of
                  Some e \<Rightarrow> (O_raised e, st)
                | None \<Rightarrow> (O_done, st))
           | r \<Rightarrow> r))"

definition restore_typed ::
  "(json \<Rightarrow> path \<Rightarrow> rstate \<Rightarrow> outcome \<times> rstate) \<Rightarrow> 'r restorer_scheme \<Rightarrow> json \<Rightarrow> path \<Rightarrow> path \<Rightarrow> rstate \<Rightarrow> outcome \<times> rstate" where
  "restore_typed subtree ro node dir p st =
     (let ty = get_default node ''type'' (J_str ''file'') in
      if ty = J_str ''file'' then restore_file_node ro node p st
      else if ty = J_str ''dir'' then restore_dir subtree ro node p st
      else if ty = J_str ''symlink'' then restore_symlink ro node dir p st
      else (O_done, st))"

definition contain_node :: "'r restorer_scheme \<Rightarrow> path \<Rightarrow> outcome \<times> rstate \<Rightarrow> outcome \<times> rstate" where
  "contain_node ro p r =
     (case r of
        (O_raised e, st) \<Rightarrow>
          if node_error e \<and> \<not> rd_strict ro then (O_done, record_failure p (J_str []) e st) else (O_raised e, st)
      | (_, st) \<Rightarrow> (O_done, st))"

definition restore_node ::
  "(json \<Rightarrow> path \<Rightarrow> rstate \<Rightarrow> outcome \<times> rstate) \<Rightarrow> 'r restorer_scheme \<Rightarrow> path \<Rightarrow> json \<Rightarrow> rstate \<Rightarrow> outcome \<times> rstate" where
  "restore_node subtree ro dir node st =
     (case subscript node ''name'' of
        Inl e \<Rightarrow> (O_raised e, st)
      | Inr (J_str name) \<Rightarrow>
          if path_name name = [] \<or> path_name name \<noteq> name then (O_done, st)
          else contain_node ro (dir @ [name]) (restore_typed subtree ro node dir (dir @ [name]) st)
      | Inr _ \<Rightarrow> (O_raised Type_failed, st))"

fun restore_nodes ::
  "(json \<Rightarrow> path \<Rightarrow> rstate \<Rightarrow> outcome \<times> rstate) \<Rightarrow> 'r restorer_scheme \<Rightarrow> path \<Rightarrow> json list \<Rightarrow> rstate \<Rightarrow> outcome \<times> rstate" where
  "restore_nodes subtree ro dir [] st = (O_done, st)"
| "restore_nodes subtree ro dir (node # nodes) st =
     (case restore_node subtree ro dir node st of
        (O_done, st') \<Rightarrow> restore_nodes subtree ro dir nodes st'
      | r \<Rightarrow> r)"

section \<open>Trees\<close>

definition read_tree :: "'r restorer_scheme \<Rightarrow> json \<Rightarrow> rstate \<Rightarrow> (repo_error, json) result \<times> rstate" where
  "read_tree ro tree_id st =
     (case on_world (read_blob (reader.truncate ro) tree_id) st of
        (Inl e, st') \<Rightarrow> (Inl e, st')
      | (Inr d, st') \<Rightarrow> (case rd_json ro d of None \<Rightarrow> Inl Json_failed | Some doc \<Rightarrow> Inr doc, st'))"

fun restore_tree :: "nat \<Rightarrow> 'r restorer_scheme \<Rightarrow> json \<Rightarrow> path \<Rightarrow> rstate \<Rightarrow> outcome \<times> rstate" where
  "restore_tree 0 ro tree_id dir st = (O_raised Recursion_failed, st)"
| "restore_tree (Suc depth) ro tree_id dir st =
     (case read_tree ro tree_id st of
        (Inl e, st') \<Rightarrow>
          if (node_error e \<or> e = Json_failed) \<and> \<not> rd_strict ro then (O_done, record_failure dir tree_id e st')
          else (O_raised e, st')
      | (Inr doc, st') \<Rightarrow>
          (case get_list doc ''nodes'' of
             Inl e \<Rightarrow> (O_raised e, st')
           | Inr nodes \<Rightarrow> restore_nodes (restore_tree depth ro) ro dir nodes st'))"

section \<open>Counting\<close>

text \<open>The pre-pass: the nodes of one tree, then the loop over the stack of trees (top first).\<close>

fun count_nodes :: "json list \<Rightarrow> json list \<Rightarrow> nat \<Rightarrow> (repo_error, json list \<times> nat) result" where
  "count_nodes [] stack n = Inr (stack, n)"
| "count_nodes (node # nodes) stack n =
     (if \<not> is_dict node then Inl Type_failed
      else
        let ntype = get_default node ''type'' (J_str ''file'') in
        if ntype = J_str ''file'' then count_nodes nodes stack (n + 1)
        else if ntype = J_str ''dir'' then
          (case item node ''subtree'' of
             None \<Rightarrow> count_nodes nodes stack n
           | Some t \<Rightarrow> count_nodes nodes (t # stack) n)
        else count_nodes nodes stack n)"

lemma read_tree_indexed:
  "read_tree ro tid st = (Inr doc, st') \<Longrightarrow> tid \<in> fst ` set (rd_index ro)"
  by (auto simp: read_tree_def on_world_def read_blob_def reader.defs split: prod.splits sum.splits if_splits option.splits
      dest!: map_of_SomeD) (force)+

function count_files :: "'r restorer_scheme \<Rightarrow> json list \<Rightarrow> json list \<Rightarrow> nat \<Rightarrow> rstate \<Rightarrow> (repo_error, nat) result \<times> rstate" where
  "count_files ro [] visited n st = (Inr n, st)"
| "count_files ro (tid # stack) visited n st =
     (if \<not> hashable tid then (Inl Type_failed, st)
      else if tid \<in> set visited then count_files ro stack visited n st
      else case read_tree ro tid st of
        (Inl e, st') \<Rightarrow> if node_error e \<or> e = Json_failed then (Inr n, st') else (Inl e, st')
      | (Inr doc, st') \<Rightarrow>
          (case rbind (get_list doc ''nodes'') (\<lambda>nodes. count_nodes nodes stack n) of
             Inl e \<Rightarrow> (Inl e, st')
           | Inr (stack', n') \<Rightarrow> count_files ro stack' (tid # visited) n' st'))"
  by pat_completeness auto
termination
proof (relation "(\<lambda>(ro, stack, visited, n, st). card (fst ` set (rd_index ro) - set visited)) <*mlex*>
    measure (\<lambda>(ro, stack, visited, n, st). length stack)", goal_cases)
  case 1
  show ?case by (intro wf_mlex) simp
next
  case 2
  then show ?case by (intro mlex_leq) auto
next
  case 3
  then show ?case by (intro mlex_less) (auto dest!: read_tree_indexed [OF sym] intro!: psubset_card_mono)
qed

section \<open>The whole restore\<close>

text \<open>\<open>", ".join(snap.paths)\<close> of the log line raises for anything but a sequence of strings.\<close>

definition paths_ok :: "json \<Rightarrow> bool" where
  "paths_ok j = (case py_iter j of Inl _ \<Rightarrow> False | Inr xs \<Rightarrow> list_all is_str xs)"

definition text_bytes :: "string \<Rightarrow> bytes" where
  "text_bytes s = map (\<lambda>c. of_nat (code c)) s"

definition failure_line :: "path \<times> json \<times> string \<Rightarrow> string" where
  "failure_line f =
     (case f of (p, blob_id, reason) \<Rightarrow>
        concat (map (\<lambda>c. ''/'' @ c) p) @ [CHR 9] @ reason @ [CHR 9] @ str_of blob_id)"

definition manifest_bytes :: "(path \<times> json \<times> string) list \<Rightarrow> bytes" where
  "manifest_bytes failures =
     text_bytes ''LCSAS tier-3 restore (the Python reader) '' @ [0xE2, 0x80, 0x94] @
     text_bytes (py_join [CHR 10]
       ([ '' files that could NOT be restored.'',
          ''Every OTHER file in this directory restored successfully.'',
          ''Re-running tier 3 from a newer meta disc, or mounting another'',
          ''undamaged disc with the same label, is the remedy.'',
          [],
          ''path'' @ [CHR 9] @ ''reason'' @ [CHR 9] @ ''blob_id''] @ map failure_line failures) @ [CHR 10])"

definition write_failure_manifest :: "'r restorer_scheme \<Rightarrow> path \<Rightarrow> rstate \<Rightarrow> rstate" where
  "write_failure_manifest ro target st =
     (let manifest = target @ [''RESTORE_FAILURES.txt''] in
      case (if ro_os ro (Os_open manifest) then None else open_write (rs_fs st) manifest) of
        None \<Rightarrow> st
      | Some q \<Rightarrow>
          if ro_os ro (Os_write manifest) then write_at q [] st
          else write_at q (manifest_bytes (rs_failures st)) st)"

definition start_state :: "world \<Rightarrow> target \<Rightarrow> rstate" where
  "start_state w fs =
     \<lparr>rs_world = w, rs_fs = fs, rs_failures = [], rs_links = [], rs_done_files = 0, rs_done_bytes = 0,
      rs_last_files = 0, rs_last_bytes = 0, rs_total = 0, rs_lines = []\<rparr>"

definition restore ::
  "nat \<Rightarrow> 'r restorer_scheme \<Rightarrow> snapshot_meta list \<Rightarrow> path \<Rightarrow> string option \<Rightarrow> world \<Rightarrow> target
     \<Rightarrow> (repo_error, snapshot_meta) result \<times> rstate" where
  "restore depth ro snaps target snapshot_id w fs =
     (let st = start_state w fs in
      case (case snapshot_id of Some i \<Rightarrow> find_snapshot snaps i | None \<Rightarrow> latest_snapshot snaps) of
        Inl e \<Rightarrow> (Inl e, st)
      | Inr snap \<Rightarrow>
          if \<not> paths_ok (sm_paths snap) then (Inl Type_failed, st)
          else
            (case (if ro_progress ro then count_files ro [sm_tree snap] [] 0 st else (Inr 0, st)) of
               (Inl e, st) \<Rightarrow> (Inl e, st)
             | (Inr n, st) \<Rightarrow>
                 (case on_fs (ro_os ro (Os_mkdir target)) (\<lambda>fs. mkdirs fs target) (st\<lparr>rs_total := n\<rparr>) of
                    None \<Rightarrow> (Inl Os_failed, st)
                  | Some st \<Rightarrow>
                      (case restore_tree depth ro (sm_tree snap) target st of
                         (O_done, st) \<Rightarrow>
                           let st = emit_progress ro True st in
                           (Inr snap, if rs_failures st = [] then st else write_failure_manifest ro target st)
                       | (O_raised e, st) \<Rightarrow> (Inl e, st)
                       | (O_node_failed, st) \<Rightarrow> (Inl Type_failed, st)))))"

end
