(* ===== verification/Restore_Safety.thy ===== *)
theory Restore_Safety
  imports Restic_Restore
begin

text \<open>
  What a restore does to the target: a file appears under its name complete and with the contents its
  node names, or not at all and with a record of the failure; one bad blob, file or tree never ends a
  tolerant restore; and which entries of the file system can change.
\<close>

section \<open>Frames\<close>

lemma on_fs_Some:
  "on_fs refused f st = Some st' \<longleftrightarrow> \<not> refused \<and> (\<exists>fs. f (rs_fs st) = Some fs \<and> st' = st\<lparr>rs_fs := fs\<rparr>)"
  by (auto simp: on_fs_def)

definition only_at :: "path \<Rightarrow> target \<Rightarrow> target \<Rightarrow> bool" where
  "only_at q fs fs' \<longleftrightarrow> (\<forall>x. x \<noteq> q \<longrightarrow> fs' x = fs x)"

lemma only_at_refl [simp]: "only_at q fs fs"
  by (simp add: only_at_def)

lemma only_at_trans: "only_at q fs fs' \<Longrightarrow> only_at q fs' fs'' \<Longrightarrow> only_at q fs fs''"
  by (simp add: only_at_def)

lemma only_at_links:
  "only_at q fs fs' \<Longrightarrow> link_of fs q = None \<Longrightarrow> link_of fs' q = None \<Longrightarrow> same_links fs fs'"
  unfolding same_links_def only_at_def link_of_def by metis

abbreviation digest_id :: "bytes \<Rightarrow> json" where
  "digest_id d \<equiv> J_str (hexdigest (sha256 d))"

lemma on_world_fs [simp]: "rs_fs (snd (on_world f st)) = rs_fs st" "rs_failures (snd (on_world f st)) = rs_failures st"
  by (simp_all add: on_world_def split: prod.splits)

lemma on_world_read:
  "on_world (read_blob rd i) st = (Inr d, st') \<Longrightarrow> i = digest_id d"
  by (auto simp: on_world_def split: prod.splits dest: read_blob_hash)

section \<open>Writing one file\<close>

text \<open>What the loop over the blobs guarantees. An outcome is reported before the last blob is written, or
  all blobs are in the file, each with the digest its id names.\<close>

definition blobs_post :: "path \<Rightarrow> path \<Rightarrow> json list \<Rightarrow> bytes \<Rightarrow> rstate \<Rightarrow> (outcome + bytes) \<times> rstate \<Rightarrow> bool" where
  "blobs_post p q ids written st r \<longleftrightarrow>
     only_at q (rs_fs st) (rs_fs (snd r)) \<and> (\<exists>c. rs_fs (snd r) q = Some (T_file c)) \<and>
     (case fst r of
        Inr content \<Rightarrow>
          rs_fs (snd r) q = Some (T_file content) \<and> rs_failures (snd r) = rs_failures st \<and>
          (\<exists>chunks. content = written @ concat chunks \<and> ids = map digest_id chunks)
      | Inl O_done \<Rightarrow> False
      | Inl O_node_failed \<Rightarrow> \<exists>b e. rs_failures (snd r) = rs_failures st @ [(p, b, e)]
      | Inl (O_raised _) \<Rightarrow> rs_failures (snd r) = rs_failures st)"

lemma write_blobs_post:
  "rs_fs st q = Some (T_file written) \<Longrightarrow> blobs_post p q ids written st (write_blobs ro p q ids written st)"
proof (induction ids arbitrary: written st)
  case Nil
  then show ?case by (simp add: blobs_post_def)
next
  case (Cons blob_id ids)
  let ?r = "on_world (read_blob (reader.truncate ro) blob_id) st"
  obtain x st1 where x: "?r = (x, st1)" by (cases ?r)
  then have st1: "rs_fs st1 = rs_fs st" "rs_failures st1 = rs_failures st"
    using on_world_fs [of "read_blob (reader.truncate ro) blob_id" st] by simp_all
  show ?case
  proof (cases x)
    case (Inl e)
    then show ?thesis using Cons.prems by (simp add: x st1 blobs_post_def record_failure_def)
  next
    case (Inr chunk)
    let ?st = "write_at q (written @ chunk) st1"
    have id: "blob_id = digest_id chunk" using on_world_read x Inr by blast
    have "blobs_post p q ids (written @ chunk) ?st (write_blobs ro p q ids (written @ chunk) ?st)"
      by (rule Cons.IH) (simp add: write_at_def)
    moreover have "only_at q (rs_fs st) (rs_fs ?st)" "rs_failures ?st = rs_failures st"
      by (simp_all add: write_at_def only_at_def st1)
    ultimately have "blobs_post p q (blob_id # ids) written st (write_blobs ro p q ids (written @ chunk) ?st)"
      unfolding blobs_post_def id
      by (auto split: sum.splits outcome.splits intro: only_at_trans intro!: exI [of _ "chunk # _"])
    then show ?thesis using Cons.prems by (auto simp: x Inr blobs_post_def st1)
  qed
qed

lemma file_entries:
  assumes "p \<noteq> []" "last p \<noteq> ''..''" "resolve fs (butlast p) = Some d"
  shows "entry fs p = Some (d @ [last p])" "entry fs (partial_path p) = Some (d @ [last p @ ''.lcsas-partial''])"
  using assms by (simp_all add: entry_def partial_path_def)

lemma write_file_post:
  assumes "entry (rs_fs st) (partial_path p) = Some t" "link_of (rs_fs st) t = None"
    and "write_file ro node p st = (r, st')"
  shows "only_at t (rs_fs st) (rs_fs st') \<and> link_of (rs_fs st') t = None \<and>
    (case r of
       Inr content \<Rightarrow>
         rs_fs st' t = Some (T_file content) \<and> rs_failures st' = rs_failures st \<and>
         (\<exists>chunks. content = concat chunks \<and> get_list node ''content'' = Inr (map digest_id chunks))
     | Inl O_done \<Rightarrow> False
     | Inl O_node_failed \<Rightarrow> \<exists>b e. rs_failures st' = rs_failures st @ [(p, b, e)]
     | Inl (O_raised _) \<Rightarrow> rs_failures st' = rs_failures st)"
proof (cases "ro_os ro (Os_open (partial_path p)) \<or> open_write (rs_fs st) (partial_path p) = None")
  case True
  then have "write_file ro node p st = (Inl (O_raised Os_failed), st)" by (auto simp: write_file_def)
  then show ?thesis using assms by auto
next
  case False
  have "resolve (rs_fs st) (partial_path p) = Some t" by (rule resolve_entry [OF assms(1,2)])
  then have opened: "open_write (rs_fs st) (partial_path p) = Some t" using False by (auto simp: open_write_def split: if_splits)
  let ?st = "write_at t [] st"
  have at: "rs_fs ?st t = Some (T_file [])" "only_at t (rs_fs st) (rs_fs ?st)" "rs_failures ?st = rs_failures st"
    by (simp_all add: write_at_def only_at_def)
  show ?thesis
  proof (cases "get_list node ''content''")
    case (Inl e)
    then show ?thesis using assms(3) False opened at by (auto simp: write_file_def link_of_def)
  next
    case (Inr ids)
    then have "write_blobs ro p t ids [] ?st = (r, st')" using assms(3) False opened by (simp add: write_file_def)
    then have post: "blobs_post p t ids [] ?st (r, st')" using write_blobs_post [OF at(1)] by metis
    then have "only_at t (rs_fs st) (rs_fs st')" using at(2) only_at_trans unfolding blobs_post_def by auto
    then show ?thesis using post at(3) Inr
      by (auto simp: blobs_post_def link_of_def split: sum.splits outcome.splits)
  qed
qed

lemma finish_file_post:
  assumes "entry (rs_fs st) p = Some e" "entry (rs_fs st) (partial_path p) = Some t"
    and "finish_file ro node p st = (out, st')"
  shows "case out of
      O_done \<Rightarrow> rs_fs st' = ((rs_fs st)(t := None))(e := rs_fs st t) \<and> rs_failures st' = rs_failures st
    | O_node_failed \<Rightarrow> False
    | O_raised _ \<Rightarrow> st' = st"
  using assms by (auto simp: finish_file_def on_fs_Some replace_file_def split: option.splits if_splits)

lemma unlink_post:
  assumes "entry fs p = Some t" "unlink refused fs p = Some fs'" shows "fs' = fs(t := None)"
  using assms by (auto simp: unlink_def split: if_splits)

lemma cleanup_file_post:
  assumes "entry (rs_fs st) (partial_path p) = Some t" "cleanup_file ro p out st = (out', st')" "out \<noteq> O_done"
  shows "only_at t (rs_fs st) (rs_fs st') \<and>
    (case out' of
       O_done \<Rightarrow> False
     | O_node_failed \<Rightarrow> rs_fs st' t = None \<and>
         (if out = O_node_failed then rs_failures st' = rs_failures st
          else \<exists>b r. rs_failures st' = rs_failures st @ [(p, b, r)])
     | O_raised _ \<Rightarrow> rs_failures st' = rs_failures st) \<and>
    (rs_fs st' t = rs_fs st t \<or> rs_fs st' t = None)"
  using assms
  by (auto simp: cleanup_file_def on_fs_def record_failure_def only_at_def dest!: unlink_post [OF assms(1)]
      split: outcome.splits option.splits if_splits)

text \<open>Directories added where nothing was, on the way to \<open>d\<close>.\<close>

definition dirs_added :: "path \<Rightarrow> target \<Rightarrow> target \<Rightarrow> bool" where
  "dirs_added d fs fs' \<longleftrightarrow> (\<forall>q. fs' q = fs q \<or> fs q = None \<and> fs' q = Some T_dir \<and> below q d)"

definition file_post :: "json \<Rightarrow> path \<Rightarrow> path \<Rightarrow> path \<Rightarrow> rstate \<Rightarrow> outcome \<times> rstate \<Rightarrow> bool" where
  "file_post node p e t st r \<longleftrightarrow>
     (\<exists>fs1. dirs_added (butlast e) (rs_fs st) fs1 \<and> fs1 e = rs_fs st e \<and> (\<forall>q. q \<noteq> e \<and> q \<noteq> t \<longrightarrow> rs_fs (snd r) q = fs1 q)) \<and>
     link_of (rs_fs (snd r)) t = None \<and>
     (case fst r of
        O_done \<Rightarrow>
          rs_fs (snd r) t = None \<and> rs_failures (snd r) = rs_failures st \<and>
          (\<exists>chunks. get_list node ''content'' = Inr (map digest_id chunks) \<and> rs_fs (snd r) e = Some (T_file (concat chunks)))
      | O_node_failed \<Rightarrow>
          rs_fs (snd r) t = None \<and> rs_fs (snd r) e = rs_fs st e \<and> (\<exists>b x. rs_failures (snd r) = rs_failures st @ [(p, b, x)])
      | O_raised _ \<Rightarrow>
          rs_fs (snd r) e = rs_fs st e \<and>
          (rs_failures (snd r) = rs_failures st \<or> (\<exists>b x. rs_failures (snd r) = rs_failures st @ [(p, b, x)])))"

lemma emit_progress_frame [simp]:
  "rs_fs (emit_progress ro f st) = rs_fs st" "rs_failures (emit_progress ro f st) = rs_failures st"
  "rs_links (emit_progress ro f st) = rs_links st" "rs_done_files (emit_progress ro f st) = rs_done_files st"
  by (simp_all add: emit_progress_def)

lemma restore_file_post:
  assumes p: "p \<noteq> []" "last p \<noteq> ''..''" "resolve (rs_fs st) (butlast p) = Some d"
    and t: "t = d @ [last p @ ''.lcsas-partial'']" "link_of (rs_fs st) t = None"
  shows "file_post node p (d @ [last p]) t st (restore_file ro node p st)"
proof (cases "on_fs (ro_os ro (Os_mkdir (butlast p))) (\<lambda>fs. mkdirs fs (butlast p)) st")
  case None
  then show ?thesis using t(2) by (auto simp: restore_file_def file_post_def dirs_added_def)
next
  case (Some st1)
  let ?e = "d @ [last p]"
  from Some obtain fs1 where fs1: "mkdirs (rs_fs st) (butlast p) = Some fs1" "st1 = st\<lparr>rs_fs := fs1\<rparr>"
    by (auto simp: on_fs_Some)
  have et: "?e \<noteq> t" by (simp add: t)
  have long: "\<not> below (d @ [c]) d" for c by (simp add: below_def)
  have added: "dirs_added d (rs_fs st) fs1" using mkdirs_same [OF fs1(1)] p(3) unfolding dirs_added_def by auto
  have same: "fs1 ?e = rs_fs st ?e" "fs1 t = rs_fs st t"
    using mkdirs_same [OF fs1(1)] long p(3) unfolding t(1) by (metis option.inject)+
  have links1: "same_links (rs_fs st) (rs_fs st1)" using mkdirs_links [OF fs1(1)] by (simp add: fs1)
  have ent: "entry (rs_fs st) p = Some ?e" "entry (rs_fs st) (partial_path p) = Some t"
    using file_entries [OF p] by (simp_all add: t)
  have ent1: "entry (rs_fs st1) (partial_path p) = Some t" "link_of (rs_fs st1) t = None"
    using ent(2) t(2) entry_same_links [OF links1] links1 by (simp_all add: same_links_def)
  obtain r st2 where r: "write_file ro node p st1 = (r, st2)" by (cases "write_file ro node p st1")
  note w = write_file_post [OF ent1 r]
  have links: "same_links (rs_fs st) (rs_fs st2)"
    using only_at_links [of t] w ent1(2) links1 same_links_trans by blast
  have ent2: "entry (rs_fs st2) p = Some ?e" "entry (rs_fs st2) (partial_path p) = Some t"
    using ent entry_same_links [OF links] by simp_all
  have fs2: "rs_fs st2 x = fs1 x" if "x \<noteq> t" for x using w that by (simp add: only_at_def fs1)
  have frame: "\<exists>fs1. dirs_added d (rs_fs st) fs1 \<and> fs1 ?e = rs_fs st ?e \<and> (\<forall>q. q \<noteq> ?e \<and> q \<noteq> t \<longrightarrow> fs q = fs1 q)"
    if "\<And>q. q \<noteq> ?e \<Longrightarrow> q \<noteq> t \<Longrightarrow> fs q = rs_fs st2 q" for fs
    using added same(1) fs2 that by (intro exI [of _ fs1]) auto
  have cleaned: "file_post node p ?e t st (cleanup_file ro p out st3)"
    if "out \<noteq> O_done" "rs_fs st3 = rs_fs st2" "if out = O_node_failed then \<exists>b x. rs_failures st3 = rs_failures st @ [(p, b, x)]
       else rs_failures st3 = rs_failures st" for out st3
  proof -
    obtain out' st' where c: "cleanup_file ro p out st3 = (out', st')" by (cases "cleanup_file ro p out st3")
    have "entry (rs_fs st3) (partial_path p) = Some t" using ent2(2) that(2) by simp
    note post = cleanup_file_post [OF this c that(1)]
    have e: "rs_fs st' ?e = rs_fs st ?e" using post et fs2 same(1) that(2) by (simp add: only_at_def)
    have "\<exists>fs1. dirs_added d (rs_fs st) fs1 \<and> fs1 ?e = rs_fs st ?e \<and> (\<forall>q. q \<noteq> ?e \<and> q \<noteq> t \<longrightarrow> rs_fs st' q = fs1 q)"
      by (rule frame) (use post that(2) in \<open>simp add: only_at_def\<close>)
    moreover have "link_of (rs_fs st') t = None"
      using post w that(2) by (auto simp: link_of_def)
    ultimately show ?thesis using post e that(3) unfolding c file_post_def by (auto split: outcome.splits if_splits)
  qed
  show ?thesis
  proof (cases r)
    case (Inl out)
    then have "restore_file ro node p st = cleanup_file ro p out st2" by (simp add: restore_file_def Some r)
    then show ?thesis using cleaned [of out st2] w Inl by (auto simp: fs1 split: outcome.splits)
  next
    case (Inr content)
    then obtain chunks where chunks: "content = concat chunks" "get_list node ''content'' = Inr (map digest_id chunks)"
      "rs_fs st2 t = Some (T_file content)" "rs_failures st2 = rs_failures st"
      using w by (auto simp: fs1)
    obtain out st3 where f: "finish_file ro node p st2 = (out, st3)" by (cases "finish_file ro node p st2")
    note post = finish_file_post [OF ent2 f]
    show ?thesis
    proof (cases "out = O_done")
      case True
      let ?st = "emit_progress ro False (st3\<lparr>rs_done_files := rs_done_files st3 + 1, rs_done_bytes := rs_done_bytes st3 + length content\<rparr>)"
      have "restore_file ro node p st = (O_done, ?st)" using True by (simp add: restore_file_def Some r Inr f)
      moreover have "\<exists>fs1. dirs_added d (rs_fs st) fs1 \<and> fs1 ?e = rs_fs st ?e \<and> (\<forall>q. q \<noteq> ?e \<and> q \<noteq> t \<longrightarrow> rs_fs ?st q = fs1 q)"
        by (rule frame) (use post True in simp)
      ultimately show ?thesis using post True chunks et by (auto simp: file_post_def link_of_def)
    next
      case False
      then have "restore_file ro node p st = cleanup_file ro p out st3" by (cases out) (simp_all add: restore_file_def Some r Inr f)
      then show ?thesis using cleaned [of out st3] post False chunks(4) by (auto split: outcome.splits)
    qed
  qed
qed

section \<open>Which exceptions get out\<close>

text \<open>Trees and index entries in the shape of the repository format.\<close>

definition node_wf :: "json \<Rightarrow> bool" where
  "node_wf node \<longleftrightarrow>
     is_dict node \<and> (\<exists>name. item node ''name'' = Some (J_str name)) \<and> metadata_error False node = None \<and>
     (\<exists>ids. get_list node ''content'' = Inr ids \<and> list_all is_str ids) \<and>
     is_str (get_default node ''linktarget'' (J_str [])) \<and> as_int (get_default node ''links'' (J_int 1)) \<noteq> None \<and>
     hashable (fst (link_key node)) \<and> hashable (snd (link_key node)) \<and>
     (case item node ''subtree'' of None \<Rightarrow> True | Some t \<Rightarrow> is_str t)"

definition docs_wf :: "'r restorer_scheme \<Rightarrow> bool" where
  "docs_wf ro \<longleftrightarrow> (\<forall>d doc. rd_json ro d = Some doc \<longrightarrow> (\<exists>nodes. get_list doc ''nodes'' = Inr nodes \<and> list_all node_wf nodes))"

definition index_wf :: "'r reader_scheme \<Rightarrow> bool" where
  "index_wf rd \<longleftrightarrow>
     key_lengths_ok (rd_key rd) \<and>
     list_all (\<lambda>(_, loc). is_str (bl_pack_id loc) \<and> as_int (bl_offset loc) \<noteq> None \<and> as_int (bl_length loc) \<noteq> None \<and>
       (bl_uncompressed_length loc = J_null \<or> as_int (bl_uncompressed_length loc) \<noteq> None)) (rd_index rd)"

lemma is_strE: "is_str j \<Longrightarrow> (\<And>s. j = J_str s \<Longrightarrow> P) \<Longrightarrow> P"
  by (cases j) auto

lemma node_error_Os: "node_error Os_failed"
  by (simp add: node_error_def)

lemma decrypt_blob_error: "key_lengths_ok mk \<Longrightarrow> decrypt_blob mk x = Inl e \<Longrightarrow> e = Integrity_failed"
  using decrypt_no_aes_error
  by (fastforce simp: decrypt_blob_def key_lengths_ok_def split: sum.splits crypt_error.splits)

lemma open_blob_error:
  assumes "key_lengths_ok (rd_key rd)" "as_int (bl_offset loc) \<noteq> None" "as_int (bl_length loc) \<noteq> None"
    and "bl_uncompressed_length loc = J_null \<or> as_int (bl_uncompressed_length loc) \<noteq> None"
    and "open_blob rd i loc f = Inl e"
  shows "node_error e"
  using assms(2-) decrypt_blob_error [OF assms(1)]
  by (auto simp: open_blob_def node_error_def read_range_def decompress_blob_def rbind_def
      split: option.splits sum.splits if_splits)

lemma find_pack_path_error: "is_str pack_id \<Longrightarrow> find_pack_path rd pack_id w = (Inl e, w') \<Longrightarrow> node_error e"
  by (auto simp: find_pack_path_def node_error_Os split: option.splits if_splits prod.splits)

lemma read_blob_error:
  assumes "index_wf rd" "is_str i" "read_blob rd i w = (Inl e, w')"
  shows "node_error e"
proof (cases "map_of (rd_index rd) i")
  case None
  then show ?thesis using assms(2,3) by (auto simp: read_blob_def node_error_def elim: is_strE)
next
  case (Some loc)
  have wf: "is_str (bl_pack_id loc)" "as_int (bl_offset loc) \<noteq> None" "as_int (bl_length loc) \<noteq> None"
    "bl_uncompressed_length loc = J_null \<or> as_int (bl_uncompressed_length loc) \<noteq> None" "key_lengths_ok (rd_key rd)"
    using assms(1) map_of_SomeD [OF Some] by (auto simp: index_wf_def list_all_iff)
  obtain x w1 where x: "find_pack_path rd (bl_pack_id loc) w = (x, w1)" by (cases "find_pack_path rd (bl_pack_id loc) w")
  have "hashable i" using assms(2) by (auto elim: is_strE)
  then show ?thesis
    using assms(3) Some x find_pack_path_error [OF wf(1)] open_blob_error [OF wf(5,2,3,4)]
    by (cases x) (auto simp: read_blob_def)
qed

lemma on_world_read_error:
  assumes "index_wf (reader.truncate ro)" "is_str i" "on_world (read_blob (reader.truncate ro) i) st = (Inl e, st')"
  shows "node_error e"
  using assms(3) read_blob_error [OF assms(1,2)] by (auto simp: on_world_def split: prod.splits)

lemma write_blobs_outcome:
  assumes "index_wf (reader.truncate ro)" "\<not> rd_strict ro" "list_all is_str ids"
    and "write_blobs ro p q ids written st = (Inl out, st')"
  shows "out = O_node_failed \<or> out = O_raised Os_failed"
  using assms(3,4)
proof (induction ids arbitrary: written st)
  case (Cons i ids)
  obtain x st1 where x: "on_world (read_blob (reader.truncate ro) i) st = (x, st1)"
    by (cases "on_world (read_blob (reader.truncate ro) i) st")
  then show ?case
    using Cons assms(2) on_world_read_error [OF assms(1), of i st] by (cases x) (auto split: if_splits)
qed simp

lemma metadata_link: "metadata_error False node = None \<Longrightarrow> metadata_error link node = None"
  by (auto simp: metadata_error_def Let_def split: if_splits)

lemma restore_file_outcome:
  assumes "index_wf (reader.truncate ro)" "\<not> rd_strict ro" "node_wf node"
    and "restore_file ro node p st = (out, st')"
  shows "out \<in> {O_done, O_node_failed, O_raised Os_failed}"
proof -
  obtain ids where ids: "get_list node ''content'' = Inr ids" "list_all is_str ids" using assms(3) by (auto simp: node_wf_def)
  have wr: "out = O_node_failed \<or> out = O_raised Os_failed" if "write_file ro node p st1 = (Inl out, st2)" for out st1 st2
    using that ids(1) write_blobs_outcome [OF assms(1,2) ids(2)]
    by (auto simp: write_file_def Let_def split: option.splits if_splits)
  have finish: "out = O_done \<or> out = O_raised Os_failed" if "finish_file ro node p st1 = (out, st2)" for out st1 st2
    using that metadata_link assms(3) by (auto simp: finish_file_def node_wf_def split: option.splits)
  have clean: "out' \<in> {O_done, O_node_failed, O_raised Os_failed}"
    if "cleanup_file ro p out st1 = (out', st2)" "out \<in> {O_done, O_node_failed, O_raised Os_failed}" for out out' st1 st2
    using that assms(2) by (auto simp: cleanup_file_def node_error_def split: option.splits if_splits)
  show ?thesis
    using assms(4) unfolding restore_file_def
    by (auto split: option.splits prod.splits sum.splits outcome.splits dest!: wr finish clean)
qed

text \<open>Outcomes that a tolerant traversal can have: the recursion limit and loops of links, if \<open>R\<close> allows
  them, are the only exceptions left.\<close>

definition soft :: "bool \<Rightarrow> outcome \<Rightarrow> bool" where
  "soft R out \<longleftrightarrow> out = O_done \<or> R \<and> out = O_raised Recursion_failed"

definition contained :: "bool \<Rightarrow> outcome \<Rightarrow> bool" where
  "contained R out \<longleftrightarrow> (case out of O_raised e \<Rightarrow> node_error e \<or> R \<and> e = Recursion_failed | _ \<Rightarrow> True)"

lemma contained_done: "contained R O_done"
  by (simp add: contained_def)

lemma contain_node_soft: "\<not> rd_strict ro \<Longrightarrow> contained R (fst r) \<Longrightarrow> soft R (fst (contain_node ro p r))"
  by (cases r; cases "fst r") (auto simp: contain_node_def soft_def contained_def)

lemma restore_file_node_contained:
  assumes "index_wf (reader.truncate ro)" "\<not> rd_strict ro" "node_wf node"
  shows "contained R (fst (restore_file_node ro node p st))"
proof -
  have copy: "contained R (fst (restore_copy ro node p st))" for st
    using restore_file_outcome [OF assms, of p st]
    by (cases "restore_file ro node p st") (auto simp: restore_copy_def contained_def node_error_Os)
  have "linked_source node st \<noteq> None"
    using assms(3) by (auto simp: linked_source_def more_links_def node_wf_def split: option.splits bool.splits)
  then show ?thesis
    using copy by (auto simp: restore_file_node_def contained_def split: option.splits prod.splits bool.splits)
qed

lemma restore_symlink_contained:
  assumes "node_wf node" "R" shows "contained R (fst (restore_symlink ro node dir p st))"
proof -
  obtain t where "get_default node ''linktarget'' (J_str []) = J_str t" using assms(1) by (auto simp: node_wf_def elim: is_strE)
  then show ?thesis
    using assms(2) by (auto simp: restore_symlink_def contained_def node_error_Os split: option.splits prod.splits bool.splits)
qed

lemma restore_dir_contained:
  assumes "node_wf node" "\<And>t p st. item node ''subtree'' = Some t \<Longrightarrow> soft R (fst (subtree t p st))"
  shows "contained R (fst (restore_dir subtree ro node p st))"
proof (cases "on_fs (ro_os ro (Os_mkdir p)) (\<lambda>fs. mkdirs fs p) st")
  case (Some st1)
  let ?r = "case item node ''subtree'' of None \<Rightarrow> (O_done, st1) | Some t \<Rightarrow> subtree t p st1"
  have soft: "soft R (fst ?r)" using assms(2) by (auto simp: soft_def split: option.splits)
  have "metadata_error b node = None" for b using assms(1) metadata_link by (auto simp: node_wf_def)
  then have "fst (restore_dir subtree ro node p st) = fst ?r"
    using Some by (cases ?r) (auto simp: restore_dir_def split: outcome.splits)
  then show ?thesis using soft by (auto simp: soft_def contained_def split: outcome.splits)
qed (simp add: restore_dir_def contained_def node_error_Os)

lemma restore_node_soft:
  assumes "index_wf (reader.truncate ro)" "\<not> rd_strict ro" "node_wf node"
    and "\<And>t p st. item node ''subtree'' = Some t \<Longrightarrow> soft R (fst (subtree t p st))"
    and "R \<or> get_default node ''type'' (J_str ''file'') \<noteq> J_str ''symlink''"
  shows "soft R (fst (restore_node subtree ro dir node st))"
proof -
  obtain name where name: "subscript node ''name'' = Inr (J_str name)" using assms(3) by (auto simp: node_wf_def subscript_Inr)
  have "contained R (fst (restore_typed subtree ro node dir (dir @ [name]) st))"
    using assms(5) unfolding restore_typed_def Let_def
    by (simp add: restore_file_node_contained [OF assms(1-3)] restore_dir_contained [OF assms(3,4)]
        contained_done) (blast intro: restore_symlink_contained [OF assms(3)])
  then show ?thesis
    using contain_node_soft [OF assms(2)] by (simp add: restore_node_def name) (simp add: soft_def)
qed

lemma restore_nodes_soft:
  assumes "\<And>node st. node \<in> set nodes \<Longrightarrow> soft R (fst (restore_node subtree ro dir node st))"
  shows "soft R (fst (restore_nodes subtree ro dir nodes st))"
  using assms
proof (induction nodes arbitrary: st)
  case (Cons node nodes)
  have "soft R (fst (restore_node subtree ro dir node st))" using Cons.prems by simp
  then consider st1 where "restore_node subtree ro dir node st = (O_done, st1)"
    | st1 where "R" "restore_node subtree ro dir node st = (O_raised Recursion_failed, st1)"
    by (cases "restore_node subtree ro dir node st") (auto simp: soft_def)
  then show ?case using Cons.IH Cons.prems by cases (simp_all add: soft_def [of _ "O_raised _"])
qed (simp add: soft_def)

text \<open>Subtrees have a smaller rank: no tree contains itself, and the rank bounds the depth.\<close>

definition ranked :: "(json \<Rightarrow> nat) \<Rightarrow> 'r restorer_scheme \<Rightarrow> bool" where
  "ranked h ro \<longleftrightarrow>
     (\<forall>d doc nodes node t. rd_json ro d = Some doc \<longrightarrow> get_list doc ''nodes'' = Inr nodes \<longrightarrow> node \<in> set nodes \<longrightarrow>
        item node ''subtree'' = Some t \<longrightarrow> h t < h (digest_id d))"

definition no_symlinks :: "'r restorer_scheme \<Rightarrow> bool" where
  "no_symlinks ro \<longleftrightarrow>
     (\<forall>d doc nodes node. rd_json ro d = Some doc \<longrightarrow> get_list doc ''nodes'' = Inr nodes \<longrightarrow> node \<in> set nodes \<longrightarrow>
        get_default node ''type'' (J_str ''file'') \<noteq> J_str ''symlink'')"

lemma read_tree_Inr:
  assumes "read_tree ro tid st = (Inr doc, st')"
  obtains d where "tid = digest_id d" "rd_json ro d = Some doc"
  using assms on_world_read [of "reader.truncate ro" tid st]
  by (auto simp: read_tree_def split: prod.splits sum.splits option.splits)

lemma read_tree_Inl:
  assumes "index_wf (reader.truncate ro)" "is_str tid" "read_tree ro tid st = (Inl e, st')"
  shows "node_error e \<or> e = Json_failed"
  using assms(3) on_world_read_error [OF assms(1,2), of st]
  by (auto simp: read_tree_def split: prod.splits sum.splits option.splits)

lemma restore_tree_soft:
  assumes "\<not> rd_strict ro" "index_wf (reader.truncate ro)" "docs_wf ro" "R \<or> no_symlinks ro" "R \<or> ranked h ro"
  shows "is_str tid \<Longrightarrow> R \<or> h tid < depth \<Longrightarrow> soft R (fst (restore_tree depth ro tid dir st))"
proof (induction depth arbitrary: tid dir st)
  case 0
  then show ?case by (simp add: soft_def)
next
  case (Suc depth)
  obtain x st1 where x: "read_tree ro tid st = (x, st1)" by (cases "read_tree ro tid st")
  show ?case
  proof (cases x)
    case (Inl e)
    then show ?thesis using x assms(1) read_tree_Inl [OF assms(2) Suc.prems(1)] by (simp add: soft_def)
  next
    case (Inr doc)
    then obtain d where d: "tid = digest_id d" "rd_json ro d = Some doc" using x read_tree_Inr by metis
    obtain nodes where nodes: "get_list doc ''nodes'' = Inr nodes" "list_all node_wf nodes"
      using assms(3) d(2) by (auto simp: docs_wf_def)
    have "soft R (fst (restore_nodes (restore_tree depth ro) ro dir nodes st1))"
    proof (intro restore_nodes_soft restore_node_soft assms(1,2))
      fix node t p st assume node: "node \<in> set nodes"
      then show wf: "node_wf node" using nodes(2) by (simp add: list_all_iff)
      show "R \<or> get_default node ''type'' (J_str ''file'') \<noteq> J_str ''symlink''"
        using assms(4) d(2) nodes(1) node by (auto simp: no_symlinks_def)
      assume t: "item node ''subtree'' = Some t"
      have "R \<or> h t < h tid" using assms(5) d nodes(1) node t unfolding ranked_def by metis
      then show "soft R (fst (restore_tree depth ro t p st))"
        using Suc.prems(2) wf t by (intro Suc.IH) (auto simp: node_wf_def)
    qed
    then show ?thesis using x Inr nodes(1) by simp
  qed
qed

section \<open>Where a restore writes\<close>

definition plain :: "target \<Rightarrow> bool" where
  "plain fs \<longleftrightarrow> (\<forall>q. link_of fs q = None)"

text \<open>Changes only below a directory, apart from making the directories on the way to it.\<close>

definition changes_below :: "path \<Rightarrow> target \<Rightarrow> target \<Rightarrow> bool" where
  "changes_below d fs fs' \<longleftrightarrow> (\<forall>q. below d q \<or> fs' q = fs q \<or> fs q = None \<and> fs' q = Some T_dir \<and> below q d)"

definition tame :: "path \<Rightarrow> rstate \<Rightarrow> rstate \<Rightarrow> bool" where
  "tame d st st' \<longleftrightarrow> (plain (rs_fs st) \<longrightarrow> plain (rs_fs st') \<and> changes_below d (rs_fs st) (rs_fs st'))"

lemma changes_below_refl [simp]: "changes_below d fs fs"
  by (simp add: changes_below_def)

lemma tame_refl [simp]: "tame d st st"
  by (simp add: tame_def)

lemma tame_same: "rs_fs st' = rs_fs st \<Longrightarrow> tame d st st'"
  by (simp add: tame_def)

lemma tame_trans:
  assumes "tame d st st'" "tame d st' st''" shows "tame d st st''"
  using assms unfolding tame_def changes_below_def by metis

lemma below_linear: "below a q \<Longrightarrow> below b q \<Longrightarrow> below a b \<or> below b a"
  unfolding below_def by (metis linorder_linear min.absorb1 min.absorb2 take_take)

lemma changes_below_sub:
  assumes "changes_below d fs fs'" "below a d" shows "changes_below a fs fs'"
proof -
  have "below a q" if "below d q" for q
    using that assms(2) unfolding below_def by (metis append_take_drop_id append.assoc append_eq_conv_conj)
  moreover have "below a q \<or> below q a" if "below q d" for q using below_linear [OF that assms(2)] by blast
  ultimately show ?thesis using assms(1) unfolding changes_below_def by metis
qed

lemma tame_sub: "tame d st st' \<Longrightarrow> below a d \<Longrightarrow> tame a st st'"
  unfolding tame_def using changes_below_sub by blast

lemma dirs_added_below:
  assumes "dirs_added d fs fs'" shows "changes_below d fs fs'" "plain fs \<Longrightarrow> plain fs'"
proof -
  show "changes_below d fs fs'" using assms by (auto simp: dirs_added_def changes_below_def)
  have "link_of fs' q = link_of fs q" for q
    using assms [unfolded dirs_added_def, rule_format, of q] by (auto simp: link_of_def)
  then show "plain fs'" if "plain fs" using that by (simp add: plain_def)
qed

lemma mkdirs_tame:
  assumes "on_fs b (\<lambda>fs. mkdirs fs p) st = Some st'" "''..'' \<notin> set p"
  shows "tame p st st'"
proof -
  obtain fs' where fs': "mkdirs (rs_fs st) p = Some fs'" "st' = st\<lparr>rs_fs := fs'\<rparr>" using assms(1) by (auto simp: on_fs_Some)
  have "dirs_added p (rs_fs st) fs'" if "plain (rs_fs st)"
    using mkdirs_same [OF fs'(1)] resolve_no_links [OF _ assms(2), of "rs_fs st"] that
    unfolding dirs_added_def plain_def by (metis option.inject)
  then show ?thesis using dirs_added_below unfolding tame_def fs'(2) by simp blast
qed

lemma restore_file_tame:
  assumes "p \<noteq> []" "''..'' \<notin> set p"
  shows "tame (butlast p) st (snd (restore_file ro node p st))"
proof -
  let ?d = "butlast p" and ?e = "butlast p @ [last p]" and ?t = "butlast p @ [last p @ ''.lcsas-partial'']"
  have last: "last p \<noteq> ''..''" and "''..'' \<notin> set ?d" using assms last_in_set in_set_butlastD by fastforce+
  show ?thesis unfolding tame_def
  proof (intro impI)
    assume pl: "plain (rs_fs st)"
    have "resolve (rs_fs st) ?d = Some ?d" using pl resolve_no_links \<open>''..'' \<notin> set ?d\<close> by (simp add: plain_def)
    moreover have "link_of (rs_fs st) ?t = None" using pl by (simp add: plain_def)
    ultimately have post: "file_post node p ?e ?t st (restore_file ro node p st)"
      using restore_file_post [OF assms(1) last] by blast
    then obtain fs1 where fs1: "dirs_added ?d (rs_fs st) fs1" "\<And>q. q \<noteq> ?e \<Longrightarrow> q \<noteq> ?t \<Longrightarrow> rs_fs (snd (restore_file ro node p st)) q = fs1 q"
      "link_of (rs_fs (snd (restore_file ro node p st))) ?t = None"
      by (auto simp: file_post_def)
    have e: "link_of (rs_fs (snd (restore_file ro node p st))) ?e = None"
      using post pl by (auto simp: file_post_def link_of_def plain_def split: outcome.splits)
    have "plain fs1" "changes_below ?d (rs_fs st) fs1" using dirs_added_below [OF fs1(1)] pl by auto
    then show "plain (rs_fs (snd (restore_file ro node p st))) \<and> changes_below ?d (rs_fs st) (rs_fs (snd (restore_file ro node p st)))"
      using fs1(2,3) e unfolding plain_def changes_below_def by (metis below_append link_of_def)
  qed
qed

lemma try_link_tame:
  assumes "p \<noteq> []" "''..'' \<notin> set p"
  shows "tame (butlast p) st (snd (try_link ro src p st))"
proof (cases "on_fs (ro_os ro (Os_mkdir (butlast p))) (\<lambda>fs. mkdirs fs (butlast p)) st")
  case (Some st1)
  have d: "''..'' \<notin> set (butlast p)" using assms(2) in_set_butlastD by fast
  note m = mkdirs_tame [OF Some d]
  show ?thesis
  proof (cases "on_fs (ro_os ro (Os_link src p)) (\<lambda>fs. link_file fs src p) st1")
    case None
    then show ?thesis using m by (simp add: try_link_def Some)
  next
    case (Some st2)
    have "tame (butlast p) st1 st2" unfolding tame_def
    proof (intro impI)
      assume pl: "plain (rs_fs st1)"
      obtain fs2 where fs2: "link_file (rs_fs st1) src p = Some fs2" "rs_fs st2 = fs2" using Some by (auto simp: on_fs_Some)
      have "entry (rs_fs st1) p = Some p" using entry_no_links pl assms(2) by (simp add: plain_def)
      then obtain a where "fs2 = (rs_fs st1)(p := rs_fs st1 a)"
        using fs2(1) by (auto simp: link_file_def split: option.splits if_splits)
      moreover have "below (butlast p) p" using below_append [of "butlast p" "[last p]"] assms(1) by simp
      ultimately show "plain (rs_fs st2) \<and> changes_below (butlast p) (rs_fs st1) (rs_fs st2)"
        using pl by (simp add: fs2(2) plain_def changes_below_def link_of_def)
    qed
    then show ?thesis using m tame_trans Some \<open>on_fs _ _ st = Some st1\<close> by (simp add: try_link_def)
  qed
qed (simp add: try_link_def)

lemma restore_copy_tame: "p \<noteq> [] \<Longrightarrow> ''..'' \<notin> set p \<Longrightarrow> tame (butlast p) st (snd (restore_copy ro node p st))"
  using restore_file_tame [of p st ro node]
  by (cases "restore_file ro node p st") (auto simp: restore_copy_def tame_def split: outcome.splits)

lemma restore_file_node_tame:
  assumes "p \<noteq> []" "''..'' \<notin> set p"
  shows "tame (butlast p) st (snd (restore_file_node ro node p st))"
proof -
  have "tame (butlast p) st (snd (case try_link ro src p st of (True, st) \<Rightarrow> (O_done, st) | (False, st) \<Rightarrow> restore_copy ro node p st))" for src
    using try_link_tame [OF assms, of st ro src] tame_trans [OF _ restore_copy_tame [OF assms], of st]
    by (cases "try_link ro src p st") (auto split: bool.splits)
  then show ?thesis using restore_copy_tame [OF assms] by (auto simp: restore_file_node_def split: option.splits)
qed

lemma restore_dir_tame:
  assumes "''..'' \<notin> set p" "\<And>t st. tame p st (snd (subtree t p st))"
  shows "tame p st (snd (restore_dir subtree ro node p st))"
proof (cases "on_fs (ro_os ro (Os_mkdir p)) (\<lambda>fs. mkdirs fs p) st")
  case (Some st1)
  let ?r = "case item node ''subtree'' of None \<Rightarrow> (O_done, st1) | Some t \<Rightarrow> subtree t p st1"
  have "tame p st1 (snd ?r)" using assms(2) by (simp split: option.splits)
  moreover have "snd (restore_dir subtree ro node p st) = snd ?r"
    using Some by (cases ?r) (auto simp: restore_dir_def split: outcome.splits option.splits)
  ultimately show ?thesis using mkdirs_tame [OF Some assms(1)] tame_trans by metis
qed (simp add: restore_dir_def)

lemma contain_node_fs: "rs_fs (snd (contain_node ro p r)) = rs_fs (snd r)"
  by (cases r; cases "fst r") (auto simp: contain_node_def record_failure_def)

definition no_dotdot :: "'r restorer_scheme \<Rightarrow> bool" where
  "no_dotdot ro \<longleftrightarrow>
     (\<forall>d doc nodes node. rd_json ro d = Some doc \<longrightarrow> get_list doc ''nodes'' = Inr nodes \<longrightarrow> node \<in> set nodes \<longrightarrow>
        item node ''name'' \<noteq> Some (J_str ''..''))"

lemma restore_node_tame:
  assumes "''..'' \<notin> set dir" "item node ''name'' \<noteq> Some (J_str ''..'')"
    and "get_default node ''type'' (J_str ''file'') \<noteq> J_str ''symlink''"
    and "\<And>t p st. ''..'' \<notin> set p \<Longrightarrow> tame p st (snd (subtree t p st))"
  shows "tame dir st (snd (restore_node subtree ro dir node st))"
proof (cases "\<exists>name. subscript node ''name'' = Inr (J_str name)")
  case True
  then obtain name where name: "subscript node ''name'' = Inr (J_str name)" by blast
  let ?p = "dir @ [name]"
  have p: "?p \<noteq> []" "''..'' \<notin> set ?p" using assms(1,2) name by (auto simp: subscript_Inr)
  have "tame dir st (snd (restore_dir subtree ro node ?p st))"
    by (rule tame_sub [OF restore_dir_tame [OF p(2)]]) (use assms(4) p(2) in auto)
  then have "tame dir st (snd (restore_typed subtree ro node dir ?p st))"
    using restore_file_node_tame [OF p, of st ro node] assms(3)
    by (auto simp: restore_typed_def Let_def)
  then have "tame dir st (snd (contain_node ro ?p (restore_typed subtree ro node dir ?p st)))"
    unfolding tame_def contain_node_fs .
  then show ?thesis by (simp add: restore_node_def name)
next
  case False
  then show ?thesis by (auto simp: restore_node_def split: sum.splits json.splits)
qed

lemma restore_nodes_tame:
  assumes "\<And>node st. node \<in> set nodes \<Longrightarrow> tame dir st (snd (restore_node subtree ro dir node st))"
  shows "tame dir st (snd (restore_nodes subtree ro dir nodes st))"
  using assms
proof (induction nodes arbitrary: st)
  case (Cons node nodes)
  obtain out st1 where r: "restore_node subtree ro dir node st = (out, st1)" by (cases "restore_node subtree ro dir node st")
  have "tame dir st st1" using Cons.prems [of node st] r by simp
  moreover have "tame dir st1 (snd (restore_nodes subtree ro dir nodes st1))" using Cons by simp
  ultimately show ?case using r tame_trans by (auto split: outcome.splits)
qed simp

lemma read_tree_fs: "rs_fs (snd (read_tree ro tid st)) = rs_fs st"
  using on_world_fs(1) [of "read_blob (reader.truncate ro) tid" st]
  by (cases "on_world (read_blob (reader.truncate ro) tid) st") (auto simp: read_tree_def split: sum.splits)

lemma restore_tree_tame:
  assumes "no_symlinks ro" "no_dotdot ro"
  shows "''..'' \<notin> set dir \<Longrightarrow> tame dir st (snd (restore_tree depth ro tid dir st))"
proof (induction depth arbitrary: tid dir st)
  case (Suc depth)
  obtain x st1 where x: "read_tree ro tid st = (x, st1)" by (cases "read_tree ro tid st")
  have st1: "rs_fs st1 = rs_fs st" using read_tree_fs [of ro tid st] x by simp
  show ?case
  proof (cases "\<exists>doc nodes. x = Inr doc \<and> get_list doc ''nodes'' = Inr nodes")
    case True
    then obtain doc nodes where doc: "x = Inr doc" "get_list doc ''nodes'' = Inr nodes" by blast
    obtain d where d: "rd_json ro d = Some doc" using x doc(1) read_tree_Inr by metis
    have "tame dir st1 (snd (restore_nodes (restore_tree depth ro) ro dir nodes st1))"
      by (intro restore_nodes_tame restore_node_tame Suc)
        (use assms d doc(2) in \<open>auto simp: no_symlinks_def no_dotdot_def\<close>)
    then show ?thesis using tame_trans [OF tame_same [OF st1]] by (simp add: x doc)
  next
    case False
    then show ?thesis using st1 by (auto simp: x record_failure_def split: sum.splits intro!: tame_same)
  qed
qed simp

end
