(* ===== verification/Restore_Theorems.thy ===== *)
theory Restore_Theorems
  imports Restore_Safety
begin

text \<open>The properties of a restore by the Python reader.\<close>

section \<open>Files\<close>

lemma restore_node_file:
  assumes "item node ''name'' = Some (J_str name)" "path_name name = name" "name \<noteq> []"
    and "get_default node ''type'' (J_str ''file'') = J_str ''file''" "linked_source node st = Some None" "is_dict node"
  shows "restore_node subtree ro dir node st = contain_node ro (dir @ [name]) (restore_copy ro node (dir @ [name]) st)"
  using assms by (simp add: restore_node_def restore_typed_def restore_file_node_def subscript_def)

lemma restore_copy_file:
  "fst (restore_copy ro node p st) = fst (restore_file ro node p st)"
  "rs_fs (snd (restore_copy ro node p st)) = rs_fs (snd (restore_file ro node p st))"
  "rs_failures (snd (restore_copy ro node p st)) = rs_failures (snd (restore_file ro node p st))"
  by (cases "restore_file ro node p st"; auto simp: restore_copy_def split: outcome.splits)+


definition sample_restorer :: "json_reader \<Rightarrow> restorer" where
  "sample_restorer jl =
     reader.extend ((sample_reader sample_loc ''b'' False)\<lparr>rd_json := jl\<rparr>) (restorer.fields (\<lambda>_. False) False)"

definition sample_state :: rstate where
  "sample_state =
     start_state \<lparr>w_view = (\<lambda>_. None), w_swaps = []\<rparr>
       (map_of [([''home''], T_dir), ([''home'', ''target''], T_dir), ([''home'', ''letters''], T_file [7])])"

definition sample_node :: "string \<Rightarrow> json \<Rightarrow> json" where
  "sample_node name content = J_dict [(''name'', J_str name), (''content'', content)]"

lemma sample_restorer_simps [simp]:
  "rd_strict (sample_restorer jl) = False" "rd_json (sample_restorer jl) = jl"
  "ro_os (sample_restorer jl) c = False" "ro_progress (sample_restorer jl) = False"
  "index_wf (reader.truncate (sample_restorer jl))"
  using sample_key_ok
  by (simp_all add: sample_restorer_def sample_reader_def index_wf_def sample_loc_def reader.defs restorer.defs)

lemma sample_state_simps [simp]:
  "rs_fs sample_state = map_of [([''home''], T_dir), ([''home'', ''target''], T_dir), ([''home'', ''letters''], T_file [7])]"
  "rs_failures sample_state = []"
  by (simp_all add: sample_state_def start_state_def)

lemma sample_plain: "plain (rs_fs sample_state)"
  by (simp add: plain_def link_of_def)


section \<open>Trees\<close>


definition sample_tree :: json where
  "sample_tree = J_dict [(''nodes'', J_list [sample_node ''a'' (J_list [J_str ''b'']), sample_node ''c'' (J_list [])])]"

lemma sample_tree_docs:
  "docs_wf (sample_restorer (\<lambda>_. Some sample_tree))" "no_symlinks (sample_restorer (\<lambda>_. Some sample_tree))"
  "ranked h (sample_restorer (\<lambda>_. Some sample_tree))" "no_dotdot (sample_restorer (\<lambda>_. Some sample_tree))"
  by (auto simp: docs_wf_def no_symlinks_def ranked_def no_dotdot_def sample_tree_def sample_node_def node_wf_def
      metadata_error_def get_default_def get_list_def link_key_def)




section \<open>Names and links that escape the checks\<close>


text \<open>
  Links inside the restored tree. The target of a link is checked against the directory of the link,
  not the directory the snapshot is restored to: for a snapshot restored to \<open>/home\<close>, the link \<open>target/l\<close> to
  \<open>../letters\<close> is skipped although it leads to a place inside the restored tree. And a skipped absolute
  link leaves no record.
\<close>

theorem link_policy_gaps:
  "rs_failures (snd (restore_node (\<lambda>_ _ st. (O_done, st)) (sample_restorer (\<lambda>_. None)) [''home'', ''target'']
      (J_dict [(''name'', J_str ''l''), (''type'', J_str ''symlink''), (''linktarget'', J_str ''../letters'')]) sample_state)) =
     [([''home'', ''target'', ''l''], J_str [], ''skipped-symlink: ../letters'')] \<and>
   restore_node (\<lambda>_ _ st. (O_done, st)) (sample_restorer (\<lambda>_. None)) [''home'', ''target'']
      (J_dict [(''name'', J_str ''l''), (''type'', J_str ''symlink''), (''linktarget'', J_str ''/etc/hosts'')]) sample_state =
     (O_done, sample_state)"
proof (intro conjI)
  note eval = restore_node_def restore_typed_def subscript_def path_name_def components_def py_split_on_def get_default_def
    resolve_def MAX_LINKS_def link_of_def below_def restore_symlink_def starts_with_def contain_node_def
  show "rs_failures (snd (restore_node (\<lambda>_ _ st. (O_done, st)) (sample_restorer (\<lambda>_. None)) [''home'', ''target'']
      (J_dict [(''name'', J_str ''l''), (''type'', J_str ''symlink''), (''linktarget'', J_str ''../letters'')]) sample_state)) =
     [([''home'', ''target'', ''l''], J_str [], ''skipped-symlink: ../letters'')]" by (simp add: eval)
  show "restore_node (\<lambda>_ _ st. (O_done, st)) (sample_restorer (\<lambda>_. None)) [''home'', ''target'']
      (J_dict [(''name'', J_str ''l''), (''type'', J_str ''symlink''), (''linktarget'', J_str ''/etc/hosts'')]) sample_state =
     (O_done, sample_state)" by (simp add: eval)
qed

end
