(* ===== verification/Zstd_Bits.thy ===== *)
theory Zstd_Bits
  imports Restic_Crypt
begin

text \<open>
  The zstd decoder of \<open>restore/_zstd_pure.py\<close>, first part: its errors, list access as Python does it, the
  predefined tables, and the three bit readers. A bit reader holds the bytes as one number, as the
  code does, and the position of the next bit.

  The decoder can fail to return on a hostile input, so a computation of the decoder that may do so
  has a value of the type \<open>run\<close>: \<open>None\<close> if it does not return, else an exception or a result. Memory
  is unbounded.
\<close>

unbundle bit_operations_syntax

section \<open>Errors and lists\<close>

datatype zstd_failure = Zstd_error | Index_error | Value_error

type_synonym 'a run = "(zstd_failure, 'a) result option"

definition run_bind :: "'a run \<Rightarrow> ('a \<Rightarrow> 'b run) \<Rightarrow> 'b run" where
  "run_bind m f = (case m of None \<Rightarrow> None | Some (Inl e) \<Rightarrow> Some (Inl e) | Some (Inr a) \<Rightarrow> f a)"

lemma run_bind_simps [simp]:
  "run_bind None f = None" "run_bind (Some (Inl e)) f = Some (Inl e)" "run_bind (Some (Inr a)) f = f a"
  by (simp_all add: run_bind_def)

text \<open>\<open>xs[i]\<close> and \<open>xs[i] = v\<close>: a negative index counts from the end, one out of range raises.\<close>

definition py_index :: "'a list \<Rightarrow> int \<Rightarrow> nat option" where
  "py_index xs i =
     (let j = if i < 0 then i + int (length xs) else i in if 0 \<le> j \<and> j < int (length xs) then Some (nat j) else None)"

definition py_at :: "'a list \<Rightarrow> int \<Rightarrow> (zstd_failure, 'a) result" where
  "py_at xs i = (case py_index xs i of None \<Rightarrow> Inl Index_error | Some j \<Rightarrow> Inr (xs ! j))"

definition py_set :: "'a list \<Rightarrow> int \<Rightarrow> 'a \<Rightarrow> (zstd_failure, 'a list) result" where
  "py_set xs i v = (case py_index xs i of None \<Rightarrow> Inl Index_error | Some j \<Rightarrow> Inr (xs[j := v]))"

definition byte_at :: "bytes \<Rightarrow> nat \<Rightarrow> (zstd_failure, nat) result" where
  "byte_at bs i = (if i < length bs then Inr (unat (bs ! i)) else Inl Index_error)"

text \<open>\<open>bs[i:j]\<close> for \<open>i\<close> and \<open>j\<close> not negative.\<close>

definition py_slice :: "bytes \<Rightarrow> nat \<Rightarrow> nat \<Rightarrow> bytes" where
  "py_slice bs i j = take (j - i) (drop i bs)"

fun bit_length :: "nat \<Rightarrow> nat" where
  "bit_length n = (if n = 0 then 0 else Suc (bit_length (n div 2)))"

declare bit_length.simps [simp del]

section \<open>Predefined tables\<close>

text \<open>Rows of the predefined tables: the base of the next state, additional bits, bits of the next state,
  and the base value.\<close>

definition LL_PREDEF :: "(nat \<times> nat \<times> nat \<times> nat) list" where
  "LL_PREDEF = [
     (0, 0, 4, 0), (16, 0, 4, 0), (32, 0, 5, 1), (0, 0, 5, 3), (0, 0, 5, 4), (0, 0, 5, 6), (0, 0, 5, 7),
     (0, 0, 5, 9), (0, 0, 5, 10), (0, 0, 5, 12), (0, 0, 6, 14), (0, 1, 5, 16), (0, 1, 5, 20),
     (0, 1, 5, 22), (0, 2, 5, 28), (0, 3, 5, 32), (0, 4, 5, 48), (32, 6, 5, 64), (0, 7, 5, 128),
     (0, 8, 6, 256), (0, 10, 6, 1024), (0, 12, 6, 4096), (32, 0, 4, 0), (0, 0, 4, 1), (0, 0, 5, 2),
     (32, 0, 5, 4), (0, 0, 5, 5), (32, 0, 5, 7), (0, 0, 5, 8), (32, 0, 5, 10), (0, 0, 5, 11),
     (0, 0, 6, 13), (32, 1, 5, 16), (0, 1, 5, 18), (32, 1, 5, 22), (0, 2, 5, 24), (32, 3, 5, 32),
     (0, 3, 5, 40), (0, 6, 4, 64), (16, 6, 4, 64), (32, 7, 5, 128), (0, 9, 6, 512), (0, 11, 6, 2048),
     (48, 0, 4, 0), (16, 0, 4, 1), (32, 0, 5, 2), (32, 0, 5, 3), (32, 0, 5, 5), (32, 0, 5, 6),
     (32, 0, 5, 8), (32, 0, 5, 9), (32, 0, 5, 11), (32, 0, 5, 12), (0, 0, 6, 15), (32, 1, 5, 18),
     (32, 1, 5, 20), (32, 2, 5, 24), (32, 2, 5, 28), (32, 3, 5, 40), (32, 4, 5, 48), (0, 16, 6, 65536),
     (0, 15, 6, 32768), (0, 14, 6, 16384), (0, 13, 6, 8192)]"

definition OF_PREDEF :: "(nat \<times> nat \<times> nat \<times> nat) list" where
  "OF_PREDEF = [
     (0, 0, 5, 0), (0, 6, 4, 61), (0, 9, 5, 509), (0, 15, 5, 32765), (0, 21, 5, 2097149), (0, 3, 5, 5),
     (0, 7, 4, 125), (0, 12, 5, 4093), (0, 18, 5, 262141), (0, 23, 5, 8388605), (0, 5, 5, 29),
     (0, 8, 4, 253), (0, 14, 5, 16381), (0, 20, 5, 1048573), (0, 2, 5, 1), (16, 7, 4, 125),
     (0, 11, 5, 2045), (0, 17, 5, 131069), (0, 22, 5, 4194301), (0, 4, 5, 13), (16, 8, 4, 253),
     (0, 13, 5, 8189), (0, 19, 5, 524285), (0, 1, 5, 1), (16, 6, 4, 61), (0, 10, 5, 1021),
     (0, 16, 5, 65533), (0, 28, 5, 268435453), (0, 27, 5, 134217725), (0, 26, 5, 67108861),
     (0, 25, 5, 33554429), (0, 24, 5, 16777213)]"

definition ML_PREDEF :: "(nat \<times> nat \<times> nat \<times> nat) list" where
  "ML_PREDEF = [
     (0, 0, 6, 3), (0, 0, 4, 4), (32, 0, 5, 5), (0, 0, 5, 6), (0, 0, 5, 8), (0, 0, 5, 9), (0, 0, 5, 11),
     (0, 0, 6, 13), (0, 0, 6, 16), (0, 0, 6, 19), (0, 0, 6, 22), (0, 0, 6, 25), (0, 0, 6, 28),
     (0, 0, 6, 31), (0, 0, 6, 34), (0, 1, 6, 37), (0, 1, 6, 41), (0, 2, 6, 47), (0, 3, 6, 59),
     (0, 4, 6, 83), (0, 7, 6, 131), (0, 9, 6, 515), (16, 0, 4, 4), (0, 0, 4, 5), (32, 0, 5, 6),
     (0, 0, 5, 7), (32, 0, 5, 9), (0, 0, 5, 10), (0, 0, 6, 12), (0, 0, 6, 15), (0, 0, 6, 18),
     (0, 0, 6, 21), (0, 0, 6, 24), (0, 0, 6, 27), (0, 0, 6, 30), (0, 0, 6, 33), (0, 1, 6, 35),
     (0, 1, 6, 39), (0, 2, 6, 43), (0, 3, 6, 51), (0, 4, 6, 67), (0, 5, 6, 99), (0, 8, 6, 259),
     (32, 0, 4, 4), (48, 0, 4, 4), (16, 0, 4, 5), (32, 0, 5, 7), (32, 0, 5, 8), (32, 0, 5, 10),
     (32, 0, 5, 11), (0, 0, 6, 14), (0, 0, 6, 17), (0, 0, 6, 20), (0, 0, 6, 23), (0, 0, 6, 26),
     (0, 0, 6, 29), (0, 0, 6, 32), (0, 16, 6, 65539), (0, 15, 6, 32771), (0, 14, 6, 16387),
     (0, 13, 6, 8195), (0, 12, 6, 4099), (0, 11, 6, 2051), (0, 10, 6, 1027)]"

definition LL_CODE_BASE :: "nat list" where
  "LL_CODE_BASE = [
     0, 1, 2, 3, 4, 5, 6, 7, 8, 9, 10, 11, 12, 13, 14, 15, 16, 18, 20, 22, 24, 28, 32, 40, 48, 64, 128,
     256, 512, 1024, 2048, 4096, 8192, 16384, 32768, 65536]"

definition LL_CODE_BITS :: "nat list" where
  "LL_CODE_BITS = [
     0, 0, 0, 0, 0, 0, 0, 0, 0, 0, 0, 0, 0, 0, 0, 0, 1, 1, 1, 1, 2, 2, 3, 3, 4, 6, 7, 8, 9, 10, 11, 12, 13,
     14, 15, 16]"

definition ML_CODE_BASE :: "nat list" where
  "ML_CODE_BASE = [
     3, 4, 5, 6, 7, 8, 9, 10, 11, 12, 13, 14, 15, 16, 17, 18, 19, 20, 21, 22, 23, 24, 25, 26, 27, 28, 29,
     30, 31, 32, 33, 34, 35, 37, 39, 41, 43, 47, 51, 59, 67, 83, 99, 131, 259, 515, 1027, 2051, 4099, 8195,
     16387, 32771, 65539]"

definition ML_CODE_BITS :: "nat list" where
  "ML_CODE_BITS = [
     0, 0, 0, 0, 0, 0, 0, 0, 0, 0, 0, 0, 0, 0, 0, 0, 0, 0, 0, 0, 0, 0, 0, 0, 0, 0, 0, 0, 0, 0, 0, 0, 1, 1,
     1, 1, 2, 2, 3, 3, 4, 4, 5, 7, 8, 9, 10, 11, 12, 13, 14, 15, 16]"

definition OF_CODE_BASE :: "nat list" where
  "OF_CODE_BASE = [
     0, 1, 1, 5, 13, 29, 61, 125, 253, 509, 1021, 2045, 4093, 8189, 16381, 32765, 65533, 131069, 262141,
     524285, 1048573, 2097149, 4194301, 8388605, 16777213, 33554429, 67108861, 134217725, 268435453,
     536870909, 1073741821, 2147483645]"

definition OF_CODE_BITS :: "nat list" where
  "OF_CODE_BITS = [0..<32]"

section \<open>The forward reader\<close>

record forward_reader =
  fw_data :: nat
  fw_bitpos :: nat

definition forward :: "bytes \<Rightarrow> forward_reader" where
  "forward data = \<lparr>fw_data = int_from_bytes_le data, fw_bitpos = 0\<rparr>"

definition fw_peek :: "nat \<Rightarrow> forward_reader \<Rightarrow> nat" where
  "fw_peek nbits r = (if nbits = 0 then 0 else drop_bit (fw_bitpos r) (fw_data r) AND (push_bit nbits 1 - 1))"

definition fw_advance :: "nat \<Rightarrow> forward_reader \<Rightarrow> forward_reader" where
  "fw_advance nbits r = r\<lparr>fw_bitpos := fw_bitpos r + nbits\<rparr>"

definition fw_read :: "nat \<Rightarrow> forward_reader \<Rightarrow> nat \<times> forward_reader" where
  "fw_read nbits r = (fw_peek nbits r, fw_advance nbits r)"

section \<open>The backward reader\<close>

record backward_reader =
  bw_data :: nat
  bw_bitpos :: int

definition backward :: "bytes \<Rightarrow> (zstd_failure, backward_reader) result" where
  "backward data =
     (if data = [] then Inl Zstd_error
      else if last data = 0 then Inl Zstd_error
      else Inr \<lparr>bw_data = int_from_bytes_le data,
                bw_bitpos = int (length data * 8) - 8 + (int (bit_length (unat (last data))) - 1) - 1\<rparr>)"

definition bw_read :: "nat \<Rightarrow> backward_reader \<Rightarrow> nat \<times> backward_reader" where
  "bw_read nbits r =
     (if nbits = 0 then (0, r)
      else if bw_bitpos r < 0 then (0, r)
      else
        let start = bw_bitpos r - int nbits + 1 in
        if start < 0 then
          let avail = nat (bw_bitpos r + 1) in
          (push_bit (nbits - avail) (bw_data r AND (push_bit avail 1 - 1)), r\<lparr>bw_bitpos := bw_bitpos r - int nbits\<rparr>)
        else
          (drop_bit (nat start) (bw_data r) AND (push_bit nbits 1 - 1), r\<lparr>bw_bitpos := bw_bitpos r - int nbits\<rparr>))"

section \<open>The reader with a container\<close>

definition CONT :: nat where "CONT = 8"

record dstream =
  ds_data :: bytes
  ds_ptr :: nat
  ds_container :: nat
  ds_consumed :: nat

definition ds_load :: "bytes \<Rightarrow> nat \<Rightarrow> nat" where
  "ds_load data ptr =
     (let chunk = py_slice data ptr (ptr + CONT) in int_from_bytes_le (chunk @ replicate (CONT - length chunk) 0))"

definition dstream_init :: "bytes \<Rightarrow> (zstd_failure, dstream) result" where
  "dstream_init data =
     (if data = [] then Inl Zstd_error
      else if last data = 0 then Inl Zstd_error
      else
        let size = length data; skip = 8 - (bit_length (unat (last data)) - 1) in
        if CONT \<le> size then
          Inr \<lparr>ds_data = data, ds_ptr = size - CONT, ds_container = ds_load data (size - CONT), ds_consumed = skip\<rparr>
        else
          Inr \<lparr>ds_data = data, ds_ptr = 0, ds_container = ds_load data 0, ds_consumed = skip + (CONT - size) * 8\<rparr>)"

definition ds_reload :: "dstream \<Rightarrow> dstream" where
  "ds_reload d =
     (if ds_consumed d > CONT * 8 \<or> ds_ptr d = 0 then d
      else
        let nbytes = min (drop_bit 3 (ds_consumed d)) (ds_ptr d) in
        d\<lparr>ds_ptr := ds_ptr d - nbytes, ds_consumed := ds_consumed d - nbytes * 8,
          ds_container := ds_load (ds_data d) (ds_ptr d - nbytes)\<rparr>)"

definition ds_read :: "nat \<Rightarrow> dstream \<Rightarrow> nat \<times> dstream" where
  "ds_read nbits d =
     (if nbits = 0 then (0, d)
      else
        let shift = nat ((int (CONT * 8) - int (ds_consumed d) - int nbits) AND (int (CONT * 8) - 1)) in
        (drop_bit shift (ds_container d) AND (push_bit nbits 1 - 1), ds_reload (d\<lparr>ds_consumed := ds_consumed d + nbits\<rparr>)))"

definition ds_overflowed :: "dstream \<Rightarrow> bool" where
  "ds_overflowed d \<longleftrightarrow> ds_consumed d > CONT * 8"

end
