(* ===== verification/Zstd_Fse.thy ===== *)
theory Zstd_Fse
  imports Zstd_Bits
begin

text \<open>
  The zstd decoder, second part: finite state entropy tables, read (\<open>_read_fse_distribution\<close>) and built
  (\<open>_build_fse_table\<close>).
\<close>

unbundle bit_operations_syntax

section \<open>Reading a distribution\<close>

text \<open>A run of symbols that do not occur: two-bit counts, continued while they are three.\<close>

function zero_run :: "forward_reader \<Rightarrow> nat \<Rightarrow> nat \<times> forward_reader" where
  "zero_run r n =
     (case fw_read 2 r of (rep, r') \<Rightarrow> if rep \<noteq> 3 then (n + rep, r') else zero_run r' (n + rep))"
  by pat_completeness auto
termination
proof (relation "measure (\<lambda>(r, n). drop_bit (fw_bitpos r) (fw_data r))", goal_cases)
  case (2 r n rep r')
  then have "drop_bit (fw_bitpos r) (fw_data r) \<noteq> 0" "r' = fw_advance 2 r"
    by (cases "drop_bit (fw_bitpos r) (fw_data r) = 0"; simp add: fw_read_def fw_peek_def)+
  moreover have "drop_bit (fw_bitpos r + 2) (fw_data r) = drop_bit (fw_bitpos r) (fw_data r) div 4"
    by (simp add: drop_bit_nat_def power_add mult.commute flip: div_mult2_eq)
  ultimately show ?case by (simp add: fw_advance_def)
qed simp

record dist_state =
  di_reader :: forward_reader
  di_counts :: "int list"
  di_remaining :: int
  di_threshold :: nat
  di_nbits :: nat
  di_symbol :: nat
  di_previous_is_zero :: bool

text \<open>One symbol: its count is read with one bit less if it lies in the low band.\<close>

definition next_count :: "dist_state \<Rightarrow> int \<times> forward_reader" where
  "next_count s =
     (let threshold = int (di_threshold s);
          max_band = (2 * threshold - 1) - di_remaining s;
          peeked = fw_peek (di_nbits s) (di_reader s);
          low = peeked AND (di_threshold s - 1)
      in if int low < max_band then (int low - 1, fw_advance (di_nbits s - 1) (di_reader s))
         else
           let count = int (peeked AND (2 * di_threshold s - 1));
               count = (if count \<ge> threshold then count - max_band else count)
           in (count - 1, fw_advance (di_nbits s) (di_reader s)))"

definition read_count :: "dist_state \<Rightarrow> dist_state" where
  "read_count s =
     (case next_count s of (count, r) \<Rightarrow>
        let remaining = (if count \<ge> 0 then di_remaining s - count else di_remaining s + count);
            s = s\<lparr>di_reader := r, di_counts := di_counts s @ [count], di_remaining := remaining,
                  di_symbol := di_symbol s + 1, di_previous_is_zero := count = 0\<rparr>
        in if remaining < int (di_threshold s) \<and> remaining > 1 then
             let nbits = bit_length (nat remaining) in s\<lparr>di_nbits := nbits, di_threshold := push_bit (nbits - 1) 1\<rparr>
           else s)"

definition skip_zeros :: "dist_state \<Rightarrow> dist_state" where
  "skip_zeros s =
     (case zero_run (di_reader s) 0 of (n, r) \<Rightarrow>
        s\<lparr>di_reader := r, di_counts := di_counts s @ replicate n 0, di_symbol := di_symbol s + n,
          di_previous_is_zero := False\<rparr>)"

lemma read_count_symbol [simp]: "di_symbol (read_count s) = Suc (di_symbol s)"
  by (simp add: read_count_def Let_def split: prod.splits)

function dist_loop :: "nat \<Rightarrow> dist_state \<Rightarrow> dist_state" where
  "dist_loop max_symbol s =
     (if di_remaining s > 1 \<and> di_symbol s \<le> max_symbol then
        dist_loop max_symbol (if di_previous_is_zero s then skip_zeros s else read_count s)
      else s)"
  by pat_completeness auto
termination
proof (relation "measure (\<lambda>(m, s). 2 * (Suc m - di_symbol s) + (if di_previous_is_zero s then 1 else 0))", goal_cases)
  case (2 m s)
  have "di_symbol s \<le> di_symbol (skip_zeros s)" "\<not> di_previous_is_zero (skip_zeros s)"
    by (simp_all add: skip_zeros_def split: prod.splits)
  then show ?case using 2 by auto
qed simp

declare zero_run.simps [simp del] dist_loop.simps [simp del]

definition read_fse_distribution :: "forward_reader \<Rightarrow> nat \<Rightarrow> nat \<Rightarrow> (zstd_failure, int list \<times> nat \<times> forward_reader) result" where
  "read_fse_distribution r max_symbol max_accuracy =
     (let (a, r) = fw_read 4 r; accuracy_log = a + 5 in
      if accuracy_log > max_accuracy then Inl Zstd_error
      else
        let s = dist_loop max_symbol
              \<lparr>di_reader = r, di_counts = [], di_remaining = int (push_bit accuracy_log 1) + 1,
               di_threshold = push_bit accuracy_log 1, di_nbits = accuracy_log + 1, di_symbol = 0,
               di_previous_is_zero = False\<rparr>
        in if di_remaining s \<noteq> 1 then Inl Zstd_error else Inr (di_counts s, accuracy_log, di_reader s))"

section \<open>Building a decoding table\<close>

record fse_table =
  fse_accuracy_log :: nat
  fse_symbol :: "nat list"
  fse_baseline :: "int list"
  fse_num_bits :: "nat list"

text \<open>The symbols of low probability are laid from the top.\<close>

fun lay_low :: "nat \<Rightarrow> int list \<Rightarrow> nat list \<Rightarrow> int \<Rightarrow> nat list \<Rightarrow> (zstd_failure, nat list \<times> int \<times> nat list) result" where
  "lay_low sy [] states high nxt = Inr (states, high, nxt)"
| "lay_low sy (count # counts) states high nxt =
     (if count = -1 then
        rbind (py_set states high sy) (\<lambda>states. lay_low (Suc sy) counts states (high - 1) (nxt[sy := 1]))
      else if count > 0 then lay_low (Suc sy) counts states high (nxt[sy := nat count])
      else lay_low (Suc sy) counts states high nxt)"

text \<open>The positions above the threshold are skipped; with a negative threshold that never ends.\<close>

partial_function (option) skip_high :: "nat \<Rightarrow> nat \<Rightarrow> int \<Rightarrow> nat \<Rightarrow> nat option" where
  "skip_high step msk high pos =
     (if int pos > high then skip_high step msk high ((pos + step) AND msk) else Some pos)"

fun spread_symbol :: "nat \<Rightarrow> nat \<Rightarrow> int \<Rightarrow> nat \<Rightarrow> nat \<Rightarrow> nat list \<times> nat \<Rightarrow> (nat list \<times> nat) run" where
  "spread_symbol step msk high sy 0 sp = Some (Inr sp)"
| "spread_symbol step msk high sy (Suc n) (states, pos) =
     (case py_set states (int pos) sy of
        Inl e \<Rightarrow> Some (Inl e)
      | Inr states' \<Rightarrow>
          (case skip_high step msk high ((pos + step) AND msk) of
             None \<Rightarrow> None
           | Some pos' \<Rightarrow> spread_symbol step msk high sy n (states', pos')))"

fun spread :: "nat \<Rightarrow> nat \<Rightarrow> int \<Rightarrow> nat \<Rightarrow> int list \<Rightarrow> nat list \<times> nat \<Rightarrow> (nat list \<times> nat) run" where
  "spread step msk high sy [] sp = Some (Inr sp)"
| "spread step msk high sy (count # counts) sp =
     run_bind (spread_symbol step msk high sy (nat count) sp) (spread step msk high (Suc sy) counts)"

text \<open>The transitions of the states, from the running number of occurrences of their symbol.\<close>

fun fse_rows :: "nat \<Rightarrow> nat list \<Rightarrow> nat list \<Rightarrow> (zstd_failure, (int \<times> nat) list) result" where
  "fse_rows accuracy_log [] nxt = Inr []"
| "fse_rows accuracy_log (sy # syms) nxt =
     rbind (py_at nxt (int sy)) (\<lambda>x.
     if bit_length x > accuracy_log + 1 then Inl Value_error
     else
       let nb = accuracy_log + 1 - bit_length x in
       rbind (fse_rows accuracy_log syms (nxt[sy := x + 1])) (\<lambda>rows.
       Inr ((int (push_bit nb x) - int (push_bit accuracy_log 1), nb) # rows)))"

definition build_fse_table :: "int list \<Rightarrow> nat \<Rightarrow> fse_table run" where
  "build_fse_table normalized accuracy_log =
     (let size = push_bit accuracy_log 1;
          step = drop_bit 1 size + drop_bit 3 size + 3;
          msk = size - 1
      in run_bind (Some (lay_low 0 normalized (replicate size 0) (int size - 1) (replicate (length normalized) 0)))
           (\<lambda>(states, high, nxt).
         run_bind (spread step msk high 0 normalized (states, 0)) (\<lambda>(states, _).
         run_bind (Some (fse_rows accuracy_log states nxt)) (\<lambda>rows.
         Some (Inr \<lparr>fse_accuracy_log = accuracy_log, fse_symbol = states, fse_baseline = map fst rows,
                    fse_num_bits = map snd rows\<rparr>)))))"

end
