(* ===== verification/Zstd_Literals.thy ===== *)
theory Zstd_Literals
  imports Zstd_Fse
begin

text \<open>
  The zstd decoder, third part: Huffman weights and tables, and the literals section of a block.
\<close>

unbundle bit_operations_syntax

section \<open>Huffman tables\<close>

record huffman_table =
  hf_max_bits :: nat
  hf_symbols :: "nat list"
  hf_num_bits :: "nat list"

text \<open>The entries of the table in the order they are filled: by weight, then by symbol.\<close>

definition huffman_entries :: "nat \<Rightarrow> nat list \<Rightarrow> (nat \<times> nat) list" where
  "huffman_entries max_bits weights =
     concat (map (\<lambda>w. concat (map (\<lambda>(sy, sw). if sw = w then replicate (push_bit (w - 1) 1) (sy, max_bits + 1 - w) else [])
                (enumerate 0 weights)))
       [1..<max_bits + 1])"

definition build_huffman_from_weights :: "nat list \<Rightarrow> (zstd_failure, huffman_table) result" where
  "build_huffman_from_weights weights =
     (let weight_sum = sum_list (map (\<lambda>w. push_bit (w - 1) 1) (filter (\<lambda>w. w > 0) weights)) in
      if weight_sum = 0 then Inl Zstd_error
      else
        let max_bits = bit_length (weight_sum - 1);
            left = push_bit max_bits 1 - weight_sum
        in if left AND (left - 1) \<noteq> 0 \<or> left = 0 then Inl Zstd_error
           else
             let entries = huffman_entries max_bits (weights @ [bit_length left]) in
             if length entries > push_bit max_bits 1 then Inl Index_error
             else if length entries \<noteq> push_bit max_bits 1 then Inl Zstd_error
             else Inr \<lparr>hf_max_bits = max_bits, hf_symbols = map fst entries, hf_num_bits = map snd entries\<rparr>)"

text \<open>The two interleaved states of the weight stream are drained until a read overflows.\<close>

partial_function (option) drain_weights ::
  "fse_table \<Rightarrow> dstream \<Rightarrow> int \<Rightarrow> int \<Rightarrow> nat list \<Rightarrow> (zstd_failure, nat list) result option" where
  "drain_weights t br state1 state2 weights =
     (case (py_at (fse_symbol t) state1, py_at (fse_baseline t) state1, py_at (fse_num_bits t) state1) of
        (Inr sym1, Inr base1, Inr nb1) \<Rightarrow>
          (case ds_read nb1 br of (bits1, br1) \<Rightarrow>
             case (py_at (fse_symbol t) state2, py_at (fse_baseline t) state2, py_at (fse_num_bits t) state2) of
               (Inr sym2, Inr base2, Inr nb2) \<Rightarrow>
                 if ds_overflowed br1 then Some (Inr (weights @ [sym1, sym2]))
                 else
                   (case ds_read nb2 br1 of (bits2, br2) \<Rightarrow>
                      if ds_overflowed br2 then
                        (case py_at (fse_symbol t) (base1 + int bits1) of
                           Inl e \<Rightarrow> Some (Inl e)
                         | Inr sym3 \<Rightarrow> Some (Inr (weights @ [sym1, sym2, sym3])))
                      else drain_weights t br2 (base1 + int bits1) (base2 + int bits2) (weights @ [sym1, sym2]))
             | _ \<Rightarrow> Some (Inl Index_error))
      | _ \<Rightarrow> Some (Inl Index_error))"

definition fse_decode_weight_stream :: "bytes \<Rightarrow> nat list run" where
  "fse_decode_weight_stream fse_bytes =
     run_bind (Some (read_fse_distribution (forward fse_bytes) 255 6)) (\<lambda>(counts, accuracy_log, fwd).
     let table_bytes = (fw_bitpos fwd + 7) div 8 in
     run_bind (build_fse_table counts accuracy_log) (\<lambda>table.
     run_bind (Some (dstream_init (drop table_bytes fse_bytes))) (\<lambda>br.
     case ds_read accuracy_log br of (state1, br) \<Rightarrow>
     case ds_read accuracy_log br of (state2, br) \<Rightarrow>
     drain_weights table br (int state1) (int state2) [])))"

definition decode_huffman_weights :: "bytes \<Rightarrow> nat \<Rightarrow> (nat list \<times> nat) run" where
  "decode_huffman_weights src header_byte =
     (if header_byte \<ge> 128 then
        let num_weights = header_byte - 127; nbytes = (num_weights + 1) div 2 in
        run_bind (Some (rmap (\<lambda>i. byte_at src (1 + i)) [0..<nbytes])) (\<lambda>bs.
        Some (Inr (take num_weights (concat (map (\<lambda>b. [drop_bit 4 b, b AND 0xF]) bs)), 1 + nbytes)))
      else
        let fse_bytes = py_slice src 1 (1 + header_byte) in
        if length fse_bytes < header_byte then Some (Inl Zstd_error)
        else run_bind (fse_decode_weight_stream fse_bytes) (\<lambda>weights. Some (Inr (weights, 1 + header_byte))))"

section \<open>Huffman streams\<close>

fun huffman_loop :: "huffman_table \<Rightarrow> nat \<Rightarrow> backward_reader \<Rightarrow> bytes \<Rightarrow> (zstd_failure, bytes) result" where
  "huffman_loop t 0 br out = Inr out"
| "huffman_loop t (Suc n) br out =
     (case bw_read (hf_max_bits t) br of (prefix, br) \<Rightarrow>
        rbind (py_at (hf_symbols t) (int prefix)) (\<lambda>sy.
        rbind (py_at (hf_num_bits t) (int prefix)) (\<lambda>nb.
        if sy > 255 then Inl Value_error
        else huffman_loop t n (br\<lparr>bw_bitpos := bw_bitpos br + (int (hf_max_bits t) - int nb)\<rparr>) (out @ [of_nat sy]))))"

definition decode_literals_huffman :: "huffman_table \<Rightarrow> bytes \<Rightarrow> int \<Rightarrow> (zstd_failure, bytes) result" where
  "decode_literals_huffman t stream out_size = rbind (backward stream) (\<lambda>br. huffman_loop t (nat out_size) br [])"

definition decode_literals_4streams :: "huffman_table \<Rightarrow> bytes \<Rightarrow> nat \<Rightarrow> (zstd_failure, bytes) result" where
  "decode_literals_4streams t data regen =
     (if length data < 6 then Inl Zstd_error
      else
        let s1 = int_from_bytes_le (py_slice data 0 2); s2 = int_from_bytes_le (py_slice data 2 4);
            s3 = int_from_bytes_le (py_slice data 4 6);
            seg = (regen + 3) div 4
        in if length data - 6 < s1 + s2 + s3 then Inl Zstd_error
           else
             rbind (decode_literals_huffman t (py_slice data 6 (6 + s1)) (int seg)) (\<lambda>o1.
             rbind (decode_literals_huffman t (py_slice data (6 + s1) (6 + s1 + s2)) (int seg)) (\<lambda>o2.
             rbind (decode_literals_huffman t (py_slice data (6 + s1 + s2) (6 + s1 + s2 + s3)) (int seg)) (\<lambda>o3.
             rbind (decode_literals_huffman t (drop (6 + s1 + s2 + s3) data) (int regen - 3 * int seg)) (\<lambda>o4.
             Inr (o1 @ o2 @ o3 @ o4))))))"

section \<open>The literals section\<close>

text \<open>The sizes in the header of raw or repeated literals, and of compressed ones.\<close>

definition plain_header :: "bytes \<Rightarrow> nat \<Rightarrow> nat \<Rightarrow> (zstd_failure, nat \<times> nat) result" where
  "plain_header src b0 size_format =
     (if size_format = 0 \<or> size_format = 2 then Inr (drop_bit 3 b0, 1)
      else rbind (byte_at src 1) (\<lambda>b1.
        if size_format = 1 then Inr (drop_bit 4 b0 OR push_bit 4 b1, 2)
        else rbind (byte_at src 2) (\<lambda>b2. Inr (drop_bit 4 b0 OR push_bit 4 b1 OR push_bit 12 b2, 3))))"

definition compressed_header :: "bytes \<Rightarrow> nat \<Rightarrow> nat \<Rightarrow> (zstd_failure, nat \<times> nat \<times> nat \<times> nat) result" where
  "compressed_header src b0 size_format =
     rbind (byte_at src 1) (\<lambda>b1.
     rbind (byte_at src 2) (\<lambda>b2.
     if size_format = 0 \<or> size_format = 1 then
       Inr (drop_bit 4 b0 OR push_bit 4 (b1 AND 0x3F), drop_bit 6 b1 OR push_bit 2 b2, 3, if size_format = 0 then 1 else 4)
     else rbind (byte_at src 3) (\<lambda>b3.
       if size_format = 2 then
         Inr (drop_bit 4 b0 OR push_bit 4 b1 OR push_bit 12 (b2 AND 0x3), drop_bit 2 b2 OR push_bit 6 b3, 4, 4)
       else rbind (byte_at src 4) (\<lambda>b4.
         Inr (drop_bit 4 b0 OR push_bit 4 b1 OR push_bit 12 (b2 AND 0x3F),
              drop_bit 6 b2 OR push_bit 2 b3 OR push_bit 10 b4, 5, 4)))))"

definition decode_literals :: "bytes \<Rightarrow> huffman_table option \<Rightarrow> (bytes \<times> nat \<times> huffman_table option) run" where
  "decode_literals src prev_huffman =
     run_bind (Some (byte_at src 0)) (\<lambda>b0.
     let block_type = b0 AND 0x3; size_format = drop_bit 2 b0 AND 0x3 in
     if block_type = 0 \<or> block_type = 1 then
       run_bind (Some (plain_header src b0 size_format)) (\<lambda>(regen, hdr).
       if block_type = 0 then
         let lits = py_slice src hdr (hdr + regen) in
         if length lits < regen then Some (Inl Zstd_error) else Some (Inr (lits, hdr + regen, prev_huffman))
       else run_bind (Some (byte_at src hdr)) (\<lambda>b. Some (Inr (replicate regen (of_nat b), hdr + 1, prev_huffman))))
     else
       run_bind (Some (compressed_header src b0 size_format)) (\<lambda>(regen, comp, hdr, num_streams).
       let payload = py_slice src hdr (hdr + comp) in
       if length payload < comp then Some (Inl Zstd_error)
       else
         run_bind
           (if block_type = 2 then
              run_bind (Some (byte_at payload 0)) (\<lambda>h.
              run_bind (decode_huffman_weights payload h) (\<lambda>(weights, tree_bytes).
              run_bind (Some (build_huffman_from_weights weights)) (\<lambda>table. Some (Inr (table, drop tree_bytes payload)))))
            else
              (case prev_huffman of None \<Rightarrow> Some (Inl Zstd_error) | Some table \<Rightarrow> Some (Inr (table, payload))))
           (\<lambda>(table, stream_data).
         run_bind
           (Some (if num_streams = 1 then decode_literals_huffman table stream_data (int regen)
                  else decode_literals_4streams table stream_data regen))
           (\<lambda>lits. Some (Inr (lits, hdr + comp, Some table))))))"

end
