(* ===== verification/Zstd_Frame.thy ===== *)
theory Zstd_Frame
  imports Zstd_Literals
begin

text \<open>
  The zstd decoder, fourth part: the sequences section, the execution of sequences, blocks and frames,
  and the XXH64 checksum.
\<close>

unbundle bit_operations_syntax

section \<open>Sequence tables\<close>

record seq_table =
  sq_accuracy_log :: nat
  sq_base_value :: "nat list"
  sq_add_bits :: "nat list"
  sq_newstate :: "int list"
  sq_state_nbits :: "nat list"

datatype seq_key = Ll_key | Of_key | Ml_key

definition SEQ_SPEC :: "seq_key \<Rightarrow> (nat \<times> nat \<times> nat \<times> nat) list \<times> nat list \<times> nat list \<times> nat \<times> bool" where
  "SEQ_SPEC k =
     (case k of
        Ll_key \<Rightarrow> (LL_PREDEF, LL_CODE_BASE, LL_CODE_BITS, 35, False)
      | Of_key \<Rightarrow> (OF_PREDEF, OF_CODE_BASE, OF_CODE_BITS, 31, True)
      | Ml_key \<Rightarrow> (ML_PREDEF, ML_CODE_BASE, ML_CODE_BITS, 52, False))"

type_synonym seq_tables = "seq_key \<Rightarrow> seq_table option"

definition resolve_seq_table :: "bytes \<Rightarrow> nat \<Rightarrow> nat \<Rightarrow> seq_tables \<Rightarrow> seq_key \<Rightarrow> (seq_table \<times> nat \<times> seq_tables) run" where
  "resolve_seq_table src pos mode prev_tables k =
     (case SEQ_SPEC k of (predef, code_base, code_bits, max_symbol, is_offset) \<Rightarrow>
        run_bind
          (if mode = 0 then
             Some (Inr (\<lparr>sq_accuracy_log = bit_length (length predef - 1), sq_base_value = map (\<lambda>(_, _, _, b). b) predef,
                         sq_add_bits = map (\<lambda>(_, a, _, _). a) predef, sq_newstate = map (\<lambda>(n, _, _, _). int n) predef,
                         sq_state_nbits = map (\<lambda>(_, _, s, _). s) predef\<rparr>, 0))
           else if mode = 1 then
             run_bind (Some (byte_at src pos)) (\<lambda>c.
             run_bind (Some (py_at code_base (int c))) (\<lambda>base.
             run_bind (Some (py_at code_bits (int c))) (\<lambda>bits.
             Some (Inr (\<lparr>sq_accuracy_log = 0, sq_base_value = [base], sq_add_bits = [bits], sq_newstate = [0],
                         sq_state_nbits = [0]\<rparr>, 1)))))
           else if mode = 2 then
             run_bind (Some (read_fse_distribution (forward (drop pos src)) max_symbol (if is_offset then 8 else 9)))
               (\<lambda>(counts, accuracy_log, fwd).
             run_bind (build_fse_table counts accuracy_log) (\<lambda>fse.
             run_bind (Some (rmap (\<lambda>c. py_at code_base (int c)) (fse_symbol fse))) (\<lambda>bases.
             run_bind (Some (rmap (\<lambda>c. py_at code_bits (int c)) (fse_symbol fse))) (\<lambda>bits.
             Some (Inr (\<lparr>sq_accuracy_log = accuracy_log, sq_base_value = bases, sq_add_bits = bits,
                         sq_newstate = fse_baseline fse, sq_state_nbits = fse_num_bits fse\<rparr>,
                        (fw_bitpos fwd + 7) div 8))))))
           else
             (case prev_tables k of None \<Rightarrow> Some (Inl Zstd_error) | Some prev \<Rightarrow> Some (Inr (prev, 0))))
          (\<lambda>(table, used). Some (Inr (table, used, prev_tables(k := Some table)))))"

section \<open>Repeat offsets\<close>

type_synonym history = "int \<times> int \<times> int"

definition resolve_rep0 :: "history \<Rightarrow> nat \<Rightarrow> int \<times> history" where
  "resolve_rep0 rep ll0 =
     (case rep of (r0, r1, r2) \<Rightarrow> if ll0 = 0 then (r0, (r0, r1, r2)) else (r1, (r1, r0, r2)))"

definition resolve_rep_code :: "history \<Rightarrow> nat \<Rightarrow> (zstd_failure, int \<times> history) result" where
  "resolve_rep_code rep c =
     (case rep of (r0, r1, r2) \<Rightarrow>
        rbind (if c = 3 then Inr (r0 - 1) else py_at [r0, r1, r2] (int c)) (\<lambda>temp.
        if temp = 0 then Inl Zstd_error
        else Inr (temp, (temp, r0, if c \<noteq> 1 then r1 else r2))))"

section \<open>Sequences\<close>

record seq_state =
  ss_ll :: int
  ss_of :: int
  ss_ml :: int
  ss_br :: backward_reader
  ss_rep :: history

definition seq_offset :: "nat \<Rightarrow> nat \<Rightarrow> nat \<Rightarrow> backward_reader \<Rightarrow> history
     \<Rightarrow> (zstd_failure, int \<times> history \<times> backward_reader) result" where
  "seq_offset of_base of_bits ll_base br rep =
     (if of_bits > 1 then
        (case bw_read of_bits br of (x, br) \<Rightarrow>
         case rep of (r0, r1, r2) \<Rightarrow>
           let offset = int of_base + int x in Inr (offset, (offset, r0, r1), br))
      else
        let ll0 = (if ll_base = 0 then 1 else 0) in
        if of_bits = 0 then (case resolve_rep0 rep ll0 of (offset, rep) \<Rightarrow> Inr (offset, rep, br))
        else (case bw_read 1 br of (x, br) \<Rightarrow>
               rbind (resolve_rep_code rep (of_base + ll0 + x)) (\<lambda>(offset, rep). Inr (offset, rep, br))))"

text \<open>One sequence, without the change of states after it.\<close>

definition read_sequence ::
  "seq_table \<Rightarrow> seq_table \<Rightarrow> seq_table \<Rightarrow> seq_state \<Rightarrow> (zstd_failure, (nat \<times> int \<times> nat) \<times> seq_state) result" where
  "read_sequence llt oft mlt s =
     rbind (py_at (sq_base_value oft) (ss_of s)) (\<lambda>of_base.
     rbind (py_at (sq_add_bits oft) (ss_of s)) (\<lambda>of_bits.
     rbind (py_at (sq_base_value llt) (ss_ll s)) (\<lambda>ll_base.
     rbind (seq_offset of_base of_bits ll_base (ss_br s) (ss_rep s)) (\<lambda>(offset, rep, br).
     rbind (py_at (sq_base_value mlt) (ss_ml s)) (\<lambda>ml_base.
     rbind (py_at (sq_add_bits mlt) (ss_ml s)) (\<lambda>ml_bits.
     case bw_read ml_bits br of (ml_x, br) \<Rightarrow>
     rbind (py_at (sq_add_bits llt) (ss_ll s)) (\<lambda>ll_bits.
     case bw_read ll_bits br of (ll_x, br) \<Rightarrow>
     Inr ((ll_base + ll_x, offset, ml_base + ml_x), s\<lparr>ss_br := br, ss_rep := rep\<rparr>))))))))"

definition next_state :: "seq_table \<Rightarrow> int \<Rightarrow> backward_reader \<Rightarrow> (zstd_failure, int \<times> backward_reader) result" where
  "next_state t state br =
     rbind (py_at (sq_newstate t) state) (\<lambda>base.
     rbind (py_at (sq_state_nbits t) state) (\<lambda>nb.
     case bw_read nb br of (x, br) \<Rightarrow> Inr (base + int x, br)))"

definition next_states :: "seq_table \<Rightarrow> seq_table \<Rightarrow> seq_table \<Rightarrow> seq_state \<Rightarrow> (zstd_failure, seq_state) result" where
  "next_states llt oft mlt s =
     rbind (next_state llt (ss_ll s) (ss_br s)) (\<lambda>(ll, br).
     rbind (next_state mlt (ss_ml s) br) (\<lambda>(ml, br).
     rbind (next_state oft (ss_of s) br) (\<lambda>(off, br).
     Inr (s\<lparr>ss_ll := ll, ss_ml := ml, ss_of := off, ss_br := br\<rparr>))))"

fun seq_loop ::
  "seq_table \<Rightarrow> seq_table \<Rightarrow> seq_table \<Rightarrow> nat \<Rightarrow> seq_state \<Rightarrow> (zstd_failure, (nat \<times> int \<times> nat) list \<times> history) result" where
  "seq_loop llt oft mlt 0 s = Inr ([], ss_rep s)"
| "seq_loop llt oft mlt (Suc n) s =
     rbind (read_sequence llt oft mlt s) (\<lambda>(sq, s).
     if n = 0 then Inr ([sq], ss_rep s)
     else rbind (next_states llt oft mlt s) (\<lambda>s.
          rbind (seq_loop llt oft mlt n s) (\<lambda>(sqs, rep). Inr (sq # sqs, rep))))"

text \<open>The number of sequences and the position after it.\<close>

definition sequence_count :: "bytes \<Rightarrow> nat \<Rightarrow> (zstd_failure, nat \<times> nat) result" where
  "sequence_count src b0 =
     (if b0 < 128 then Inr (b0, 1)
      else if b0 < 255 then rbind (byte_at src 1) (\<lambda>b1. Inr (push_bit 8 (b0 - 128) + b1, 2))
      else rbind (byte_at src 1) (\<lambda>b1. rbind (byte_at src 2) (\<lambda>b2. Inr (b1 + push_bit 8 b2 + 0x7F00, 3))))"

definition decode_sequences ::
  "bytes \<Rightarrow> seq_tables \<Rightarrow> history \<Rightarrow> ((nat \<times> int \<times> nat) list \<times> seq_tables \<times> history) run" where
  "decode_sequences src prev_tables rep =
     run_bind (Some (byte_at src 0)) (\<lambda>b0.
     if b0 = 0 then Some (Inr ([], prev_tables, rep))
     else
       run_bind (Some (sequence_count src b0)) (\<lambda>(num_seq, pos).
       run_bind (Some (byte_at src pos)) (\<lambda>modes.
       run_bind (resolve_seq_table src (pos + 1) (drop_bit 6 modes AND 0x3) prev_tables Ll_key) (\<lambda>(llt, used1, tables).
       run_bind (resolve_seq_table src (pos + 1 + used1) (drop_bit 4 modes AND 0x3) tables Of_key) (\<lambda>(oft, used2, tables).
       run_bind (resolve_seq_table src (pos + 1 + used1 + used2) (drop_bit 2 modes AND 0x3) tables Ml_key) (\<lambda>(mlt, used3, tables).
       run_bind (Some (backward (drop (pos + 1 + used1 + used2 + used3) src))) (\<lambda>br.
       case bw_read (sq_accuracy_log llt) br of (ll, br) \<Rightarrow>
       case bw_read (sq_accuracy_log oft) br of (off, br) \<Rightarrow>
       case bw_read (sq_accuracy_log mlt) br of (ml, br) \<Rightarrow>
       run_bind (Some (seq_loop llt oft mlt num_seq
           \<lparr>ss_ll = int ll, ss_of = int off, ss_ml = int ml, ss_br = br, ss_rep = rep\<rparr>)) (\<lambda>(sqs, rep).
       Some (Inr (sqs, tables, rep))))))))))"

section \<open>Execution\<close>

text \<open>A match is copied byte by byte: it may overlap what it writes.\<close>

fun copy_match :: "int \<Rightarrow> nat \<Rightarrow> nat \<Rightarrow> bytes \<Rightarrow> (zstd_failure, bytes) result" where
  "copy_match start j 0 out = Inr out"
| "copy_match start j (Suc n) out =
     rbind (py_at out (start + int j)) (\<lambda>b. copy_match start (Suc j) n (out @ [b]))"

fun execute_loop :: "bytes \<Rightarrow> (nat \<times> int \<times> nat) list \<Rightarrow> nat \<Rightarrow> bytes \<Rightarrow> (zstd_failure, bytes) result" where
  "execute_loop literals [] lit_pos out = Inr (if lit_pos < length literals then out @ drop lit_pos literals else out)"
| "execute_loop literals ((ll, offset, ml) # sqs) lit_pos out =
     (let out = out @ py_slice literals lit_pos (lit_pos + ll); lit_pos = lit_pos + ll in
      if ml = 0 then execute_loop literals sqs lit_pos out
      else
        let start = int (length out) - offset in
        if start < 0 then Inl Zstd_error
        else rbind (copy_match start 0 ml out) (execute_loop literals sqs lit_pos))"

definition execute_sequences :: "bytes \<Rightarrow> (nat \<times> int \<times> nat) list \<Rightarrow> bytes \<Rightarrow> (zstd_failure, bytes) result" where
  "execute_sequences literals sqs out = execute_loop literals sqs 0 out"

section \<open>XXH64\<close>

definition P64_1 :: "64 word" where "P64_1 = 0x9E3779B185EBCA87"
definition P64_2 :: "64 word" where "P64_2 = 0xC2B2AE3D27D4EB4F"
definition P64_3 :: "64 word" where "P64_3 = 0x165667B19E3779F9"
definition P64_4 :: "64 word" where "P64_4 = 0x85EBCA77C2B2AE63"
definition P64_5 :: "64 word" where "P64_5 = 0x27D4EB2F165667C5"

definition rotl64 :: "64 word \<Rightarrow> nat \<Rightarrow> 64 word" where
  "rotl64 x r = push_bit r x OR drop_bit (64 - r) x"

definition read64 :: "bytes \<Rightarrow> nat \<Rightarrow> 64 word" where
  "read64 data off = of_nat (int_from_bytes_le (py_slice data off (off + 8)))"

definition read32 :: "bytes \<Rightarrow> nat \<Rightarrow> 64 word" where
  "read32 data off = of_nat (int_from_bytes_le (py_slice data off (off + 4)))"

definition xxh64_round :: "64 word \<Rightarrow> 64 word \<Rightarrow> 64 word" where
  "xxh64_round acc inp = rotl64 (acc + inp * P64_2) 31 * P64_1"

definition xxh64_merge :: "64 word \<Rightarrow> 64 word \<Rightarrow> 64 word" where
  "xxh64_merge acc val = (acc XOR xxh64_round 0 val) * P64_1 + P64_4"

text \<open>The loops over 32, 8 and 1 bytes; the rest of the data stands for the index.\<close>

fun xxh64_lanes :: "nat \<Rightarrow> bytes \<Rightarrow> 64 word \<times> 64 word \<times> 64 word \<times> 64 word \<Rightarrow> 64 word \<times> 64 word \<times> 64 word \<times> 64 word" where
  "xxh64_lanes 0 data vs = vs"
| "xxh64_lanes (Suc n) data (v1, v2, v3, v4) =
     xxh64_lanes n (drop 32 data)
       (xxh64_round v1 (read64 data 0), xxh64_round v2 (read64 data 8), xxh64_round v3 (read64 data 16),
        xxh64_round v4 (read64 data 24))"

fun xxh64_words :: "nat \<Rightarrow> bytes \<Rightarrow> 64 word \<Rightarrow> 64 word" where
  "xxh64_words 0 data h = h"
| "xxh64_words (Suc n) data h =
     xxh64_words n (drop 8 data) (rotl64 (h XOR xxh64_round 0 (read64 data 0)) 27 * P64_1 + P64_4)"

definition xxh64_tail :: "bytes \<Rightarrow> 64 word \<Rightarrow> 64 word" where
  "xxh64_tail data h =
     (let (data, h) =
        (if 4 \<le> length data then (drop 4 data, rotl64 (h XOR (read32 data 0 * P64_1)) 23 * P64_2 + P64_3) else (data, h))
      in foldl (\<lambda>h b. rotl64 (h XOR (ucast b * P64_5)) 11 * P64_1) h data)"

definition xxh64_avalanche :: "64 word \<Rightarrow> 64 word" where
  "xxh64_avalanche h =
     (let h = (h XOR drop_bit 33 h) * P64_2; h = (h XOR drop_bit 29 h) * P64_3 in h XOR drop_bit 32 h)"

definition xxh64 :: "bytes \<Rightarrow> 64 word \<Rightarrow> 64 word" where
  "xxh64 data seed =
     (let n = length data;
          h = (if 32 \<le> n then
                 case xxh64_lanes (n div 32) data (seed + P64_1 + P64_2, seed + P64_2, seed, seed - P64_1) of
                   (v1, v2, v3, v4) \<Rightarrow>
                     xxh64_merge (xxh64_merge (xxh64_merge (xxh64_merge
                       (rotl64 v1 1 + rotl64 v2 7 + rotl64 v3 12 + rotl64 v4 18) v1) v2) v3) v4
               else seed + P64_5);
          h = h + of_nat n;
          rest = (if 32 \<le> n then drop (n div 32 * 32) data else data);
          h = xxh64_words (length rest div 8) rest h
      in xxh64_avalanche (xxh64_tail (drop (length rest div 8 * 8) rest) h))"

section \<open>Frames\<close>

definition MAGIC :: nat where "MAGIC = 0xFD2FB528"

record block_state =
  bs_out :: bytes
  bs_huffman :: "huffman_table option"
  bs_tables :: seq_tables
  bs_rep :: history

definition compressed_block :: "bytes \<Rightarrow> block_state \<Rightarrow> block_state run" where
  "compressed_block block s =
     run_bind (decode_literals block (bs_huffman s)) (\<lambda>(lits, lit_consumed, huffman).
     run_bind (decode_sequences (drop lit_consumed block) (bs_tables s) (bs_rep s)) (\<lambda>(sqs, tables, rep).
     run_bind (Some (execute_sequences lits sqs (bs_out s))) (\<lambda>out.
     Some (Inr \<lparr>bs_out = out, bs_huffman = huffman, bs_tables = tables, bs_rep = rep\<rparr>))))"

text \<open>One block at a position: the position and the state after it.\<close>

definition decode_block :: "bytes \<Rightarrow> nat \<Rightarrow> nat \<Rightarrow> nat \<Rightarrow> block_state \<Rightarrow> (nat \<times> block_state) run" where
  "decode_block data pos block_type block_size s =
     (if block_type = 0 then
        Some (Inr (pos + block_size, s\<lparr>bs_out := bs_out s @ py_slice data pos (pos + block_size)\<rparr>))
      else if block_type = 1 then
        run_bind (Some (byte_at data pos)) (\<lambda>b.
        Some (Inr (pos + 1, s\<lparr>bs_out := bs_out s @ replicate block_size (of_nat b)\<rparr>)))
      else if block_type = 2 then
        let block = py_slice data pos (pos + block_size) in
        if length block < block_size then Some (Inl Zstd_error)
        else run_bind (compressed_block block s) (\<lambda>s. Some (Inr (pos + block_size, s)))
      else Some (Inl Zstd_error))"

definition block_header :: "bytes \<Rightarrow> nat \<Rightarrow> nat" where
  "block_header data pos =
     unat (data ! pos) OR push_bit 8 (unat (data ! (pos + 1))) OR push_bit 16 (unat (data ! (pos + 2)))"

lemma decode_block_pos: "decode_block data pos ty n s = Some (Inr (pos', s')) \<Longrightarrow> pos \<le> pos'"
  by (auto simp: decode_block_def run_bind_def Let_def split: if_splits option.splits sum.splits)

function decode_blocks :: "bytes \<Rightarrow> nat \<Rightarrow> block_state \<Rightarrow> (nat \<times> block_state) run" where
  "decode_blocks data pos s =
     (if pos + 3 > length data then Some (Inl Zstd_error)
      else
        let bh = block_header data pos in
        case decode_block data (pos + 3) (drop_bit 1 bh AND 0x3) (drop_bit 3 bh) s of
          None \<Rightarrow> None
        | Some (Inl e) \<Rightarrow> Some (Inl e)
        | Some (Inr (pos', s')) \<Rightarrow> if bh AND 1 = 1 then Some (Inr (pos', s')) else decode_blocks data pos' s')"
  by pat_completeness auto
termination
  by (relation "measure (\<lambda>(data, pos, s). Suc (length data) - pos)") (auto dest!: decode_block_pos)

declare decode_blocks.simps [simp del]

text \<open>The position of the first block; a dictionary id other than 0 is refused.\<close>

definition frame_header :: "bytes \<Rightarrow> (zstd_failure, nat \<times> bool) result" where
  "frame_header data =
     (if length data < 5 then Inl Zstd_error
      else if int_from_bytes_le (py_slice data 0 4) \<noteq> MAGIC then Inl Zstd_error
      else
        let fhd = unat (data ! 4);
            dict_id_flag = fhd AND 0x3;
            content_checksum = drop_bit 2 fhd AND 1;
            single_segment = drop_bit 5 fhd AND 1;
            fcs_flag = drop_bit 6 fhd AND 0x3;
            pos = (if single_segment = 0 then 6 else 5);
            dict_id_size = (if dict_id_flag = 3 then 4 else dict_id_flag);
            fcs_size = (if fcs_flag = 0 then (if single_segment = 0 then 0 else 1) else push_bit fcs_flag 1)
        in if int_from_bytes_le (py_slice data pos (pos + dict_id_size)) \<noteq> 0 then Inl Zstd_error
           else Inr (pos + dict_id_size + fcs_size, content_checksum = 1))"

definition decompress_frame :: "bytes \<Rightarrow> bytes run" where
  "decompress_frame data =
     run_bind (Some (frame_header data)) (\<lambda>(pos, content_checksum).
     run_bind (decode_blocks data pos \<lparr>bs_out = [], bs_huffman = None, bs_tables = (\<lambda>_. None), bs_rep = (1, 4, 8)\<rparr>) (\<lambda>(pos, s).
     if \<not> content_checksum then Some (Inr (bs_out s))
     else if pos + 4 > length data then Some (Inl Zstd_error)
     else if unat (xxh64 (bs_out s) 0) AND 0xFFFFFFFF \<noteq> int_from_bytes_le (py_slice data pos (pos + 4)) then Some (Inl Zstd_error)
     else Some (Inr (bs_out s))))"

definition decompress :: "bytes \<Rightarrow> int \<Rightarrow> bytes run" where
  "decompress data max_output_size =
     run_bind (decompress_frame data) (\<lambda>result.
     if max_output_size \<noteq> 0 \<and> int (length result) > max_output_size then Some (Inl Zstd_error) else Some (Inr result))"

end
