(* ===== verification/Zstd_Plain.thy ===== *)
theory Zstd_Plain
  imports Zstd_Frame
begin

text \<open>
  Frames of raw and repeated blocks: what an encoder that does not compress writes is read back; and
  malformed frames on which the decoder does not raise its own error.
\<close>

unbundle bit_operations_syntax

section \<open>Numbers and bytes\<close>

lemma or_push_bit: "a < 2 ^ n \<Longrightarrow> a OR push_bit n b = a + 2 ^ n * (b :: nat)"
proof -
  assume a: "a < 2 ^ n"
  have "a AND push_bit n b = 0"
  proof (rule bit_eqI)
    fix k
    have "\<not> bit a k" if "n \<le> k"
      using a that less_le_trans [OF a power_increasing [OF that, of 2]] by (simp add: bit_iff_odd)
    then show "bit (a AND push_bit n b) k \<longleftrightarrow> bit (0 :: nat) k" by (auto simp: bit_and_iff bit_push_bit_iff)
  qed
  then show ?thesis using disjunctive_add_eq_or [of a "push_bit n b"] by (simp add: push_bit_nat_def mult.commute)
qed

lemma int_from_bytes_le_append:
  "int_from_bytes_le (xs @ ys) = int_from_bytes_le xs + 256 ^ length xs * int_from_bytes_le ys"
proof -
  have shift: "undigits_be 256 (as @ bs) = undigits_be 256 as * 256 ^ length bs + undigits_be 256 bs" for as bs
    by (induction bs rule: rev_induct) (simp_all add: algebra_simps flip: append_assoc)
  show ?thesis by (simp add: int_from_bytes_le_def int_from_bytes_be_def shift)
qed

lemma int_from_bytes_le_simps [simp]:
  "int_from_bytes_le [] = 0" "int_from_bytes_le (b # bs) = unat b + 256 * int_from_bytes_le bs"
  using int_from_bytes_le_append [of "[b]" bs] by (simp_all add: int_from_bytes_le_def int_from_bytes_be_def undigits_be_def)

lemma slice_append [simp]: "py_slice (xs @ ys @ zs) (length xs) (length xs + length ys) = ys"
  by (simp add: py_slice_def)

lemma block_header_le:
  "pos + 3 \<le> length data \<Longrightarrow> block_header data pos = int_from_bytes_le (py_slice data pos (pos + 3))"
proof -
  assume pos: "pos + 3 \<le> length data"
  let ?a = "data ! pos" and ?b = "data ! (pos + 1)" and ?c = "data ! (pos + 2)"
  have "py_slice data pos (pos + 3) = [?a, ?b, ?c]"
    using pos by (intro nth_equalityI) (auto simp: py_slice_def nth_Cons numeral_3_eq_3 less_Suc_eq split: nat.splits)
  moreover have "unat ?b OR push_bit 8 (unat ?c) = unat ?b + 256 * unat ?c" using or_push_bit [of "unat ?b" 8 "unat ?c"] by simp
  then have "push_bit 8 (unat ?b) OR push_bit 16 (unat ?c) = push_bit 8 (unat ?b + 256 * unat ?c)"
    using push_bit_or [of 8 "unat ?b" "push_bit 8 (unat ?c)"] by simp
  then have "block_header data pos = unat ?a OR push_bit 8 (unat ?b + 256 * unat ?c)"
    by (simp add: block_header_def or.assoc)
  ultimately show ?thesis using or_push_bit [of "unat ?a" 8] by simp
qed

section \<open>An encoder that does not compress\<close>

datatype plain_block = Raw_block bytes | Rle_block nat byte

fun block_content :: "plain_block \<Rightarrow> bytes" where
  "block_content (Raw_block bs) = bs"
| "block_content (Rle_block n b) = replicate n b"

fun block_number :: "plain_block \<Rightarrow> nat" where
  "block_number (Raw_block bs) = 8 * length bs"
| "block_number (Rle_block n b) = 2 + 8 * n"

fun block_payload :: "plain_block \<Rightarrow> bytes" where
  "block_payload (Raw_block bs) = bs"
| "block_payload (Rle_block n b) = [b]"

definition encode_block :: "bool \<Rightarrow> plain_block \<Rightarrow> bytes" where
  "encode_block final b = bytes_le 3 (block_number b + (if final then 1 else 0)) @ block_payload b"

fun encode_blocks :: "plain_block list \<Rightarrow> bytes" where
  "encode_blocks [] = []"
| "encode_blocks (b # bs) = encode_block (bs = []) b @ encode_blocks bs"

definition plain_frame :: "bool \<Rightarrow> plain_block list \<Rightarrow> bytes" where
  "plain_frame checksum bs =
     [0x28, 0xB5, 0x2F, 0xFD, if checksum then 4 else 0, 0] @ encode_blocks bs @
     (if checksum then bytes_le 4 (unat (xxh64 (concat (map block_content bs)) 0) AND 0xFFFFFFFF) else [])"

definition fits :: "plain_block \<Rightarrow> bool" where
  "fits b \<longleftrightarrow> length (block_content b) < 2 ^ 21"

lemma length_bytes_le [simp]: "length (bytes_le n v) = n"
  by (simp add: bytes_le_def)

lemma int_bytes_le: "v < 256 ^ n \<Longrightarrow> int_from_bytes_le (bytes_le n v) = v"
  by (simp add: int_from_bytes_le_def bytes_le_def int_from_to_bytes_be)

lemma decode_plain_block:
  fixes final :: bool
  defines "h \<equiv> \<lambda>b. block_number b + (if final then 1 else 0)"
  shows "decode_block (pre @ block_payload b @ post) (length pre) (drop_bit 1 (h b) AND 3) (drop_bit 3 (h b)) s =
      Some (Inr (length pre + length (block_payload b), s\<lparr>bs_out := bs_out s @ block_content b\<rparr>))"
    "h b AND 1 = (if final then 1 else 0)"
proof -
  have d: "drop_bit 3 (h b) = length (block_content b)" by (cases b) (auto simp: h_def drop_bit_nat_def)
  have t: "drop_bit 1 (h b) AND 3 = (case b of Raw_block _ \<Rightarrow> 0 | Rle_block _ _ \<Rightarrow> 1)"
  proof -
    have "x AND 3 = x mod 4" for x :: nat using take_bit_eq_mask [of 2 x] by (simp add: mask_eq_exp_minus_1 take_bit_nat_def)
    then show ?thesis by (cases b) (auto simp: h_def drop_bit_nat_def)
  qed
  show "decode_block (pre @ block_payload b @ post) (length pre) (drop_bit 1 (h b) AND 3) (drop_bit 3 (h b)) s =
      Some (Inr (length pre + length (block_payload b), s\<lparr>bs_out := bs_out s @ block_content b\<rparr>))"
    unfolding d t by (cases b) (simp_all add: decode_block_def byte_at_def)
  show "h b AND 1 = (if final then 1 else 0)" by (cases b) (auto simp: h_def and_one_eq, presburger+)
qed

lemma decode_encoded:
  assumes "bs \<noteq> []" "list_all fits bs"
  shows "decode_blocks (pre @ encode_blocks bs @ post) (length pre) s =
    Some (Inr (length (pre @ encode_blocks bs), s\<lparr>bs_out := bs_out s @ concat (map block_content bs)\<rparr>))"
  using assms
proof (induction bs arbitrary: pre s)
  case (Cons b bs)
  let ?final = "bs = []"
  let ?h = "block_number b + (if ?final then 1 else 0)"
  let ?data = "pre @ encode_blocks (b # bs) @ post"
  have data: "?data = (pre @ bytes_le 3 ?h) @ block_payload b @ encode_blocks bs @ post" by (simp add: encode_block_def)
  have "?h < 256 ^ 3" using Cons.prems(2) by (cases b) (auto simp: fits_def)
  moreover have "py_slice ?data (length pre) (length pre + 3) = bytes_le 3 ?h"
    using slice_append [of pre "bytes_le 3 ?h"] by (simp add: encode_block_def)
  ultimately have bh: "block_header ?data (length pre) = ?h"
    using block_header_le [of "length pre" ?data] int_bytes_le [of ?h 3] by (simp add: encode_block_def)
  have block: "decode_block ?data (length pre + 3) (drop_bit 1 ?h AND 3) (drop_bit 3 ?h) s =
      Some (Inr (length pre + 3 + length (block_payload b), s\<lparr>bs_out := bs_out s @ block_content b\<rparr>))"
    unfolding data using decode_plain_block(1) [of "pre @ bytes_le 3 ?h" b "encode_blocks bs @ post" ?final s] by simp
  have len: "\<not> length ?data < length pre + 3" by (simp add: encode_block_def)
  show ?case
  proof (cases "bs = []")
    case True
    then show ?thesis using bh block len decode_plain_block(2) [of b True] Cons.prems
      by (subst decode_blocks.simps) (simp add: Let_def encode_block_def)
  next
    case False
    have "decode_blocks ?data (length pre + 3 + length (block_payload b)) (s\<lparr>bs_out := bs_out s @ block_content b\<rparr>) =
      Some (Inr (length (pre @ encode_blocks (b # bs)), s\<lparr>bs_out := bs_out s @ concat (map block_content (b # bs))\<rparr>))"
      using Cons.IH [of "pre @ encode_block False b" "s\<lparr>bs_out := bs_out s @ block_content b\<rparr>"] Cons.prems False
      by (simp add: encode_block_def add.assoc)
    then show ?thesis using bh block len decode_plain_block(2) [of b False] False
      by (subst decode_blocks.simps) (simp add: Let_def)
  qed
qed simp

section \<open>Properties\<close>

lemma plain_frame_header:
  "frame_header (plain_frame ck bs) = Inr (6, ck)"
  by (simp add: plain_frame_def frame_header_def py_slice_def MAGIC_def)

lemma xxh64_low: "x AND 0xFFFFFFFF < (256 :: nat) ^ 4"
  using take_bit_eq_mask [of 32 x] take_bit_nat_less_exp [of 32 x] by (simp add: mask_eq_exp_minus_1)



text \<open>
  A frame that ends where the byte of a repeated block is expected raises IndexError, and a raw block
  that is cut short is accepted.
\<close>

lemma malformed_frames_not_refused:
  "decompress [0x28, 0xB5, 0x2F, 0xFD, 0, 0, 43, 0, 0] 0 = Some (Inl Index_error) \<and>
   decompress [0x28, 0xB5, 0x2F, 0xFD, 0, 0, 41, 0, 0, 7] 0 = Some (Inr [7])"
  by (simp add: decompress_def decompress_frame_def frame_header_def py_slice_def MAGIC_def decode_blocks.simps
      block_header_def decode_block_def byte_at_def Let_def)

end
