(* ===== verification/Zstd_Tables.thy ===== *)
theory Zstd_Tables
  imports Zstd_Plain "HOL-Library.Multiset"
begin

text \<open>
  The decoding tables for finite state entropy: every distribution the decoder accepts leads to a
  table, in which each symbol has as many states as the distribution gives it, and no transition
  leaves the table.
\<close>

unbundle bit_operations_syntax

section \<open>Bits\<close>

lemma bit_length_le: "bit_length n \<le> k \<longleftrightarrow> n < 2 ^ k"
proof (induction n arbitrary: k rule: bit_length.induct)
  case (1 n)
  show ?case
  proof (cases "n = 0")
    case False
    then have "bit_length n \<le> k \<longleftrightarrow> 0 < k \<and> n div 2 < 2 ^ (k - 1)"
      using 1 [of "k - 1"] by (subst bit_length.simps) (cases k; auto)
    also have "\<dots> \<longleftrightarrow> n < 2 ^ k" using False by (cases k) auto
    finally show ?thesis .
  qed (simp add: bit_length.simps)
qed

lemma bit_length_less: "n < 2 ^ bit_length n"
  using bit_length_le [of n "bit_length n"] by simp

lemma bit_length_pos: "0 < n \<Longrightarrow> 0 < bit_length n"
  by (subst bit_length.simps) simp

lemma bit_length_ge: "0 < n \<Longrightarrow> 2 ^ (bit_length n - 1) \<le> n"
  using bit_length_le [of n "bit_length n - 1"] bit_length_pos [of n] by (simp add: not_less [symmetric])

lemma and_mask_nat: "x AND (push_bit a 1 - 1) = x mod 2 ^ (a :: nat)" for x :: nat
  using take_bit_eq_mask [of a x] by (simp add: mask_eq_exp_minus_1 take_bit_nat_def push_bit_nat_def)

section \<open>Distributions\<close>

definition sum_abs :: "int list \<Rightarrow> int" where
  "sum_abs cs = sum_list (map abs cs)"

lemma sum_abs_simps [simp]:
  "sum_abs [] = 0" "sum_abs (c # cs) = \<bar>c\<bar> + sum_abs cs" "sum_abs (cs @ ds) = sum_abs cs + sum_abs ds"
  "sum_abs (replicate n 0) = 0"
  by (simp_all add: sum_abs_def sum_list_replicate)

definition dist_inv :: "nat \<Rightarrow> nat \<Rightarrow> dist_state \<Rightarrow> bool" where
  "dist_inv a m s \<longleftrightarrow>
     sum_abs (di_counts s) = 2 ^ a + 1 - di_remaining s \<and> list_all (\<lambda>c. -1 \<le> c) (di_counts s) \<and>
     di_symbol s = length (di_counts s) \<and>
     (\<forall>i < length (di_counts s). m < i \<longrightarrow> di_counts s ! i = 0) \<and>
     (1 < di_remaining s \<longrightarrow> int (di_threshold s) \<le> di_remaining s \<and> di_remaining s < 2 * int (di_threshold s))"

lemma dist_inv_skip: "dist_inv a m s \<Longrightarrow> dist_inv a m (skip_zeros s)"
  by (auto simp: dist_inv_def skip_zeros_def nth_append list_all_iff split: prod.splits)

lemma next_count_ge:
  assumes "int (di_threshold s) \<le> di_remaining s" "next_count s = (c, r)"
  shows "-1 \<le> c"
  using assms by (auto simp: next_count_def Let_def split: if_splits)

lemma threshold_update:
  fixes rem :: int
  assumes "1 < rem"
  shows "int (push_bit (bit_length (nat rem) - 1) 1) \<le> rem \<and> rem < 2 * int (push_bit (bit_length (nat rem) - 1) 1)"
proof -
  have n: "0 < nat rem" using assms by simp
  have "nat rem < 2 ^ Suc (bit_length (nat rem) - 1)" using bit_length_less [of "nat rem"] bit_length_pos [OF n] by simp
  then have "rem < int (2 * 2 ^ (bit_length (nat rem) - 1))" using assms by (subst (asm) nat_less_iff) simp_all
  then show ?thesis using bit_length_ge [OF n] assms by (simp add: push_bit_nat_def)
qed

lemma dist_inv_read:
  assumes "dist_inv a m s" "1 < di_remaining s" "di_symbol s \<le> m"
  shows "dist_inv a m (read_count s)"
proof -
  have th: "int (di_threshold s) \<le> di_remaining s" "di_remaining s < 2 * int (di_threshold s)"
    using assms(1,2) by (auto simp: dist_inv_def)
  obtain c r where c: "next_count s = (c, r)" by (cases "next_count s")
  have ge: "-1 \<le> c" by (rule next_count_ge [OF th(1) c])
  let ?rem = "di_remaining s - \<bar>c\<bar>"
  have rem: "(if c \<ge> 0 then di_remaining s - c else di_remaining s + c) = ?rem" by auto
  show ?thesis
  proof (cases "?rem < int (di_threshold s) \<and> ?rem > 1")
    case True
    then show ?thesis using assms ge threshold_update [of ?rem]
      by (auto simp: dist_inv_def read_count_def c rem Let_def nth_append)
  next
    case False
    then show ?thesis using assms ge th
      by (auto simp: dist_inv_def read_count_def c rem Let_def nth_append)
  qed
qed

lemma dist_loop_inv: "dist_inv a m s \<Longrightarrow> dist_inv a m (dist_loop m s)"
proof (induction m s rule: dist_loop.induct)
  case (1 m s)
  then show ?case using dist_inv_skip dist_inv_read by (subst dist_loop.simps) auto
qed

text \<open>A distribution for a table of \<open>2^a\<close> states, over the symbols up to \<open>m\<close>.\<close>

definition distribution :: "nat \<Rightarrow> nat \<Rightarrow> int list \<Rightarrow> bool" where
  "distribution a m cs \<longleftrightarrow>
     5 \<le> a \<and> sum_abs cs = 2 ^ a \<and> list_all (\<lambda>c. -1 \<le> c) cs \<and> (\<forall>i < length cs. m < i \<longrightarrow> cs ! i = 0)"

lemma read_fse_distribution_valid:
  assumes "read_fse_distribution r m ma = Inr (cs, a, r')"
  shows "distribution a m cs \<and> a \<le> ma"
proof -
  let ?a = "fst (fw_read 4 r) + 5"
  let ?s0 = "\<lparr>di_reader = snd (fw_read 4 r), di_counts = [], di_remaining = int (push_bit ?a 1) + 1,
               di_threshold = push_bit ?a 1, di_nbits = ?a + 1, di_symbol = 0, di_previous_is_zero = False\<rparr>"
  have "dist_inv ?a m ?s0" by (simp add: dist_inv_def push_bit_nat_def)
  then have inv: "dist_inv ?a m (dist_loop m ?s0)" by (rule dist_loop_inv)
  have "a = ?a" "cs = di_counts (dist_loop m ?s0)" "di_remaining (dist_loop m ?s0) = 1" "a \<le> ma"
    using assms by (auto simp: read_fse_distribution_def Let_def case_prod_unfold split: if_splits)
  then show ?thesis using inv by (auto simp: dist_inv_def distribution_def)
qed

section \<open>Laying out the states\<close>

text \<open>The symbols of low probability, and the others as often as they occur.\<close>

definition low_symbols :: "nat \<Rightarrow> int list \<Rightarrow> nat list" where
  "low_symbols k cs = map fst (filter (\<lambda>(i, c). c = -1) (enumerate k cs))"

definition spread_symbols :: "nat \<Rightarrow> int list \<Rightarrow> nat list" where
  "spread_symbols k cs = concat (map (\<lambda>(i, c). replicate (nat c) i) (enumerate k cs))"

lemma low_symbols_simps [simp]:
  "low_symbols k [] = []" "low_symbols k (c # cs) = (if c = -1 then k # low_symbols (Suc k) cs else low_symbols (Suc k) cs)"
  by (simp_all add: low_symbols_def)

lemma spread_symbols_simps [simp]:
  "spread_symbols k [] = []" "spread_symbols k (c # cs) = replicate (nat c) k @ spread_symbols (Suc k) cs"
  by (simp_all add: spread_symbols_def)

lemma symbols_length:
  "list_all (\<lambda>c. -1 \<le> c) cs \<Longrightarrow> int (length (low_symbols k cs) + length (spread_symbols k cs)) = sum_abs cs"
proof (induction cs arbitrary: k)
  case (Cons c cs)
  then have "c = -1 \<or> 0 \<le> c" by auto
  then show ?case using Cons.IH [of "Suc k"] Cons.prems by auto
qed simp

lemma nth_Cons_diff: "k < i \<Longrightarrow> (c # cs) ! (i - k) = cs ! (i - Suc k)"
  by (simp add: nth_Cons')

lemma symbols_count:
  "list_all (\<lambda>c. -1 \<le> c) cs \<Longrightarrow> count (mset (low_symbols k cs) + mset (spread_symbols k cs)) x =
     (if k \<le> x \<and> x < k + length cs then nat \<bar>cs ! (x - k)\<bar> else 0)"
proof (induction cs arbitrary: k)
  case (Cons c cs)
  have IH: "count (mset (low_symbols (Suc k) cs) + mset (spread_symbols (Suc k) cs)) x =
     (if Suc k \<le> x \<and> x < Suc k + length cs then nat \<bar>cs ! (x - Suc k)\<bar> else 0)" using Cons by simp
  show ?case
  proof (cases "x = k")
    case True
    then show ?thesis using IH Cons.prems by auto
  next
    case False
    then have "(c # cs) ! (x - k) = cs ! (x - Suc k)" if "k \<le> x" using that nth_Cons_diff [of k x] by simp
    then show ?thesis using IH False by (auto split: if_splits)
  qed
qed simp

text \<open>The layout of the low symbols, and the first occurrence numbers.\<close>

definition weight :: "int \<Rightarrow> nat" where
  "weight c = nat \<bar>c\<bar>"

lemma py_set_in: "0 \<le> i \<Longrightarrow> i < int (length xs) \<Longrightarrow> py_set xs i v = Inr (xs[nat i := v])"
  by (simp add: py_set_def py_index_def)

lemma py_at_in: "0 \<le> i \<Longrightarrow> i < int (length xs) \<Longrightarrow> py_at xs i = Inr (xs ! nat i)"
  by (simp add: py_at_def py_index_def)

lemma lay_low_ok:
  assumes "int (length (low_symbols k cs)) \<le> high + 1" "high < int (length states)" "k + length cs = length nxt"
    and "list_all (\<lambda>c. -1 \<le> c) cs" "\<And>i. k \<le> i \<Longrightarrow> i < length nxt \<Longrightarrow> nxt ! i = 0"
  shows "\<exists>states' nxt'. lay_low k cs states high nxt = Inr (states', high - int (length (low_symbols k cs)), nxt') \<and>
    length states' = length states \<and>
    (\<forall>q < length states. states' ! q =
       (if high - int (length (low_symbols k cs)) < int q \<and> int q \<le> high then low_symbols k cs ! nat (high - int q) else states ! q)) \<and>
    length nxt' = length nxt \<and> (\<forall>i < length nxt. nxt' ! i = (if i < k then nxt ! i else weight (cs ! (i - k))))"
  using assms
proof (induction cs arbitrary: k high states nxt)
  case (Cons c cs)
  have nth: "(c # cs) ! (i - k) = cs ! (i - Suc k)" if "Suc k \<le> i" for i
    using that nth_Cons_diff [of k i] by simp
  show ?case
  proof (cases "c = -1")
    case True
    let ?L = "low_symbols (Suc k) cs"
    have h: "0 \<le> high" using Cons.prems(1) True by simp
    have set: "py_set states high k = Inr (states[nat high := k])" using h Cons.prems(2) by (rule py_set_in)
    obtain states' nxt' where ih: "lay_low (Suc k) cs (states[nat high := k]) (high - 1) (nxt[k := 1]) =
        Inr (states', high - 1 - int (length ?L), nxt')"
      "length states' = length states" "length nxt' = length nxt"
      "\<And>q. q < length states \<Longrightarrow> states' ! q = (if high - 1 - int (length ?L) < int q \<and> int q \<le> high - 1
         then ?L ! nat (high - 1 - int q) else states[nat high := k] ! q)"
      "\<And>i. i < length nxt \<Longrightarrow> nxt' ! i = (if i < Suc k then nxt[k := 1] ! i else weight (cs ! (i - Suc k)))"
      using Cons.IH [of "Suc k" "high - 1" "states[nat high := k]" "nxt[k := 1]"] Cons.prems True by auto
    have "states' ! q = (if high - int (Suc (length ?L)) < int q \<and> int q \<le> high then (k # ?L) ! nat (high - int q) else states ! q)"
      if "q < length states" for q
    proof -
      have "nat (high - int q) - 1 = nat (high - 1 - int q)" by linarith
      then show ?thesis using ih(4) [OF that] h that by (auto simp: nth_list_update nth_Cons')
    qed
    moreover have "nxt' ! i = (if i < k then nxt ! i else weight ((c # cs) ! (i - k)))" if "i < length nxt" for i
      using ih(5) [OF that] nth [of i] that True by (auto simp: nth_list_update weight_def not_less le_Suc_eq)
    ultimately show ?thesis using ih(1-3) True set by (intro exI [of _ states'] exI [of _ nxt']) simp
  next
    case False
    then have c: "0 \<le> c" using Cons.prems(4) by simp
    define nx where "nx = (if c > 0 then nxt[k := nat c] else nxt)"
    have nx: "length nx = length nxt" "\<And>i. Suc k \<le> i \<Longrightarrow> i < length nx \<Longrightarrow> nx ! i = 0"
      using Cons.prems(5) by (auto simp: nx_def split: if_splits)
    obtain states' nxt' where ih: "lay_low (Suc k) cs states high nx = Inr (states', high - int (length (low_symbols (Suc k) cs)), nxt')"
      "length states' = length states" "length nxt' = length nxt"
      "\<forall>q < length states. states' ! q = (if high - int (length (low_symbols (Suc k) cs)) < int q \<and> int q \<le> high
         then low_symbols (Suc k) cs ! nat (high - int q) else states ! q)"
      "\<And>i. i < length nxt \<Longrightarrow> nxt' ! i = (if i < Suc k then nx ! i else weight (cs ! (i - Suc k)))"
      using Cons.IH [of "Suc k" high states nx] Cons.prems(1-4) nx False by auto
    have "nxt' ! i = (if i < k then nxt ! i else weight ((c # cs) ! (i - k)))" if "i < length nxt" for i
      using ih(5) [OF that] nth [of i] that c Cons.prems(5) [of i] by (auto simp: nx_def nth_list_update weight_def not_less le_Suc_eq split: if_splits)
    then show ?thesis using ih(1-4) False c by (intro exI [of _ states'] exI [of _ nxt']) (auto simp: nx_def)
  qed
qed auto

section \<open>Spreading the symbols\<close>

text \<open>The places of a list of symbols, one after the other.\<close>

fun place_list :: "nat \<Rightarrow> nat \<Rightarrow> int \<Rightarrow> nat list \<Rightarrow> nat list \<times> nat \<Rightarrow> (nat list \<times> nat) run" where
  "place_list step msk high [] sp = Some (Inr sp)"
| "place_list step msk high (x # xs) (states, pos) =
     (case py_set states (int pos) x of
        Inl e \<Rightarrow> Some (Inl e)
      | Inr states' \<Rightarrow>
          (case skip_high step msk high ((pos + step) AND msk) of
             None \<Rightarrow> None
           | Some pos' \<Rightarrow> place_list step msk high xs (states', pos')))"

lemma place_list_append:
  "place_list step msk high (xs @ ys) sp = run_bind (place_list step msk high xs sp) (place_list step msk high ys)"
proof (induction xs arbitrary: sp)
  case (Cons x xs)
  show ?case by (cases sp) (auto simp: Cons split: option.splits sum.splits)
qed simp

lemma spread_symbol_place: "spread_symbol step msk high x n sp = place_list step msk high (replicate n x) sp"
proof (induction n arbitrary: sp)
  case (Suc n)
  show ?case by (cases sp) (auto simp: Suc split: option.splits sum.splits)
qed simp

lemma spread_place: "spread step msk high k cs sp = place_list step msk high (spread_symbols k cs) sp"
proof (induction cs arbitrary: k sp)
  case (Cons c cs)
  have "spread step msk high (Suc k) cs = place_list step msk high (spread_symbols (Suc k) cs)" using Cons by blast
  then show ?case by (simp add: place_list_append spread_symbol_place)
qed simp

text \<open>The walk over the states with an odd step: it reaches each state once.\<close>

definition walk :: "nat \<Rightarrow> nat \<Rightarrow> nat \<Rightarrow> nat" where
  "walk step n k = (k * step) mod n"

lemma walk_next: "(walk step (2 ^ a) k + step) AND (push_bit a 1 - 1) = walk step (2 ^ a) (Suc k)"
  unfolding walk_def and_mask_nat by (simp add: mod_add_right_eq add.commute)

lemma walk_bij:
  assumes "odd step"
  shows "bij_betw (walk step (2 ^ a)) {..<2 ^ a} {..<2 ^ a}"
proof -
  have cop: "coprime (2 ^ a) step" using assms by simp
  have "inj_on (walk step (2 ^ a)) {..<2 ^ a}"
  proof (rule linorder_inj_onI)
    fix i j :: nat assume ij: "i < j" "j \<in> {..<2 ^ a}"
    show "walk step (2 ^ a) i \<noteq> walk step (2 ^ a) j"
    proof
      assume "walk step (2 ^ a) i = walk step (2 ^ a) j"
      then have "2 ^ a dvd j * step - i * step"
        using ij(1) unfolding walk_def by (metis less_imp_le mod_eq_dvd_iff_nat mult_le_mono1)
      then have "2 ^ a dvd (j - i) * step" by (simp add: diff_mult_distrib)
      then have "2 ^ a dvd j - i" using cop coprime_dvd_mult_left_iff by blast
      then show False using ij by (auto dest: dvd_imp_le)
    qed
  qed auto
  moreover have "walk step (2 ^ a) ` {..<2 ^ a} \<subseteq> {..<2 ^ a}" by (auto simp: walk_def)
  ultimately show ?thesis by (simp add: bij_betw_def endo_inj_surj)
qed

lemma skip_high_walk:
  "k \<le> 2 ^ a \<Longrightarrow> \<exists>k'. k \<le> k' \<and> k' \<le> 2 ^ a \<and> walk step (2 ^ a) k' \<le> h \<and> (\<forall>j. k \<le> j \<and> j < k' \<longrightarrow> h < walk step (2 ^ a) j) \<and>
     skip_high step (push_bit a 1 - 1) (int h) (walk step (2 ^ a) k) = Some (walk step (2 ^ a) k')"
proof (induction "2 ^ a - k" arbitrary: k)
  case 0
  then have k: "k = 2 ^ a" by simp
  then have "walk step (2 ^ a) k = 0" by (simp add: walk_def)
  then show ?case using k by (intro exI [of _ k]) (subst skip_high.simps, simp)
next
  case (Suc n)
  show ?case
  proof (cases "walk step (2 ^ a) k \<le> h")
    case True
    then show ?thesis using Suc.prems by (intro exI [of _ k]) (subst skip_high.simps, simp)
  next
    case False
    have n: "n = 2 ^ a - Suc k" "Suc k \<le> 2 ^ a" using Suc.hyps(2) by arith+
    obtain k' where k': "Suc k \<le> k'" "k' \<le> 2 ^ a" "walk step (2 ^ a) k' \<le> h"
      "\<forall>j. Suc k \<le> j \<and> j < k' \<longrightarrow> h < walk step (2 ^ a) j"
      "skip_high step (push_bit a 1 - 1) (int h) (walk step (2 ^ a) (Suc k)) = Some (walk step (2 ^ a) k')"
      using Suc.hyps(1) [OF n] by blast
    then have "\<forall>j. k \<le> j \<and> j < k' \<longrightarrow> h < walk step (2 ^ a) j" using False by (metis le_antisym not_less not_less_eq_eq)
    then show ?thesis using k' False walk_next [of step a k]
      by (intro exI [of _ k']) (subst skip_high.simps, simp)
  qed
qed

text \<open>The steps of the walk that land at or below the threshold.\<close>

definition visits :: "nat \<Rightarrow> nat \<Rightarrow> nat \<Rightarrow> nat \<Rightarrow> nat list" where
  "visits step n h k = filter (\<lambda>j. walk step n j \<le> h) [k..<n]"

lemma visits_skip:
  assumes "k \<le> k'" "k' \<le> n" "\<forall>j. k \<le> j \<and> j < k' \<longrightarrow> h < walk step n j"
  shows "visits step n h k = visits step n h k'"
proof -
  have "[k..<n] = [k..<k'] @ [k'..<n]" using assms(1,2) upt_add_eq_append [of k k' "n - k'"] by simp
  moreover have "filter (\<lambda>j. walk step n j \<le> h) [k..<k'] = []" using assms(3) by (simp add: filter_empty_conv not_le)
  ultimately show ?thesis by (simp add: visits_def)
qed

definition put_all :: "nat list \<Rightarrow> (nat \<times> nat) list \<Rightarrow> nat list" where
  "put_all = foldl (\<lambda>st (j, x). st[j := x])"

lemma place_list_visits:
  assumes "k < 2 ^ a \<Longrightarrow> walk step (2 ^ a) k \<le> h" "k \<le> 2 ^ a" "length xs \<le> length (visits step (2 ^ a) h k)"
    and "length states = 2 ^ a"
  shows "\<exists>pos. place_list step (push_bit a 1 - 1) (int h) xs (states, walk step (2 ^ a) k) =
    Some (Inr (put_all states (zip (map (walk step (2 ^ a)) (visits step (2 ^ a) h k)) xs), pos))"
  using assms
proof (induction xs arbitrary: k states)
  case Nil
  then show ?case by (simp add: put_all_def)
next
  case (Cons x xs)
  let ?w = "walk step (2 ^ a)"
  have k: "k < 2 ^ a" using Cons.prems(2,3) by (cases "k = 2 ^ a") (auto simp: visits_def)
  then have vs: "visits step (2 ^ a) h k = k # visits step (2 ^ a) h (Suc k)"
    using Cons.prems(1) by (simp add: visits_def upt_conv_Cons)
  have wk: "?w k < length states" using Cons.prems(4) by (simp add: walk_def)
  obtain k' where k': "Suc k \<le> k'" "k' \<le> 2 ^ a" "?w k' \<le> h" "\<forall>j. Suc k \<le> j \<and> j < k' \<longrightarrow> h < ?w j"
    "skip_high step (push_bit a 1 - 1) (int h) (?w (Suc k)) = Some (?w k')"
    using skip_high_walk [of "Suc k" a step h] k by auto
  have vs': "visits step (2 ^ a) h (Suc k) = visits step (2 ^ a) h k'" by (rule visits_skip) (use k' in auto)
  obtain pos where "place_list step (push_bit a 1 - 1) (int h) xs (states[?w k := x], ?w k') =
    Some (Inr (put_all (states[?w k := x]) (zip (map ?w (visits step (2 ^ a) h k')) xs), pos))"
    using Cons.IH [of k' "states[?w k := x]"] k' Cons.prems(3,4) vs vs' by auto
  then show ?case using wk k'(5) vs vs' walk_next [of step a k] py_set_in [of "int (?w k)" states x]
    by (auto simp: put_all_def)
qed

lemma put_all_nth:
  "distinct (map fst ps) \<Longrightarrow> q < length st \<Longrightarrow> put_all st ps ! q = (case map_of ps q of Some x \<Rightarrow> x | None \<Rightarrow> st ! q)"
proof (induction ps arbitrary: st)
  case (Cons p ps)
  obtain j x where p: "p = (j, x)" by (cases p)
  have "put_all st (p # ps) ! q = put_all (st[j := x]) ps ! q" by (simp add: put_all_def p)
  also have "\<dots> = (case map_of ps q of Some x \<Rightarrow> x | None \<Rightarrow> st[j := x] ! q)" using Cons by simp
  finally have q: "put_all st (p # ps) ! q = (case map_of ps q of Some x \<Rightarrow> x | None \<Rightarrow> st[j := x] ! q)" .
  have "map_of ps j = None" using Cons.prems(1) by (simp add: p map_of_eq_None_iff)
  then show ?case using Cons.prems(2) unfolding q by (cases "q = j") (auto simp: p split: option.splits)
qed (simp add: put_all_def)

lemma length_put_all [simp]: "length (put_all st ps) = length st"
  by (induction ps arbitrary: st) (auto simp: put_all_def)

text \<open>All symbols spread: the states up to the threshold hold them, the others are untouched.\<close>

lemma put_all_visits:
  assumes "odd step" "h < 2 ^ a" "length st = 2 ^ a"
  defines "vs \<equiv> map (walk step (2 ^ a)) (visits step (2 ^ a) h 0)"
  shows "length vs = Suc h"
    and "length xs = Suc h \<Longrightarrow> mset (map ((!) (put_all st (zip vs xs))) [0..<Suc h]) = mset xs"
    and "length xs = Suc h \<Longrightarrow> h < q \<Longrightarrow> q < 2 ^ a \<Longrightarrow> put_all st (zip vs xs) ! q = st ! q"
proof -
  let ?w = "walk step (2 ^ a)"
  have inj: "inj_on ?w {..<2 ^ a}" and img: "?w ` {..<2 ^ a} = {..<2 ^ a}"
    using walk_bij [OF assms(1), of a] by (auto simp: bij_betw_def)
  have sub: "set (visits step (2 ^ a) h 0) \<subseteq> {..<2 ^ a}" by (auto simp: visits_def)
  have dist: "distinct vs" unfolding vs_def distinct_map
    using inj_on_subset [OF inj sub] by (simp add: visits_def)
  have set: "set vs = {..h}"
  proof
    show "set vs \<subseteq> {..h}" by (auto simp: vs_def visits_def)
    show "{..h} \<subseteq> set vs"
    proof
      fix q assume "q \<in> {..h}"
      then have "q \<in> ?w ` {..<2 ^ a}" using img assms(2) by auto
      then show "q \<in> set vs" using \<open>q \<in> {..h}\<close> by (auto simp: vs_def visits_def)
    qed
  qed
  show len: "length vs = Suc h" using distinct_card [OF dist] set by simp
  assume xs: "length xs = Suc h"
  have dz: "distinct (map fst (zip vs xs))" using dist len xs by simp
  show "mset (map ((!) (put_all st (zip vs xs))) [0..<Suc h]) = mset xs"
  proof -
    have "put_all st (zip vs xs) ! (vs ! i) = xs ! i" if "i < length vs" for i
    proof -
      have "map_of (zip vs xs) (vs ! i) = Some (xs ! i)" using that dist len xs by (simp add: map_of_zip_nth)
      moreover have "vs ! i < length st" using nth_mem [OF that] set assms(2,3) by simp
      ultimately show ?thesis by (simp add: put_all_nth [OF dz])
    qed
    then have "map ((!) (put_all st (zip vs xs))) vs = xs" using len xs by (intro nth_equalityI) simp_all
    moreover have "mset [0..<Suc h] = mset vs"
    proof (rule set_eq_iff_mset_eq_distinct [THEN iffD1])
      show "set [0..<Suc h] = set vs" by (auto simp: set)
    qed (use dist in auto)
    ultimately show ?thesis by (metis mset_map)
  qed
  show "put_all st (zip vs xs) ! q = st ! q" if "h < q" "q < 2 ^ a"
  proof -
    have "map_of (zip vs xs) q = None" using that(1) set len xs by (simp add: map_of_zip_is_None)
    then show ?thesis using put_all_nth [OF dz, of q st] that(2) assms(3) by simp
  qed
qed

section \<open>The transitions\<close>

definition row_ok :: "nat \<Rightarrow> int \<times> nat \<Rightarrow> bool" where
  "row_ok a row \<longleftrightarrow> (case row of (base, nb) \<Rightarrow> 0 \<le> base \<and> base + 2 ^ nb \<le> 2 ^ a)"

lemma fse_rows_ok:
  assumes "\<And>x. x \<in> set syms \<Longrightarrow> x < length nxt \<and> 0 < nxt ! x \<and> nxt ! x + count_list syms x \<le> 2 ^ Suc a"
  shows "\<exists>rows. fse_rows a syms nxt = Inr rows \<and> length rows = length syms \<and> list_all (row_ok a) rows"
  using assms
proof (induction syms arbitrary: nxt)
  case (Cons x syms)
  let ?n = "nxt ! x" and ?nb = "a + 1 - bit_length (nxt ! x)"
  have x: "x < length nxt" "0 < ?n" "?n + count_list (x # syms) x \<le> 2 ^ Suc a" using Cons.prems [of x] by auto
  then have bl: "bit_length ?n \<le> a + 1" unfolding bit_length_le by simp
  have "2 ^ (bit_length ?n - 1) \<le> ?n" "?n < 2 ^ bit_length ?n" "0 < bit_length ?n"
    using bit_length_ge bit_length_less bit_length_pos x(2) by blast+
  then have lo: "2 ^ (bit_length ?n - 1) * 2 ^ ?nb \<le> ?n * 2 ^ ?nb" and hi: "Suc ?n * 2 ^ ?nb \<le> 2 ^ bit_length ?n * (2 :: nat) ^ ?nb"
    by (intro mult_le_mono1, simp)+
  have "2 ^ (bit_length ?n - 1) * 2 ^ ?nb = (2 :: nat) ^ a" "2 ^ bit_length ?n * 2 ^ ?nb = (2 :: nat) ^ Suc a"
    using bl \<open>0 < bit_length ?n\<close> by (simp_all flip: power_add)
  then have "(2 :: nat) ^ a \<le> ?n * 2 ^ ?nb" "?n * 2 ^ ?nb + 2 ^ ?nb \<le> 2 * 2 ^ a"
    using lo hi by (simp_all only: mult_Suc power_Suc add.commute)
  then have "int (2 ^ a) \<le> int (?n * 2 ^ ?nb)" "int (?n * 2 ^ ?nb + 2 ^ ?nb) \<le> int (2 * 2 ^ a)" by (simp_all only: of_nat_le_iff)
  then have row: "row_ok a (int (push_bit ?nb ?n) - int (push_bit a 1), ?nb)"
    by (simp add: row_ok_def push_bit_nat_def)
  have "y < length (nxt[x := ?n + 1]) \<and> 0 < nxt[x := ?n + 1] ! y \<and> nxt[x := ?n + 1] ! y + count_list syms y \<le> 2 ^ Suc a"
    if "y \<in> set syms" for y
    using Cons.prems [of y] that x by (auto simp: nth_list_update)
  then obtain rows where "fse_rows a syms (nxt[x := ?n + 1]) = Inr rows" "length rows = length syms" "list_all (row_ok a) rows"
    using Cons.IH by blast
  then show ?case using row bl x(1) py_at_in [of "int x" nxt] by (simp add: Let_def)
qed simp

section \<open>Tables\<close>

definition fse_table_ok :: "nat \<Rightarrow> int list \<Rightarrow> fse_table \<Rightarrow> bool" where
  "fse_table_ok a cs t \<longleftrightarrow>
     fse_accuracy_log t = a \<and> length (fse_symbol t) = 2 ^ a \<and> length (fse_baseline t) = 2 ^ a \<and> length (fse_num_bits t) = 2 ^ a \<and>
     (\<forall>x. count_list (fse_symbol t) x = (if x < length cs then nat \<bar>cs ! x\<bar> else 0)) \<and>
     (\<forall>i < 2 ^ a. 0 \<le> fse_baseline t ! i \<and> fse_baseline t ! i + 2 ^ (fse_num_bits t ! i) \<le> 2 ^ a)"

lemma step_odd: "5 \<le> a \<Longrightarrow> odd (drop_bit 1 (push_bit a 1) + drop_bit 3 (push_bit a 1) + (3 :: nat))"
proof -
  assume a: "5 \<le> a"
  then obtain b where b: "a = b + 5" by (metis add.commute le_Suc_ex)
  then show ?thesis by (simp add: drop_bit_nat_def push_bit_nat_def power_add)
qed

lemma mset_by_parts:
  assumes "length st = n" "k \<le> n" "mset (map ((!) st) [0..<k]) = A" "mset (map ((!) st) [k..<n]) = B"
  shows "mset st = A + B"
proof -
  have "st = map ((!) st) [0..<k] @ map ((!) st) [k..<n]"
    using assms(1,2) map_nth [of st] upt_add_eq_append [of 0 k "n - k"] by (simp flip: map_append)
  then show ?thesis using assms(3,4) by (metis mset_append)
qed

text \<open>The states after both layouts hold each symbol as often as the distribution says.\<close>

lemma states_filled:
  assumes "distribution a m cs" "lay_low 0 cs (replicate (2 ^ a) 0) (2 ^ a - 1) (replicate (length cs) 0) = Inr (st1, high, nxt)"
  defines "step \<equiv> drop_bit 1 (push_bit a 1) + drop_bit 3 (push_bit a 1) + 3"
  obtains st2 pos where "spread step (push_bit a 1 - 1) high 0 cs (st1, 0) = Some (Inr (st2, pos))" "length st2 = 2 ^ a"
    "mset st2 = mset (low_symbols 0 cs) + mset (spread_symbols 0 cs)"
proof -
  let ?L = "low_symbols 0 cs" and ?S = "spread_symbols 0 cs"
  have cs: "list_all (\<lambda>c. -1 \<le> c) cs" "sum_abs cs = 2 ^ a" "5 \<le> a" using assms(1) by (auto simp: distribution_def)
  have "int (length ?L + length ?S) = int (2 ^ a)" using symbols_length [OF cs(1), of 0] cs(2) by simp
  then have len: "length ?L + length ?S = 2 ^ a" by (simp only: of_nat_eq_iff)
  have ilen: "int (length ?L) + int (length ?S) = 2 ^ a" using symbols_length [OF cs(1), of 0] cs(2) by simp
  then have "int (length ?L) \<le> 2 ^ a - 1 + 1" by linarith
  then obtain st nx where "lay_low 0 cs (replicate (2 ^ a) 0) (2 ^ a - 1) (replicate (length cs) 0) =
      Inr (st, 2 ^ a - 1 - int (length ?L), nx)" "length st = 2 ^ a"
    "\<forall>q < 2 ^ a. st ! q = (if 2 ^ a - 1 - int (length ?L) < int q \<and> int q \<le> 2 ^ a - 1 then ?L ! nat (2 ^ a - 1 - int q) else 0)"
    using lay_low_ok [of 0 cs "2 ^ a - 1" "replicate (2 ^ a) 0" "replicate (length cs) 0"] cs(1) by auto
  then have high: "high = 2 ^ a - 1 - int (length ?L)" and st1: "length st1 = 2 ^ a"
    "\<And>q. q < 2 ^ a \<Longrightarrow> 2 ^ a - 1 - int (length ?L) < int q \<Longrightarrow> st1 ! q = ?L ! nat (2 ^ a - 1 - int q)"
    using assms(2) by auto
  have top: "mset (map ((!) st) [length ?S..<2 ^ a]) = mset ?L"
    if "\<And>q. length ?S \<le> q \<Longrightarrow> q < 2 ^ a \<Longrightarrow> st ! q = st1 ! q" for st
  proof -
    have "map ((!) st) [length ?S..<2 ^ a] = rev ?L"
    proof (rule nth_equalityI)
      fix i assume i: "i < length (map ((!) st) [length ?S..<2 ^ a])"
      let ?q = "length ?S + i"
      have q: "?q < 2 ^ a" using i by simp
      have "2 ^ a - 1 - int (length ?L) < int ?q" "nat (2 ^ a - 1 - int ?q) = length ?L - Suc i" using ilen by linarith+
      then show "map ((!) st) [length ?S..<2 ^ a] ! i = rev ?L ! i"
        using that [of ?q] st1(2) [OF q] i len q by (simp add: rev_nth)
    qed (use len in simp)
    then show ?thesis by simp
  qed
  show ?thesis
  proof (cases "?S = []")
    case True
    then show ?thesis
      using that [of st1 0] mset_by_parts [OF st1(1), of 0 "{#}" "mset ?L"] top [of st1] st1(1) by (simp add: spread_place)
  next
    case False
    define h where "h = length ?S - 1"
    have h1: "length ?S = Suc h" using False by (simp add: h_def)
    have "int (2 ^ a) = int (length ?L) + int (Suc h)" using len h1 by (metis of_nat_add)
    then have h: "length ?S = Suc h" "h < 2 ^ a" "high = int h" using h1 len high by simp_all
    let ?vs = "map (walk step (2 ^ a)) (visits step (2 ^ a) h 0)"
    note pv = put_all_visits [OF step_odd [OF cs(3)] h(2) st1(1), folded step_def]
    obtain pos where pos: "place_list step (push_bit a 1 - 1) (int h) ?S (st1, walk step (2 ^ a) 0) =
        Some (Inr (put_all st1 (zip ?vs ?S), pos))"
      using place_list_visits [of 0 a step h ?S st1] pv(1) h(1) st1(1) by (auto simp: walk_def)
    have "mset (put_all st1 (zip ?vs ?S)) = mset ?S + mset ?L"
      using mset_by_parts [of "put_all st1 (zip ?vs ?S)" "2 ^ a" "Suc h"] pv(2,3) [OF h(1)] top [of "put_all st1 (zip ?vs ?S)"] h st1(1)
      by simp
    then show ?thesis using that [of "put_all st1 (zip ?vs ?S)" pos] pos st1(1)
      by (simp add: spread_place h(3) walk_def add.commute)
  qed
qed

lemma sum_abs_nonneg [simp]: "0 \<le> sum_abs cs"
  by (induction cs) auto

lemma weight_le_sum: "x < length cs \<Longrightarrow> int (weight (cs ! x)) \<le> sum_abs cs"
proof (induction cs arbitrary: x)
  case (Cons c cs)
  show ?case
  proof (cases x)
    case 0
    then show ?thesis by (simp add: weight_def)
  next
    case (Suc y)
    then have "int (weight (cs ! y)) \<le> sum_abs cs" using Cons by simp
    then show ?thesis using Suc by simp
  qed
qed simp

lemma build_fse_table_ok:
  assumes "distribution a m cs"
  shows "\<exists>t. build_fse_table cs a = Some (Inr t) \<and> fse_table_ok a cs t"
proof -
  have cs: "list_all (\<lambda>c. -1 \<le> c) cs" "sum_abs cs = 2 ^ a" using assms by (auto simp: distribution_def)
  have "int (length (low_symbols 0 cs)) \<le> 2 ^ a" using symbols_length [OF cs(1), of 0] cs(2) by linarith
  then obtain st1 high nxt where lay: "lay_low 0 cs (replicate (2 ^ a) 0) (2 ^ a - 1) (replicate (length cs) 0) = Inr (st1, high, nxt)"
    and nxt: "length nxt = length cs" "\<forall>i < length cs. nxt ! i = weight (cs ! i)"
    using lay_low_ok [of 0 cs "2 ^ a - 1" "replicate (2 ^ a) 0" "replicate (length cs) 0"] cs(1) by auto
  let ?step = "drop_bit 1 (push_bit a 1) + drop_bit 3 (push_bit a 1) + 3"
  obtain st2 pos where st2: "spread ?step (push_bit a 1 - 1) high 0 cs (st1, 0) = Some (Inr (st2, pos))" "length st2 = 2 ^ a"
    "mset st2 = mset (low_symbols 0 cs) + mset (spread_symbols 0 cs)"
    using states_filled [OF assms lay] by blast
  have count: "count_list st2 x = (if x < length cs then weight (cs ! x) else 0)" for x
    using symbols_count [OF cs(1), of 0 x] st2(3) by (simp add: weight_def flip: count_mset)
  have "x < length nxt \<and> 0 < nxt ! x \<and> nxt ! x + count_list st2 x \<le> 2 ^ Suc a" if "x \<in> set st2" for x
  proof -
    have "count_list st2 x \<noteq> 0" using that by (simp add: count_list_0_iff)
    then have x: "x < length cs" "0 < weight (cs ! x)" using count [of x] by (auto split: if_splits)
    have "int (weight (cs ! x)) \<le> int (2 ^ a)" using weight_le_sum [OF x(1)] cs(2) by simp
    then have "weight (cs ! x) \<le> 2 ^ a" by (simp only: of_nat_le_iff)
    then show ?thesis using x nxt count [of x] by simp
  qed
  then obtain rows where rows: "fse_rows a st2 nxt = Inr rows" "length rows = length st2" "list_all (row_ok a) rows"
    using fse_rows_ok by blast
  let ?t = "\<lparr>fse_accuracy_log = a, fse_symbol = st2, fse_baseline = map fst rows, fse_num_bits = map snd rows\<rparr>"
  have size: "int (push_bit a 1) - 1 = 2 ^ a - 1" "push_bit a (1 :: nat) = 2 ^ a" by (simp_all add: push_bit_nat_def)
  have "build_fse_table cs a = Some (Inr ?t)"
    using lay st2(1) rows(1) unfolding build_fse_table_def Let_def by (simp add: push_bit_nat_def)
  moreover have "0 \<le> map fst rows ! i \<and> map fst rows ! i + 2 ^ (map snd rows ! i) \<le> 2 ^ a" if "i < 2 ^ a" for i
    using rows(2,3) st2(2) that by (auto simp: list_all_length row_ok_def case_prod_unfold)
  ultimately show ?thesis using rows(2) st2(2) count by (auto simp: fse_table_ok_def weight_def)
qed

section \<open>Properties\<close>

text \<open>
  C33. Decoding tables. For every table description the reader accepts, building the decoding table
  returns; each symbol has exactly the number of states the description gives it (one for a symbol of
  low probability), only symbols up to the largest one allowed occur, and from every state each value
  of the bits it asks for leads to a state of the table.
\<close>

theorem fse_table_spec:
  assumes "read_fse_distribution r m ma = Inr (cs, a, r')"
  shows "\<exists>t. build_fse_table cs a = Some (Inr t) \<and>
     length (fse_symbol t) = 2 ^ a \<and> length (fse_baseline t) = 2 ^ a \<and> length (fse_num_bits t) = 2 ^ a \<and>
     (\<forall>x. count_list (fse_symbol t) x = (if x < length cs then nat \<bar>cs ! x\<bar> else 0)) \<and>
     (\<forall>x \<in> set (fse_symbol t). x \<le> m) \<and>
     (\<forall>i < 2 ^ a. \<forall>bits < 2 ^ (fse_num_bits t ! i).
        0 \<le> fse_baseline t ! i + int bits \<and> fse_baseline t ! i + int bits < 2 ^ a)"
proof -
  have dist: "distribution a m cs" using read_fse_distribution_valid [OF assms] by simp
  obtain t where t: "build_fse_table cs a = Some (Inr t)" "fse_table_ok a cs t" using build_fse_table_ok [OF dist] by blast
  have "x \<le> m" if "x \<in> set (fse_symbol t)" for x
  proof -
    have "count_list (fse_symbol t) x \<noteq> 0" using that by (simp add: count_list_0_iff)
    then have "x < length cs" "cs ! x \<noteq> 0" using t(2) by (auto simp: fse_table_ok_def split: if_splits)
    then show ?thesis using dist not_le by (auto simp: distribution_def)
  qed
  moreover have "0 \<le> fse_baseline t ! i + int bits \<and> fse_baseline t ! i + int bits < 2 ^ a"
    if "i < 2 ^ a" "bits < 2 ^ (fse_num_bits t ! i)" for i bits
  proof -
    have "int bits < 2 ^ (fse_num_bits t ! i)" using that(2) by (metis of_nat_less_iff of_nat_numeral of_nat_power)
    moreover have "0 \<le> fse_baseline t ! i \<and> fse_baseline t ! i + 2 ^ (fse_num_bits t ! i) \<le> 2 ^ a"
      using t(2) that(1) by (simp add: fse_table_ok_def)
    ultimately show ?thesis by linarith
  qed
  ultimately show ?thesis using t by (intro exI [of _ t]) (simp add: fse_table_ok_def)
qed

text \<open>A description with one symbol that has all 32 states.\<close>

lemma sample_distribution:
  "read_fse_distribution (forward [0xF0, 3]) 255 6 = Inr ([32], 5, \<lparr>fw_data = 0x3F0, fw_bitpos = 10\<rparr>)"
  by (simp add: read_fse_distribution_def forward_def fw_read_def fw_peek_def fw_advance_def dist_loop.simps read_count_def
      next_count_def Let_def bit_length.simps)

theorem fse_table_spec_witness:
  "\<exists>t. build_fse_table [32] 5 = Some (Inr t) \<and> count_list (fse_symbol t) 0 = 32 \<and> (\<forall>x \<in> set (fse_symbol t). x \<le> 255)"
  using fse_table_spec [OF sample_distribution] by auto

end
