(* ===== verification/Zstd_Huffman.thy ===== *)
theory Zstd_Huffman
  imports Zstd_Tables
begin

text \<open>
  Huffman tables, the copying of matches, and a frame on which the decoder does not return.
\<close>

unbundle bit_operations_syntax

section \<open>A weight stream without end\<close>

text \<open>No state of the table asks for bits, and every state leads to a state.\<close>

definition bitless :: "fse_table \<Rightarrow> bool" where
  "bitless t \<longleftrightarrow>
     list_all (\<lambda>nb. nb = 0) (fse_num_bits t) \<and> list_all (\<lambda>b. 0 \<le> b \<and> b < int (length (fse_symbol t))) (fse_baseline t) \<and>
     length (fse_baseline t) = length (fse_symbol t) \<and> length (fse_num_bits t) = length (fse_symbol t)"

definition in_table :: "fse_table \<Rightarrow> int \<Rightarrow> bool" where
  "in_table t s \<longleftrightarrow> 0 \<le> s \<and> s < int (length (fse_symbol t))"

lemma bitless_step:
  assumes "bitless t" "in_table t s"
  obtains x b where "py_at (fse_symbol t) s = Inr x" "py_at (fse_baseline t) s = Inr b" "py_at (fse_num_bits t) s = Inr 0" "in_table t b"
proof -
  have s: "nat s < length (fse_symbol t)" using assms(2) by (auto simp: in_table_def)
  show ?thesis
    by (rule that [of "fse_symbol t ! nat s" "fse_baseline t ! nat s"])
      (use assms s in \<open>simp_all add: bitless_def in_table_def py_at_in list_all_length\<close>)
qed

lemma drain_weights_endless:
  assumes "bitless t" "\<not> ds_overflowed br" "in_table t s1" "in_table t s2"
  shows "drain_weights t br s1 s2 ws = None"
proof (rule ccontr)
  assume "drain_weights t br s1 s2 ws \<noteq> None"
  then obtain y where "drain_weights t br s1 s2 ws = Some y" by blast
  then have "bitless t \<and> \<not> ds_overflowed br \<and> in_table t s1 \<and> in_table t s2 \<longrightarrow> False"
  proof (rule drain_weights.raw_induct [where P = "\<lambda>t br s1 s2 ws y. bitless t \<and> \<not> ds_overflowed br \<and> in_table t s1 \<and> in_table t s2 \<longrightarrow> False", rotated], goal_cases)
    case (1 drain t br s1 s2 ws y)
    show ?case
    proof
      assume ok: "bitless t \<and> \<not> ds_overflowed br \<and> in_table t s1 \<and> in_table t s2"
      obtain x1 b1 where s1: "py_at (fse_symbol t) s1 = Inr x1" "py_at (fse_baseline t) s1 = Inr b1"
        "py_at (fse_num_bits t) s1 = Inr 0" "in_table t b1" using ok bitless_step by metis
      obtain x2 b2 where s2: "py_at (fse_symbol t) s2 = Inr x2" "py_at (fse_baseline t) s2 = Inr b2"
        "py_at (fse_num_bits t) s2 = Inr 0" "in_table t b2" using ok bitless_step by metis
      have "drain t br b1 b2 (ws @ [x1, x2]) = Some y" using 1(2) s1 s2 ok by (simp add: ds_read_def)
      then show False using 1(1) ok s1(4) s2(4) by blast
    qed
  qed
  then show False using assms by blast
qed

lemma fse_rows_one:
  "32 + i + n \<le> 64 \<Longrightarrow> fse_rows 5 (replicate n 0) [32 + i] = Inr (map (\<lambda>j. (int j, 0)) [i..<i + n])"
proof (induction n arbitrary: i)
  case (Suc n)
  have "bit_length (32 + i) = 6"
    using bit_length_le [of "32 + i" 6] bit_length_le [of "32 + i" 5] Suc.prems by simp
  moreover have "fse_rows 5 (replicate n 0) [32 + Suc i] = Inr (map (\<lambda>j. (int j, 0)) [Suc i..<Suc i + n])"
    using Suc by (intro Suc.IH) simp
  ultimately show ?case by (simp add: py_at_def py_index_def upt_conv_Cons)
qed simp

lemma one_symbol_table:
  obtains t where "build_fse_table [32] 5 = Some (Inr t)" "bitless t" "length (fse_symbol t) = 32"
proof -
  have dist: "distribution 5 0 [32]" by (simp add: distribution_def)
  have lay: "lay_low 0 [32] (replicate (2 ^ 5) 0) (2 ^ 5 - 1) (replicate (length [32 :: int]) 0) = Inr (replicate 32 0, 31, [32])"
    by simp
  obtain st pos where st: "spread (drop_bit 1 (push_bit 5 1) + drop_bit 3 (push_bit 5 1) + 3) (push_bit 5 1 - 1) 31 0 [32] (replicate 32 0, 0) =
      Some (Inr (st, pos))" "length st = 2 ^ 5" "mset st = mset (low_symbols 0 [32]) + mset (spread_symbols 0 [32])"
    using states_filled [OF dist lay] by metis
  have "set st = {0}" using arg_cong [OF st(3), of set_mset] by simp
  then have "st = replicate 32 0" using st(2) by (intro replicate_eqI) auto
  then have "fse_rows 5 st [32] = Inr (map (\<lambda>j. (int j, 0)) [0..<32])" using fse_rows_one [of 0 32] by simp
  then have "build_fse_table [32] 5 = Some (Inr \<lparr>fse_accuracy_log = 5, fse_symbol = st,
      fse_baseline = map int [0..<32], fse_num_bits = replicate 32 0\<rparr>)"
    using lay st(1) unfolding build_fse_table_def Let_def by (simp add: comp_def map_replicate_const)
  then show ?thesis using st(2) by (intro that) (auto simp: bitless_def list_all_length)
qed

text \<open>
  The table of weights has a single symbol, so the states ask for no bits, and the loop that ends when
  the bits run out goes on for ever.
\<close>

lemma decompress_endless:
  "decompress [0x28, 0xB5, 0x2F, 0xFD, 0, 0, 77, 0, 0, 0x12, 0x80, 1, 5, 0xF0, 3, 1, 1, 1] n = None"
proof -
  obtain t where t: "build_fse_table [32] 5 = Some (Inr t)" "bitless t" "length (fse_symbol t) = 32" by (rule one_symbol_table)
  have dist: "read_fse_distribution (forward [0xF0, 3, 1, 1, 1]) 255 6 = Inr ([32], 5, \<lparr>fw_data = 0x01010103F0, fw_bitpos = 10\<rparr>)"
    by (simp add: read_fse_distribution_def forward_def fw_read_def fw_peek_def fw_advance_def dist_loop.simps read_count_def
      next_count_def Let_def bit_length.simps)
  let ?br = "\<lambda>c. \<lparr>ds_data = [1, 1, 1], ds_ptr = 0, ds_container = 0x010101, ds_consumed = c\<rparr>"
  have bl: "bit_length (Suc 0) = 1" by (simp add: bit_length.simps)
  have zeros: "int_from_bytes_le (replicate k 0) = 0" for k by (induction k) simp_all
  have init: "dstream_init [1, 1, 1] = Inr (?br 48)"
    by (simp add: dstream_init_def ds_load_def CONT_def py_slice_def bl zeros)
  have rd: "ds_read 5 (?br c) = (fst (ds_read 5 (?br c)), ?br (c + 5))" if "c < 60" for c
    using that by (simp add: ds_read_def ds_reload_def CONT_def Let_def)
  have lt: "in_table t (int (fst (ds_read 5 (?br c))))" for c
  proof -
    have "fst (ds_read 5 (?br c)) < 32"
      using and_mask_nat [of _ 5] by (simp add: ds_read_def Let_def push_bit_nat_def)
    then show ?thesis using t(3) by (simp add: in_table_def)
  qed
  have r1: "ds_read 5 (?br 48) = (fst (ds_read 5 (?br 48)), ?br 53)" and r2: "ds_read 5 (?br 53) = (fst (ds_read 5 (?br 53)), ?br 58)"
    using rd [of 48] rd [of 53] by simp_all
  have "drain_weights t (?br 58) (int (fst (ds_read 5 (?br 48)))) (int (fst (ds_read 5 (?br 53)))) [] = None"
    by (rule drain_weights_endless [OF t(2)]) (simp_all add: ds_overflowed_def CONT_def lt)
  then have "fse_decode_weight_stream [0xF0, 3, 1, 1, 1] = None"
    unfolding fse_decode_weight_stream_def dist run_bind_simps prod.case Let_def t(1)
    by (simp add: init) (subst r1, simp, subst r2, simp)
  then have "decode_literals [0x12, 0x80, 1, 5, 0xF0, 3, 1, 1, 1] None = None"
    by (simp add: decode_literals_def byte_at_def compressed_header_def py_slice_def decode_huffman_weights_def)
  then have "compressed_block [0x12, 0x80, 1, 5, 0xF0, 3, 1, 1, 1]
      \<lparr>bs_out = [], bs_huffman = None, bs_tables = (\<lambda>_. None), bs_rep = (1, 4, 8)\<rparr> = None" by (simp add: compressed_block_def)
  then show ?thesis
    by (simp add: decompress_def decompress_frame_def frame_header_def py_slice_def MAGIC_def decode_blocks.simps
        block_header_def decode_block_def Let_def)
qed

text \<open>
  C36. Malformed frames. There is a frame of 18 bytes on which decompressing does not return, whatever
  limit is given for the size of the result; a frame that ends where the byte of a repeated block is
  expected raises IndexError, which the caller does not take for a damaged blob; and a raw block that is
  cut short is accepted.
\<close>

theorem malformed_frames:
  "decompress [0x28, 0xB5, 0x2F, 0xFD, 0, 0, 77, 0, 0, 0x12, 0x80, 1, 5, 0xF0, 3, 1, 1, 1] n = None \<and>
   decompress [0x28, 0xB5, 0x2F, 0xFD, 0, 0, 43, 0, 0] 0 = Some (Inl Index_error) \<and>
   decompress [0x28, 0xB5, 0x2F, 0xFD, 0, 0, 41, 0, 0, 7] 0 = Some (Inr [7])"
  using decompress_endless malformed_frames_not_refused by blast

section \<open>Huffman tables\<close>

text \<open>The share of the code space that a weight takes; a code is complete when the shares fill a power of two.\<close>

definition span :: "nat \<Rightarrow> nat" where
  "span w = (if w = 0 then 0 else 2 ^ (w - 1))"

definition code_space :: "nat list \<Rightarrow> nat" where
  "code_space ws = sum_list (map span ws)"

text \<open>The symbols in the order of the table, with their weights.\<close>

definition by_weight :: "nat \<Rightarrow> (nat \<times> nat) list \<Rightarrow> (nat \<times> nat) list" where
  "by_weight m xs = concat (map (\<lambda>w. filter (\<lambda>x. snd x = w) xs) [1..<m + 1])"

definition weight_run :: "nat \<Rightarrow> nat \<times> nat \<Rightarrow> (nat \<times> nat) list" where
  "weight_run m x = replicate (span (snd x)) (fst x, m + 1 - snd x)"

lemma by_weight_Suc: "by_weight (Suc m) xs = by_weight m xs @ filter (\<lambda>x. snd x = Suc m) xs"
  by (simp add: by_weight_def)

lemma by_weight_bounds: "x \<in> set (by_weight m xs) \<Longrightarrow> 0 < snd x \<and> snd x \<le> m"
  by (auto simp: by_weight_def)

lemma by_weight_sorted: "sorted (map snd (by_weight m xs))"
proof (induction m)
  case (Suc m)
  have "map snd (filter (\<lambda>x. snd x = Suc m) xs) = replicate (length (filter (\<lambda>x. snd x = Suc m) xs)) (Suc m)"
    by (rule replicate_eqI) auto
  moreover have "\<forall>x \<in> set (by_weight m xs). snd x \<le> Suc m" using by_weight_bounds [of _ m xs] le_SucI by blast
  ultimately show ?case using Suc by (auto simp: by_weight_Suc sorted_append)
qed (simp add: by_weight_def)

lemma by_weight_mset: "mset (by_weight m xs) = mset (filter (\<lambda>x. 0 < snd x \<and> snd x \<le> m) xs)"
proof (induction m)
  case (Suc m)
  have "mset (filter (\<lambda>x. 0 < snd x \<and> snd x \<le> m) xs) + mset (filter (\<lambda>x. snd x = Suc m) xs) =
      mset (filter (\<lambda>x. 0 < snd x \<and> snd x \<le> Suc m) xs)" by (induction xs) auto
  then show ?case using Suc by (simp add: by_weight_Suc)
qed (auto simp: by_weight_def)

lemma huffman_entries_runs: "huffman_entries m ws = concat (map (weight_run m) (by_weight m (enumerate 0 ws)))"
proof -
  have runs: "concat (map (\<lambda>(sy, sw). if sw = w then replicate (push_bit (w - 1) 1) (sy, m + 1 - w) else []) xs) =
      concat (map (weight_run m) (filter (\<lambda>x. snd x = w) xs))" if "0 < w" for w and xs :: "(nat \<times> nat) list"
    using that by (induction xs) (auto simp: weight_run_def span_def push_bit_nat_def)
  have "huffman_entries m ws = concat (map (\<lambda>w. concat (map (weight_run m) (filter (\<lambda>x. snd x = w) (enumerate 0 ws)))) [1..<m + 1])"
    unfolding huffman_entries_def by (rule arg_cong [of _ _ concat], rule map_cong [OF refl], rule runs) auto
  moreover have "concat (map (weight_run m) (concat xss)) = concat (map (\<lambda>xs. concat (map (weight_run m) xs)) xss)" for xss
    by (induction xss) simp_all
  ultimately show ?thesis by (simp add: by_weight_def comp_def)
qed

lemma length_runs: "length (concat (map (weight_run m) xs)) = sum_list (map (span \<circ> snd) xs)"
  by (simp add: length_concat comp_def weight_run_def)

lemma span_le: "w \<le> m \<Longrightarrow> span w < 2 ^ m \<or> m = 0"
  by (auto simp: span_def intro: power_strict_increasing)

lemma length_huffman_entries:
  assumes "list_all (\<lambda>w. w \<le> m) ws"
  shows "length (huffman_entries m ws) = code_space ws"
proof -
  have "sum_list (map (span \<circ> snd) (by_weight m xs)) = sum_list (map (span \<circ> snd) xs)"
    if "list_all (\<lambda>x. snd x \<le> m) xs" for xs
  proof -
    have "sum_list (map (span \<circ> snd) (by_weight m xs)) = sum_list (map (span \<circ> snd) (filter (\<lambda>x. 0 < snd x \<and> snd x \<le> m) xs))"
      using arg_cong [OF by_weight_mset [of m xs], of "\<lambda>M. sum_mset (image_mset (span \<circ> snd) M)"]
      by (simp only: mset_map [symmetric] sum_mset_sum_list)
    also have "\<dots> = sum_list (map (span \<circ> snd) xs)"
      using that by (induction xs) (auto simp: span_def)
    finally show ?thesis .
  qed
  moreover have "list_all (\<lambda>x. snd x \<le> m) (enumerate 0 ws)"
    using assms by (auto simp: list_all_iff enumerate_eq_zip dest: set_zip_rightD)
  ultimately show ?thesis unfolding huffman_entries_runs length_runs by (simp add: code_space_def flip: map_map)
qed

lemma span_dvd_runs:
  "0 < w \<Longrightarrow> list_all (\<lambda>x. w \<le> snd x) xs \<Longrightarrow> 2 ^ (w - 1) dvd length (concat (map (weight_run m) xs))"
  unfolding length_runs
  by (induction xs) (auto simp: span_def intro!: dvd_add le_imp_power_dvd)

lemma in_block:
  fixes i :: nat
  assumes "d dvd p" "0 < d"
  shows "p \<le> i \<and> i < p + d \<longleftrightarrow> i div d = p div d"
proof -
  obtain q where "p = d * q" using assms(1) by (rule dvdE)
  then show ?thesis using assms(2) div_le_mono [of p i d] less_mult_imp_div_less [of i "Suc q" d]
      dividend_less_times_div [of d i] times_div_less_eq_dividend [of d i]
    by (auto simp: algebra_simps le_antisym)
qed

text \<open>A complete code is a prefix code: the entries of a symbol are those that share its leading bits.\<close>

lemma entries_prefix_code:
  assumes w: "list_all (\<lambda>w. w \<le> m) ws" "code_space ws = 2 ^ m" and sy: "sy < length ws" "0 < ws ! sy"
  shows "\<exists>c. \<forall>i < 2 ^ m. (fst (huffman_entries m ws ! i) = sy \<longleftrightarrow> drop_bit (ws ! sy - 1) i = c) \<and>
    (fst (huffman_entries m ws ! i) = sy \<longrightarrow> snd (huffman_entries m ws ! i) = m + 1 - ws ! sy)"
proof -
  let ?w = "ws ! sy" and ?es = "huffman_entries m ws" and ?items = "by_weight m (enumerate 0 ws)"
  let ?d = "2 ^ (?w - 1) :: nat"
  have set: "(s, v) \<in> set ?items \<longleftrightarrow> s < length ws \<and> v = ws ! s \<and> 0 < v \<and> v \<le> m" for s v
    using arg_cong [OF by_weight_mset [of m "enumerate 0 ws"], of set_mset] by (auto simp: in_set_enumerate_eq)
  have dist: "distinct (map fst ?items)"
  proof -
    have "mset (map fst ?items) = mset (map fst (filter (\<lambda>x. 0 < snd x \<and> snd x \<le> m) (enumerate 0 ws)))"
      by (simp only: mset_map by_weight_mset)
    then have "distinct (map fst ?items) \<longleftrightarrow> distinct (map fst (filter (\<lambda>x. 0 < snd x \<and> snd x \<le> m) (enumerate 0 ws)))"
      by (rule mset_eq_imp_distinct_iff)
    moreover have "distinct (map fst (enumerate 0 ws))" by simp
    ultimately show ?thesis using distinct_map_filter by blast
  qed
  have "?w \<le> m" using w(1) sy(1) by (simp add: list_all_length)
  then have "(sy, ?w) \<in> set ?items" using sy by (simp add: set)
  then obtain xs ys where items: "?items = xs @ (sy, ?w) # ys" by (meson split_list)
  define A where "A = concat (map (weight_run m) xs)"
  define B where "B = concat (map (weight_run m) ys)"
  have es: "?es = A @ replicate ?d (sy, m + 1 - ?w) @ B"
    using sy(2) by (simp add: huffman_entries_runs items A_def B_def weight_run_def span_def)
  have others: "fst x \<noteq> sy" if "x \<in> set A \<union> set B" for x
    using that dist items by (force simp: A_def B_def weight_run_def)
  have "list_all (\<lambda>x. ?w \<le> snd x) ys"
    using by_weight_sorted [of m "enumerate 0 ws"] by (auto simp: items sorted_append list_all_iff)
  then have "?d dvd length B" using span_dvd_runs sy(2) by (simp add: B_def)
  moreover have len: "length A + ?d + length B = 2 ^ m"
    using length_huffman_entries [OF w(1)] w(2) by (simp add: es)
  moreover have "?d dvd 2 ^ m" using \<open>?w \<le> m\<close> by (intro le_imp_power_dvd) simp
  ultimately have "?d dvd length A" by (metis dvd_add_left_iff dvd_refl)
  then have blk: "length A \<le> i \<and> i < length A + ?d \<longleftrightarrow> drop_bit (?w - 1) i = length A div ?d" for i
    using in_block [of ?d "length A" i] by (simp add: drop_bit_nat_def)
  have inside: "?es ! i = (sy, m + 1 - ?w)" if "length A \<le> i" "i < length A + ?d" for i
  proof -
    have "i - length A < ?d" using that by arith
    then show ?thesis using that by (simp add: es nth_append)
  qed
  have outside: "fst (?es ! i) \<noteq> sy" if "i < 2 ^ m" "\<not> (length A \<le> i \<and> i < length A + ?d)" for i
  proof (cases "i < length A")
    case False
    then have "?es ! i = B ! (i - length A - ?d)" "i - length A - ?d < length B" using that len by (auto simp: es nth_append)
    then show ?thesis using others by (metis UnCI nth_mem)
  qed (use others in \<open>simp add: es nth_append\<close>)
  show ?thesis
  proof (intro exI allI impI conjI)
    fix i :: nat assume i: "i < 2 ^ m"
    show "fst (?es ! i) = sy \<longleftrightarrow> drop_bit (?w - 1) i = length A div ?d"
      using i inside [of i] outside [of i] blk [of i] by auto
    show "snd (?es ! i) = m + 1 - ?w" if "fst (?es ! i) = sy"
      using inside [of i] outside [OF i] that by (metis snd_conv)
  qed
qed

lemma pow2_and: "x AND (x - 1) = 0 \<longleftrightarrow> x = 0 \<or> x = 2 ^ (bit_length x - 1)" for x :: nat
proof (cases "x = 0")
  case False
  define k where "k = bit_length x - 1"
  have k: "2 ^ k \<le> x" "x < 2 * 2 ^ k"
    using False bit_length_ge [of x] bit_length_less [of x] bit_length_pos [of x] by (simp_all add: k_def flip: power_Suc)
  show ?thesis
  proof
    assume z: "x AND (x - 1) = 0"
    show "x = 0 \<or> x = 2 ^ (bit_length x - 1)"
    proof (rule ccontr)
      assume "\<not> ?thesis"
      then have "2 ^ k \<le> x - 1" "2 ^ k < x" using k by (simp_all add: k_def)
      then have "(x - 1) div 2 ^ k = 1" "x div 2 ^ k = 1" using k by (auto intro!: div_nat_eqI)
      then have "bit x k" "bit (x - 1) k" by (simp_all add: bit_iff_odd)
      then have "bit (x AND (x - 1)) k" by (simp only: bit_and_iff)
      then show False using z by simp
    qed
  next
    assume "x = 0 \<or> x = 2 ^ (bit_length x - 1)"
    then have x: "x = 2 ^ k" using False by (simp add: k_def)
    show "x AND (x - 1) = 0" unfolding x using and_mask_nat [of "2 ^ k" k] by (simp add: push_bit_nat_def)
  qed
qed simp

lemma bit_length_eq: "2 ^ k \<le> n \<Longrightarrow> n < 2 ^ Suc k \<Longrightarrow> bit_length n = Suc k"
  using bit_length_le [of n k] bit_length_le [of n "Suc k"] by simp

lemma weight_sum: "sum_list (map (\<lambda>w. push_bit (w - 1) 1) (filter (\<lambda>w. w > 0) ws)) = code_space ws"
  by (induction ws) (auto simp: code_space_def span_def push_bit_nat_def)

lemma weight_space: "w \<in> set ws \<Longrightarrow> span w \<le> code_space ws"
  unfolding code_space_def by (induction ws) auto

text \<open>
  C34. Huffman tables. When a last weight completes the code and takes less than half of its space, the
  table is built: it has an entry for each sequence of bits of the greatest length, and it is that of a
  prefix code, in which a symbol of weight w has the entries that start with a code of one more than
  the greatest length less w bits, and that length recorded with each of them.
\<close>

theorem huffman_table_spec:
  assumes "0 < lw" "code_space (ws @ [lw]) = 2 ^ m" "2 ^ m < 2 * code_space ws"
  shows "\<exists>t. build_huffman_from_weights ws = Inr t \<and> hf_max_bits t = m \<and>
    length (hf_symbols t) = 2 ^ m \<and> length (hf_num_bits t) = 2 ^ m \<and>
    (\<forall>sy < length ws + 1. 0 < (ws @ [lw]) ! sy \<longrightarrow>
      (\<exists>c. \<forall>i < 2 ^ m. (hf_symbols t ! i = sy \<longleftrightarrow> drop_bit ((ws @ [lw]) ! sy - 1) i = c) \<and>
        (hf_symbols t ! i = sy \<longrightarrow> hf_num_bits t ! i = m + 1 - (ws @ [lw]) ! sy)))"
proof -
  let ?s = "code_space ws" and ?ws = "ws @ [lw]" and ?es = "huffman_entries m (ws @ [lw])"
  have sum: "?s + 2 ^ (lw - 1) = 2 ^ m" using assms(1,2) by (simp add: code_space_def span_def)
  then obtain q where q: "?s + q = 2 ^ m" "0 < q" by (metis zero_less_numeral zero_less_power)
  have "m \<noteq> 0"
  proof
    assume "m = 0"
    then show False using q assms(3) by simp
  qed
  then obtain k where k: "m = Suc k" using not0_implies_Suc by blast
  have s: "2 ^ k < ?s" "?s < 2 ^ m" using assms(3) q by (simp_all add: k)
  then have bl: "bit_length (?s - 1) = m" unfolding k by (intro bit_length_eq) auto
  have left: "2 ^ m - ?s = 2 ^ (lw - 1)" using sum by simp
  have lw: "bit_length (2 ^ (lw - 1)) = lw" using assms(1) bit_length_eq [of "lw - 1" "2 ^ (lw - 1)"] by simp
  have le: "list_all (\<lambda>w. w \<le> m) ?ws"
  proof -
    have "w \<le> m" if "w \<in> set ?ws" for w
    proof (rule ccontr)
      assume "\<not> w \<le> m"
      then have "2 ^ m \<le> span w" by (simp add: span_def)
      moreover have "span lw + ?s = 2 ^ m" "0 < ?s" using assms(2) s(1) by (simp_all add: code_space_def)
      then have "span lw < 2 ^ m" by linarith
      then have "span w < 2 ^ m" using that weight_space [of w ws] s(2) by (auto intro: le_less_trans)
      ultimately show False by simp
    qed
    then show ?thesis by (simp add: list_all_iff)
  qed
  note len = length_huffman_entries [OF le, unfolded assms(2)]
  let ?t = "\<lparr>hf_max_bits = m, hf_symbols = map fst ?es, hf_num_bits = map snd ?es\<rparr>"
  have "build_huffman_from_weights ws = Inr ?t"
    using s(1) len pow2_and [of "2 ^ (lw - 1)"] left
    unfolding build_huffman_from_weights_def weight_sum Let_def bl by (simp add: push_bit_nat_def lw [unfolded One_nat_def])
  moreover have "\<exists>c. \<forall>i < 2 ^ m. (hf_symbols ?t ! i = sy \<longleftrightarrow> drop_bit (?ws ! sy - 1) i = c) \<and>
      (hf_symbols ?t ! i = sy \<longrightarrow> hf_num_bits ?t ! i = m + 1 - ?ws ! sy)"
    if "sy < length ws + 1" "0 < ?ws ! sy" for sy
    using entries_prefix_code [OF le assms(2), of sy] that len by simp
  ultimately show ?thesis using len by (intro exI [of _ ?t]) simp
qed

theorem huffman_table_spec_witness:
  "\<exists>t. build_huffman_from_weights [2, 1] = Inr t \<and> hf_max_bits t = 2 \<and> length (hf_symbols t) = 4 \<and>
    (\<exists>c. \<forall>i < 4. hf_symbols t ! i = 0 \<longleftrightarrow> drop_bit 1 i = c)"
  using huffman_table_spec [of 1 "[2, 1]" 2] by (fastforce simp: code_space_def span_def)

text \<open>
  C35. Half of the space left. When the weights already fill a power of two, the weight that completes
  the code takes the other half of its space; the code refuses such weights, and with them the frame
  of the four bytes 0, 1, 1, 0 in a code of two symbols of one bit each.
\<close>

theorem half_code_refused:
  "(\<forall>ws k. code_space ws = 2 ^ k \<longrightarrow>
      code_space (ws @ [Suc k]) = 2 ^ Suc k \<and> build_huffman_from_weights ws = Inl Zstd_error) \<and>
   decompress [0x28, 0xB5, 0x2F, 0xFD, 0, 0, 61, 0, 0, 66, 192, 0, 128, 16, 22, 0] 0 = Some (Inl Zstd_error)"
proof -
  have "bit_length (2 ^ k - 1) = k" for k :: nat
  proof (cases k)
    case (Suc j)
    then show ?thesis using bit_length_eq [of j "2 ^ k - 1"] one_le_power [of "2 :: nat" j] by simp
  qed (simp add: bit_length.simps)
  then have half: "build_huffman_from_weights ws = Inl Zstd_error" if "code_space ws = 2 ^ k" for ws k
    unfolding build_huffman_from_weights_def weight_sum Let_def that by (simp add: push_bit_nat_def)
  have w: "decode_huffman_weights [128, 16, 22] 128 = Some (Inr ([1], 2))"
    by (simp add: decode_huffman_weights_def byte_at_def)
  have "decode_literals [66, 192, 0, 128, 16, 22, 0] None = Some (Inl Zstd_error)"
    using half [of "[1]" 0] w
    by (simp add: decode_literals_def byte_at_def compressed_header_def py_slice_def code_space_def span_def)
  then have "compressed_block [66, 192, 0, 128, 16, 22, 0]
      \<lparr>bs_out = [], bs_huffman = None, bs_tables = (\<lambda>_. None), bs_rep = (1, 4, 8)\<rparr> = Some (Inl Zstd_error)"
    by (simp add: compressed_block_def)
  then have "decompress [0x28, 0xB5, 0x2F, 0xFD, 0, 0, 61, 0, 0, 66, 192, 0, 128, 16, 22, 0] 0 = Some (Inl Zstd_error)"
    by (simp add: decompress_def decompress_frame_def frame_header_def py_slice_def MAGIC_def decode_blocks.simps
        block_header_def decode_block_def Let_def)
  then show ?thesis using half by (simp add: code_space_def span_def)
qed

theorem half_code_refused_witness:
  "build_huffman_from_weights [1, 1] = Inl Zstd_error"
  using conjunct1 [OF half_code_refused, rule_format, of "[1, 1]" 1] by (simp add: code_space_def span_def)

end
