(* ===== verification/Zstd_Lz.thy ===== *)
theory Zstd_Lz
  imports Zstd_Huffman
begin

unbundle bit_operations_syntax

text \<open>
  The sequences of a block: every offset that is decoded is positive, and so the execution of sequences,
  byte by byte, is the copying of matches as the format defines it, in which a match that reaches what
  it writes repeats the bytes between.
\<close>

section \<open>The reference\<close>

definition repeated :: "bytes \<Rightarrow> nat \<Rightarrow> nat \<Rightarrow> bytes" where
  "repeated out off n = map (\<lambda>j. out ! (length out - off + j mod off)) [0..<n]"

fun lz :: "bytes \<Rightarrow> (nat \<times> int \<times> nat) list \<Rightarrow> bytes \<Rightarrow> bytes option" where
  "lz lits [] out = Some (out @ lits)"
| "lz lits ((ll, off, ml) # sqs) out =
     (let out = out @ take ll lits in
      if ml \<noteq> 0 \<and> int (length out) < off then None
      else lz (drop ll lits) sqs (out @ repeated out (nat off) ml))"

lemma repeated_0: "repeated out off 0 = []"
  by (simp add: repeated_def)

lemma copy_match_repeated:
  assumes "0 < off" "off \<le> length out"
  shows "copy_match (int (length out) - int off) j n (out @ repeated out off j) = Inr (out @ repeated out off (j + n))"
proof (induction n arbitrary: j)
  case (Suc n)
  let ?p = "length out - off + j" and ?o = "out @ repeated out off j"
  have "?o ! ?p = out ! (length out - off + j mod off)"
  proof (cases "j < off")
    case True
    then have "?p < length out" using assms by linarith
    then show ?thesis using True by (simp add: nth_append)
  next
    case False
    then have "?p = length out + (j - off)" using assms by simp
    then have "?o ! ?p = repeated out off j ! (j - off)" by simp
    also have "\<dots> = out ! (length out - off + (j - off) mod off)" using False assms(1) by (simp add: repeated_def)
    finally show ?thesis using False by (simp add: le_mod_geq)
  qed
  then have "?o @ [?o ! ?p] = out @ repeated out off (Suc j)" by (simp add: repeated_def)
  moreover have "py_at ?o (int (length out) - int off + int j) = Inr (?o ! ?p)"
    using assms by (subst py_at_in) (auto simp: repeated_def nat_diff_distrib nat_add_distrib)
  ultimately show ?case using Suc [of "Suc j"] by simp
qed simp

lemma execute_loop_lz:
  assumes "list_all (\<lambda>(ll, off, ml). 0 < off) sqs"
  shows "execute_loop lits sqs pos out = (case lz (drop pos lits) sqs out of None \<Rightarrow> Inl Zstd_error | Some r \<Rightarrow> Inr r)"
  using assms
proof (induction sqs arbitrary: pos out)
  case (Cons sq sqs)
  obtain ll off ml where sq: "sq = (ll, off, ml)" by (metis prod_cases3)
  let ?out = "out @ py_slice lits pos (pos + ll)"
  have off: "0 < off" using Cons.prems by (simp add: sq)
  note IH = Cons.IH [of "pos + ll"]
  show ?case
  proof (cases "ml = 0 \<or> int (length ?out) < off")
    case True
    then show ?thesis using IH [of ?out] Cons.prems by (auto simp: sq py_slice_def repeated_def add.commute Let_def)
  next
    case False
    then have "nat off \<le> length ?out" by linarith
    then have "copy_match (int (length ?out) - off) 0 ml ?out = Inr (?out @ repeated ?out (nat off) ml)"
      using copy_match_repeated [of "nat off" ?out 0 ml] off repeated_0 [of ?out "nat off"] by simp
    then show ?thesis using IH [of "?out @ repeated ?out (nat off) ml"] Cons.prems False
      by (simp add: sq py_slice_def add.commute Let_def)
  qed
qed (auto simp: not_less)

section \<open>Positive offsets\<close>

text \<open>The tables of offsets have a positive base for each code with more than one bit; the history is positive.\<close>

definition offsets_ok :: "seq_table \<Rightarrow> bool" where
  "offsets_ok t \<longleftrightarrow> list_all2 (\<lambda>base bits. 1 < bits \<longrightarrow> 0 < base) (sq_base_value t) (sq_add_bits t)"

definition history_ok :: "history \<Rightarrow> bool" where
  "history_ok rep \<longleftrightarrow> (case rep of (r0, r1, r2) \<Rightarrow> 0 < r0 \<and> 0 < r1 \<and> 0 < r2)"

definition tables_ok :: "seq_tables \<Rightarrow> bool" where
  "tables_ok ts \<longleftrightarrow> (case ts Of_key of None \<Rightarrow> True | Some t \<Rightarrow> offsets_ok t)"

lemma py_at_all2:
  "list_all2 P xs ys \<Longrightarrow> py_at xs i = Inr x \<Longrightarrow> py_at ys i = Inr y \<Longrightarrow> P x y"
  by (auto simp: py_at_def py_index_def Let_def list_all2_conv_all_nth split: if_splits)

lemma run_bind_Inr: "run_bind m f = Some (Inr y) \<longleftrightarrow> (\<exists>x. m = Some (Inr x) \<and> f x = Some (Inr y))"
  by (auto simp: run_bind_def split: option.splits sum.splits)

lemma resolve_rep_code_ok:
  assumes "history_ok rep" "resolve_rep_code rep c = Inr (off, rep')"
  shows "0 < off \<and> history_ok rep'"
proof -
  obtain r0 r1 r2 where rep: "rep = (r0, r1, r2)" by (metis prod_cases3)
  have "0 \<le> temp" if "py_at [r0, r1, r2] (int c) = Inr temp" for temp
    using that assms(1) by (auto simp: py_at_def py_index_def history_ok_def rep Let_def nth_Cons split: if_splits nat.splits)
  then show ?thesis using assms
    by (force simp: resolve_rep_code_def history_ok_def rep rbind_eq_Inr split: if_splits)
qed

lemma seq_offset_ok:
  assumes "history_ok rep" "1 < of_bits \<longrightarrow> 0 < of_base" "seq_offset of_base of_bits ll_base br rep = Inr (off, rep', br')"
  shows "0 < off \<and> history_ok rep'"
proof (cases "of_bits = 1")
  case True
  then obtain c where "resolve_rep_code rep c = Inr (off, rep')"
    using assms(3) by (auto simp: seq_offset_def Let_def rbind_eq_Inr split_beta)
  then show ?thesis by (rule resolve_rep_code_ok [OF assms(1)])
next
  case False
  then show ?thesis using assms
    by (auto simp: seq_offset_def resolve_rep0_def history_ok_def Let_def split: prod.splits if_splits)
qed

lemma read_sequence_ok:
  assumes "offsets_ok oft" "history_ok (ss_rep s)" "read_sequence llt oft mlt s = Inr ((ll, off, ml), s')"
  shows "0 < off \<and> history_ok (ss_rep s')"
proof -
  obtain base bits lb r where r: "py_at (sq_base_value oft) (ss_of s) = Inr base" "py_at (sq_add_bits oft) (ss_of s) = Inr bits"
    "seq_offset base bits lb (ss_br s) (ss_rep s) = Inr r" "off = fst r" "ss_rep s' = fst (snd r)"
    using assms(3) by (auto simp: read_sequence_def rbind_eq_Inr split_beta)
  have off: "seq_offset base bits lb (ss_br s) (ss_rep s) = Inr (off, ss_rep s', snd (snd r))" using r(3-5) by simp
  have "1 < bits \<longrightarrow> 0 < base" using py_at_all2 [OF assms(1) [unfolded offsets_ok_def] r(1,2)] .
  then show ?thesis using seq_offset_ok [OF assms(2) _ off] by blast
qed

lemma seq_loop_ok:
  assumes "offsets_ok oft" "history_ok (ss_rep s)" "seq_loop llt oft mlt n s = Inr (sqs, rep)"
  shows "list_all (\<lambda>(ll, off, ml). 0 < off) sqs \<and> history_ok rep"
  using assms(2,3)
proof (induction n arbitrary: s sqs rep)
  case (Suc n)
  obtain ll off ml s1 where s1: "read_sequence llt oft mlt s = Inr ((ll, off, ml), s1)"
    using Suc.prems(2) by (auto simp: rbind_eq_Inr)
  note first = read_sequence_ok [OF assms(1) Suc.prems(1) s1]
  show ?case
  proof (cases "n = 0")
    case True
    then show ?thesis using Suc.prems(2) s1 first by auto
  next
    case False
    then obtain s2 rest where s2: "next_states llt oft mlt s1 = Inr s2" "seq_loop llt oft mlt n s2 = Inr (rest, rep)"
      "sqs = (ll, off, ml) # rest" using Suc.prems(2) s1 by (auto simp: rbind_eq_Inr)
    then have "ss_rep s2 = ss_rep s1" by (auto simp: next_states_def rbind_eq_Inr)
    then show ?thesis using Suc.IH [of s2 rest rep] s2 first by simp
  qed
qed simp

lemma predefined_ok: "list_all (\<lambda>(_, bits, _, base). 1 < bits \<longrightarrow> 0 < base) OF_PREDEF"
  "list_all2 (\<lambda>base bits. 1 < bits \<longrightarrow> 0 < base) OF_CODE_BASE OF_CODE_BITS"
  by (simp_all add: OF_PREDEF_def OF_CODE_BASE_def OF_CODE_BITS_def upt_rec)

lemma rmap_all2:
  "rmap f xs = Inr ys \<Longrightarrow> rmap g xs = Inr zs \<Longrightarrow> (\<And>x y z. f x = Inr y \<Longrightarrow> g x = Inr z \<Longrightarrow> P y z) \<Longrightarrow> list_all2 P ys zs"
  by (induction xs arbitrary: ys zs) (auto simp: rbind_eq_Inr)

lemma resolve_of_ok:
  assumes "tables_ok ts" "resolve_seq_table src pos mode ts Of_key = Some (Inr (t, used, ts'))"
  shows "offsets_ok t \<and> ts' Of_key = Some t"
proof -
  note code = py_at_all2 [OF predefined_ok(2)]
  have "list_all2 (\<lambda>base bits. 1 < bits \<longrightarrow> 0 < base) (map (\<lambda>(_, _, _, b). b) OF_PREDEF) (map (\<lambda>(_, a, _, _). a) OF_PREDEF)"
    using predefined_ok(1) by (auto simp: list_all2_conv_all_nth list_all_length split: prod.splits)
  then show ?thesis
    using assms code rmap_all2 [OF _ _ code]
    by (auto simp: resolve_seq_table_def SEQ_SPEC_def run_bind_Inr tables_ok_def offsets_ok_def split: if_splits option.splits)
qed

lemma resolve_other_ok:
  "resolve_seq_table src pos mode ts k = Some (Inr (t, used, ts')) \<Longrightarrow> k \<noteq> Of_key \<Longrightarrow> ts' Of_key = ts Of_key"
  by (auto simp: resolve_seq_table_def run_bind_Inr split: prod.splits)

section \<open>Properties\<close>

definition block_ok :: "block_state \<Rightarrow> bool" where
  "block_ok s \<longleftrightarrow> tables_ok (bs_tables s) \<and> history_ok (bs_rep s)"

lemma decode_sequences_ok:
  assumes "tables_ok ts" "history_ok rep" "decode_sequences src ts rep = Some (Inr (sqs, ts', rep'))"
  shows "list_all (\<lambda>(ll, off, ml). 0 < off) sqs \<and> tables_ok ts' \<and> history_ok rep'"
proof (cases "byte_at src 0 = Inr 0")
  case True
  then show ?thesis using assms by (auto simp: decode_sequences_def)
next
  case False
  obtain p1 m1 llt u1 ts1 p2 m2 oft u2 ts2 p3 m3 mlt u3 n s where
    ll: "resolve_seq_table src p1 m1 ts Ll_key = Some (Inr (llt, u1, ts1))" and
    off: "resolve_seq_table src p2 m2 ts1 Of_key = Some (Inr (oft, u2, ts2))" and
    ml: "resolve_seq_table src p3 m3 ts2 Ml_key = Some (Inr (mlt, u3, ts'))" and
    loop: "seq_loop llt oft mlt n s = Inr (sqs, rep')" "ss_rep s = rep"
    using assms(3) False by (auto simp: decode_sequences_def run_bind_Inr split_beta split: if_splits)
  have "tables_ok ts1" using assms(1) resolve_other_ok [OF ll] by (simp add: tables_ok_def)
  from resolve_of_ok [OF this off] have oft: "offsets_ok oft" "ts2 Of_key = Some oft" by simp_all
  then have "tables_ok ts'" using resolve_other_ok [OF ml] by (simp add: tables_ok_def)
  then show ?thesis using seq_loop_ok [OF oft(1) _ loop(1)] loop(2) assms(2) by simp
qed

text \<open>
  C32. Sequences are executed as the format defines. Starting from a positive history and tables with
  positive offsets, every decoded sequence has a positive offset, executing the sequences gives the
  result of the reference, where a match repeats the bytes before it, or the decoder's own error when
  a match reaches before the output, and the history and tables stay as they were required.
\<close>

theorem sequences_lz:
  assumes "tables_ok ts" "history_ok rep" "decode_sequences src ts rep = Some (Inr (sqs, ts', rep'))"
  shows "execute_sequences lits sqs out = (case lz lits sqs out of None \<Rightarrow> Inl Zstd_error | Some r \<Rightarrow> Inr r) \<and>
    tables_ok ts' \<and> history_ok rep'"
  using decode_sequences_ok [OF assms] execute_loop_lz [of sqs lits 0 out] by (simp add: execute_sequences_def)

lemma sample_sequences:
  "decode_sequences [1, 0x54, 1, 2, 0, 4] (\<lambda>_. None) (1, 4, 8) = Some (Inr ([(1, 1, 3)],
     [Ll_key \<mapsto> \<lparr>sq_accuracy_log = 0, sq_base_value = [1], sq_add_bits = [0], sq_newstate = [0], sq_state_nbits = [0]\<rparr>,
      Of_key \<mapsto> \<lparr>sq_accuracy_log = 0, sq_base_value = [1], sq_add_bits = [2], sq_newstate = [0], sq_state_nbits = [0]\<rparr>,
      Ml_key \<mapsto> \<lparr>sq_accuracy_log = 0, sq_base_value = [3], sq_add_bits = [0], sq_newstate = [0], sq_state_nbits = [0]\<rparr>],
     (1, 1, 4)))"
proof -
  have one: "py_at [x] 0 = Inr x" for x :: 'a by (simp add: py_at_def py_index_def)
  have bl: "bit_length 4 = 3" by (simp add: bit_length.simps)
  have code: "py_at LL_CODE_BASE 1 = Inr 1" "py_at LL_CODE_BITS 1 = Inr 0" "py_at OF_CODE_BASE 2 = Inr 1" "py_at OF_CODE_BITS 2 = Inr 2"
    "py_at ML_CODE_BASE 0 = Inr 3" "py_at ML_CODE_BITS 0 = Inr 0"
    by (simp_all add: py_at_def py_index_def LL_CODE_BASE_def LL_CODE_BITS_def OF_CODE_BASE_def OF_CODE_BITS_def ML_CODE_BASE_def ML_CODE_BITS_def)
  have "backward [4] = Inr \<lparr>bw_data = 4, bw_bitpos = 1\<rparr>" by (simp add: backward_def bl)
  then show ?thesis
    by (simp add: decode_sequences_def byte_at_def sequence_count_def resolve_seq_table_def SEQ_SPEC_def code bw_read_def
        read_sequence_def seq_offset_def one)
qed

theorem sequences_lz_witness:
  "execute_sequences [9, 8] [(1, 1, 3)] [] = Inr [9, 9, 9, 9, 8]"
  using conjunct1 [OF sequences_lz [OF _ _ sample_sequences, of "[9, 8]" "[]"]]
  by (simp add: tables_ok_def history_ok_def repeated_def numeral_3_eq_3)

text \<open>
  The state between blocks: from the start of a frame, the repeat offsets stay positive and so does the
  table of offsets, which is what the property above requires of each block.
\<close>

lemma decode_block_ok:
  assumes "block_ok s" "decode_block data pos ty n s = Some (Inr (pos', s'))"
  shows "block_ok s'"
proof (cases "ty = 2")
  case True
  then have c: "compressed_block (py_slice data pos (pos + n)) s = Some (Inr s')"
    using assms(2) by (auto simp: decode_block_def run_bind_Inr Let_def split: if_splits)
  then obtain src sqs where "decode_sequences src (bs_tables s) (bs_rep s) = Some (Inr (sqs, bs_tables s', bs_rep s'))"
    by (auto simp: compressed_block_def run_bind_Inr)
  then show ?thesis using assms(1) decode_sequences_ok [of "bs_tables s" "bs_rep s"] by (auto simp: block_ok_def)
next
  case False
  then show ?thesis using assms by (auto simp: decode_block_def block_ok_def run_bind_Inr split: if_splits)
qed

lemma decode_blocks_ok:
  assumes "block_ok s" "decode_blocks data pos s = Some (Inr (pos', s'))"
  shows "block_ok s'"
  using assms
proof (induction data pos s rule: decode_blocks.induct)
  case (1 data pos s)
  let ?b = "decode_block data (pos + 3) (drop_bit 1 (block_header data pos) AND 3) (drop_bit 3 (block_header data pos)) s"
  obtain p1 s1 where b: "?b = Some (Inr (p1, s1))" "\<not> length data < pos + 3"
    using "1.prems"(2) by (subst (asm) decode_blocks.simps) (auto simp: Let_def split: if_splits option.splits sum.splits)
  note ok = decode_block_ok [OF "1.prems"(1) b(1)]
  show ?case
  proof (cases "block_header data pos AND 1 = 1")
    case True
    then show ?thesis using "1.prems"(2) b ok by (subst (asm) decode_blocks.simps) (simp add: Let_def)
  next
    case False
    then have "decode_blocks data p1 s1 = Some (Inr (pos', s'))"
      using "1.prems"(2) b by (subst (asm) decode_blocks.simps) (simp add: Let_def)
    then show ?thesis using "1.IH" [OF _ refl b(1) refl refl False ok] b(2) by simp
  qed
qed

end
