(* ===== verification/Catalog_Migrate.thy ===== *)
theory Catalog_Migrate
  imports Lcsas_Prelude Py_Text "HOL-Library.List_Lexorder" "HOL-Library.Char_ord"
begin

text \<open>
  The schema of the catalog over its versions: \<open>create_all\<close>, \<open>migrate\<close>, \<open>ensure_schema\<close> and the guards
  of \<open>db/schema.py\<close>.

  A database is the list of its tables, each with its columns in order, the tables its foreign keys
  name, its CHECK constraint and its rows, and the list of its indices. The statements that the module
  uses behave as SQLite documents them from version 3.26 on: renaming a table also renames it in the
  foreign keys of the other tables; a column whose default is not a constant cannot be added to a table
  with rows. Keys and the sequences of automatic ids are left out: the statements move rows from a table
  to an empty one with the same keys.

  A connection holds the database as the program sees it and all states the file has had, the newest
  first: after a crash at any moment the file has the first of them. Within a transaction only \<open>COMMIT\<close>
  changes the file.
\<close>

section \<open>Databases\<close>

datatype sql_value = Sql_null | Sql_int int | Sql_text string

record table =
  columns :: "string list"
  references :: "string list"
  check_in :: "(string \<times> sql_value list) option"
  rows :: "sql_value list list"

record database =
  tables :: "(string \<times> table) list"
  indices :: "(string \<times> string \<times> string) list"

datatype schema_error =
    Operational
  | Integrity
  | Schema_version_error int
  | Wedged_migration "string list"

type_synonym 'a sql = "(schema_error, 'a) result"

definition has_table :: "database \<Rightarrow> string \<Rightarrow> bool" where
  "has_table d t \<longleftrightarrow> map_of (tables d) t \<noteq> None"

text \<open>\<open>PRAGMA table_info\<close>: no columns for a table that does not exist.\<close>

definition table_info :: "database \<Rightarrow> string \<Rightarrow> string list" where
  "table_info d t = (case map_of (tables d) t of None \<Rightarrow> [] | Some tb \<Rightarrow> columns tb)"

definition table_rows :: "database \<Rightarrow> string \<Rightarrow> sql_value list list" where
  "table_rows d t = (case map_of (tables d) t of None \<Rightarrow> [] | Some tb \<Rightarrow> rows tb)"

definition on_table :: "string \<Rightarrow> (table \<Rightarrow> table) \<Rightarrow> database \<Rightarrow> database" where
  "on_table t f d = d\<lparr>tables := map (\<lambda>(n, tb). (n, if n = t then f tb else tb)) (tables d)\<rparr>"

definition create_table :: "string \<Rightarrow> table \<Rightarrow> database \<Rightarrow> database sql" where
  "create_table t tb d = (if has_table d t then Inl Operational else Inr (d\<lparr>tables := tables d @ [(t, tb)]\<rparr>))"

definition create_table_if_missing :: "string \<Rightarrow> table \<Rightarrow> database \<Rightarrow> database sql" where
  "create_table_if_missing t tb d = (if has_table d t then Inr d else create_table t tb d)"

definition rename :: "string \<Rightarrow> string \<Rightarrow> string \<Rightarrow> string" where
  "rename a b n = (if n = a then b else n)"

definition rename_table :: "string \<Rightarrow> string \<Rightarrow> database \<Rightarrow> database sql" where
  "rename_table a b d =
     (if \<not> has_table d a \<or> has_table d b then Inl Operational
      else Inr \<lparr>tables = map (\<lambda>(n, tb). (rename a b n, tb\<lparr>references := map (rename a b) (references tb)\<rparr>)) (tables d),
                indices = map (\<lambda>(i, n, col). (i, rename a b n, col)) (indices d)\<rparr>)"

definition drop_table :: "string \<Rightarrow> database \<Rightarrow> database sql" where
  "drop_table t d =
     (if \<not> has_table d t then Inl Operational
      else Inr \<lparr>tables = filter (\<lambda>(n, tb). n \<noteq> t) (tables d), indices = filter (\<lambda>(i, n, col). n \<noteq> t) (indices d)\<rparr>)"

text \<open>\<open>ALTER TABLE t ADD COLUMN\<close>; \<open>None\<close> is the default \<open>CURRENT_TIMESTAMP\<close>.\<close>

definition add_column :: "string \<Rightarrow> string \<Rightarrow> sql_value option \<Rightarrow> database \<Rightarrow> database sql" where
  "add_column t col default_value d =
     (if \<not> has_table d t \<or> col \<in> set (table_info d t) then Inl Operational
      else case default_value of
        None \<Rightarrow> if table_rows d t \<noteq> [] then Inl Operational
               else Inr (on_table t (\<lambda>tb. tb\<lparr>columns := columns tb @ [col]\<rparr>) d)
      | Some v \<Rightarrow> Inr (on_table t (\<lambda>tb. tb\<lparr>columns := columns tb @ [col], rows := map (\<lambda>r. r @ [v]) (rows tb)\<rparr>) d))"

definition check_ok :: "table \<Rightarrow> sql_value list \<Rightarrow> bool" where
  "check_ok tb r =
     (case check_in tb of
        None \<Rightarrow> True
      | Some (col, allowed) \<Rightarrow> (case map_of (zip (columns tb) r) col of None \<Rightarrow> True | Some v \<Rightarrow> v \<in> set allowed))"

text \<open>\<open>INSERT INTO t SELECT * FROM s\<close> goes by position, \<open>INSERT INTO t (cols) SELECT cols FROM s\<close> by name.\<close>

definition insert_rows :: "string \<Rightarrow> sql_value list list \<Rightarrow> database \<Rightarrow> database sql" where
  "insert_rows t rs d =
     (case map_of (tables d) t of
        None \<Rightarrow> Inl Operational
      | Some tb \<Rightarrow>
          if list_ex (\<lambda>r. length r \<noteq> length (columns tb)) rs then Inl Operational
          else if list_ex (\<lambda>r. \<not> check_ok tb r) rs then Inl Integrity
          else Inr (on_table t (\<lambda>tb. tb\<lparr>rows := rows tb @ rs\<rparr>) d))"

definition insert_select_all :: "string \<Rightarrow> string \<Rightarrow> database \<Rightarrow> database sql" where
  "insert_select_all t s d =
     (if \<not> has_table d s \<or> length (table_info d s) \<noteq> length (table_info d t) then Inl Operational
      else insert_rows t (table_rows d s) d)"

definition insert_select :: "string \<Rightarrow> string list \<Rightarrow> string \<Rightarrow> database \<Rightarrow> database sql" where
  "insert_select t cols s d =
     (if \<not> set cols \<subseteq> set (table_info d s) \<or> table_info d t \<noteq> cols then Inl Operational
      else insert_rows t (map (\<lambda>r. map (\<lambda>c. the (map_of (zip (table_info d s) r) c)) cols) (table_rows d s)) d)"

definition create_index_if_missing :: "string \<times> string \<times> string \<Rightarrow> database \<Rightarrow> database sql" where
  "create_index_if_missing ix d =
     (case ix of (i, t, col) \<Rightarrow>
        if i \<in> fst ` set (indices d) then Inr d
        else if col \<notin> set (table_info d t) then Inl Operational
        else Inr (d\<lparr>indices := indices d @ [ix]\<rparr>))"

definition drop_index_if_exists :: "string \<Rightarrow> database \<Rightarrow> database sql" where
  "drop_index_if_exists i d = Inr (d\<lparr>indices := filter (\<lambda>ix. fst ix \<noteq> i) (indices d)\<rparr>)"

text \<open>Statements one after the other.\<close>

fun in_turn :: "(database \<Rightarrow> database sql) list \<Rightarrow> database \<Rightarrow> database sql" where
  "in_turn [] d = Inr d"
| "in_turn (s # ss) d = rbind (s d) (in_turn ss)"

section \<open>The tables\<close>

definition CURRENT_SCHEMA_VERSION :: int where "CURRENT_SCHEMA_VERSION = 10"

definition new_table :: "string list \<Rightarrow> string list \<Rightarrow> (string \<times> sql_value list) option \<Rightarrow> table" where
  "new_table cols refs chk = \<lparr>columns = cols, references = refs, check_in = chk, rows = []\<rparr>"

definition CREATE_SCHEMA_VERSION :: table where
  "CREATE_SCHEMA_VERSION = new_table [''version'', ''applied_at''] [] None"

definition CREATE_VOLUMES :: table where
  "CREATE_VOLUMES = new_table
     [''volume_id'', ''label'', ''uuid'', ''media_type'', ''capacity_bytes'', ''used_bytes'', ''location'', ''status'',
      ''created_at'', ''closed_at'', ''verified_at''] []
     (Some (''status'', map Sql_text [''STAGING'', ''BURNING'', ''BURNED'', ''VERIFIED'', ''CONSOLIDATING'', ''DEPRECATED'', ''DESTROYED'']))"

definition CREATE_REPOSITORIES :: table where
  "CREATE_REPOSITORIES = new_table
     [''repo_id'', ''name'', ''mirror_path'', ''encryption_key_id'', ''created_at'', ''status''] [] None"

definition CREATE_PACKS :: table where
  "CREATE_PACKS = new_table [''pack_id'', ''sha256'', ''size_bytes'', ''repo_id'', ''is_pruned'', ''created_at''] [''repositories''] None"

definition CREATE_VOLUME_PACKS :: table where
  "CREATE_VOLUME_PACKS = new_table [''volume_id'', ''pack_id''] [''volumes'', ''packs''] None"

definition CREATE_SNAPSHOTS :: table where
  "CREATE_SNAPSHOTS = new_table
     [''snapshot_id'', ''repo_id'', ''hostname'', ''timestamp'', ''paths'', ''tags'', ''description''] [''repositories''] None"

definition CREATE_LOCATIONS :: table where
  "CREATE_LOCATIONS = new_table [''name'', ''created_at'', ''description''] [] None"

definition CREATE_VOLUME_COPIES :: table where
  "CREATE_VOLUME_COPIES = new_table
     [''id'', ''volume_id'', ''location'', ''status'', ''burn_date'', ''notes'', ''iso_sha256'', ''iso_size_bytes'',
      ''last_verified_at'', ''media_serial''] [''volumes'', ''locations'']
     (Some (''status'', map Sql_text [''ACTIVE'', ''DEPRECATED'', ''DESTROYED'']))"

definition CREATE_BURN_SESSIONS :: table where
  "CREATE_BURN_SESSIONS = new_table [''session_id'', ''created_at'', ''media_type'', ''status'', ''staging_dir''] []
     (Some (''status'', map Sql_text [''STAGED'', ''PARTIAL'', ''COMPLETE'', ''CLEANED'']))"

definition CREATE_SESSION_VOLUMES :: table where
  "CREATE_SESSION_VOLUMES = new_table [''session_id'', ''volume_id'', ''iso_path'', ''iso_sha256'', ''iso_size_bytes'']
     [''burn_sessions'', ''volumes''] None"

definition CREATE_VOLUME_EVENTS :: table where
  "CREATE_VOLUME_EVENTS = new_table [''event_id'', ''volume_id'', ''event_type'', ''event_date'', ''location'', ''detail'']
     [''volumes'', ''locations'']
     (Some (''event_type'', map Sql_text [''VERIFY_PASS'', ''VERIFY_FAIL'', ''VERIFY_FAIL_REBURN'', ''ECC_REPAIR'',
        ''LOCATION_MOVE'', ''CONDITION_CHECK'', ''NOTE'', ''BURN_RECEIPT_IMPORTED'']))"

definition CREATE_KEY_ESCROW :: table where
  "CREATE_KEY_ESCROW = new_table [''repo_id'', ''threshold'', ''shares'', ''slip39_id'', ''split_at''] [] None"

definition CREATE_INDICES :: "(string \<times> string \<times> string) list" where
  "CREATE_INDICES =
     [(''idx_packs_repo_id'', ''packs'', ''repo_id''), (''idx_packs_is_pruned'', ''packs'', ''is_pruned''),
      (''idx_volume_packs_pack_id'', ''volume_packs'', ''pack_id''), (''idx_volumes_status'', ''volumes'', ''status''),
      (''idx_snapshots_repo_id'', ''snapshots'', ''repo_id''), (''idx_volume_copies_volume_id'', ''volume_copies'', ''volume_id''),
      (''idx_volume_copies_location'', ''volume_copies'', ''location''),
      (''idx_session_volumes_session'', ''session_volumes'', ''session_id''),
      (''idx_volume_events_volume'', ''volume_events'', ''volume_id''), (''idx_volume_events_type'', ''volume_events'', ''event_type''),
      (''idx_volume_events_date'', ''volume_events'', ''event_date'')]"

section \<open>Versions and guards\<close>

text \<open>\<open>SELECT MAX(version)\<close>: 0 for a missing or empty table.\<close>

definition get_schema_version :: "database \<Rightarrow> int" where
  "get_schema_version d =
     (let vs = concat (map (\<lambda>r. case r of Sql_int v # _ \<Rightarrow> [v] | _ \<Rightarrow> []) (table_rows d ''schema_version''))
      in if vs = [] then 0 else Max (set vs))"

definition insert_version :: "string \<Rightarrow> int \<Rightarrow> database \<Rightarrow> database sql" where
  "insert_version now v = insert_rows ''schema_version'' [[Sql_int v, Sql_text now]]"

text \<open>\<open>LIKE\<close> does not distinguish the case of ASCII letters.\<close>

definition like_old :: "string \<Rightarrow> bool" where
  "like_old n \<longleftrightarrow> drop (length n - 4) (py_lower n) = ''_old''"

definition detect_wedged_migration :: "database \<Rightarrow> string list" where
  "detect_wedged_migration d = sort (filter like_old (map fst (tables d)))"

section \<open>Connections\<close>

record schema_conn =
  m_db :: database
  m_file :: "database list"
  m_in_tx :: bool
  m_foreign_keys :: bool
  m_isolation :: bool
  m_query_only :: bool
  m_readonly :: bool
  m_locked :: bool
  m_now :: string

definition commit :: "schema_conn \<Rightarrow> schema_conn" where
  "commit c = (if m_in_tx c then c\<lparr>m_file := m_db c # m_file c, m_in_tx := False\<rparr> else c)"

definition rollback :: "schema_conn \<Rightarrow> schema_conn" where
  "rollback c = (if m_in_tx c then c\<lparr>m_db := hd (m_file c), m_in_tx := False\<rparr> else c)"

text \<open>A statement outside a transaction is written to the file at once.\<close>

definition writable :: "schema_conn \<Rightarrow> bool" where
  "writable c \<longleftrightarrow> \<not> m_query_only c \<and> \<not> m_readonly c \<and> (m_in_tx c \<or> \<not> m_locked c)"

definition execute :: "(database \<Rightarrow> database sql) \<Rightarrow> schema_conn \<Rightarrow> unit sql \<times> schema_conn" where
  "execute s c =
     (case s (m_db c) of
        Inl e \<Rightarrow> (Inl e, c)
      | Inr d \<Rightarrow>
          if d = m_db c then (Inr (), c)
          else if \<not> writable c then (Inl Operational, c)
          else if m_in_tx c then (Inr (), c\<lparr>m_db := d\<rparr>)
          else (Inr (), c\<lparr>m_db := d, m_file := d # m_file c\<rparr>))"

fun execute_all :: "(database \<Rightarrow> database sql) list \<Rightarrow> schema_conn \<Rightarrow> unit sql \<times> schema_conn" where
  "execute_all [] c = (Inr (), c)"
| "execute_all (s # ss) c = (case execute s c of (Inl e, c) \<Rightarrow> (Inl e, c) | (Inr _, c) \<Rightarrow> execute_all ss c)"

section \<open>Migrations\<close>

definition add_missing :: "string \<Rightarrow> string \<Rightarrow> sql_value option \<Rightarrow> database \<Rightarrow> database sql" where
  "add_missing t col v d = (if col \<in> set (table_info d t) then Inr d else add_column t col v d)"

definition v3_step :: "(database \<Rightarrow> database sql) list" where
  "v3_step =
     [add_missing ''volumes'' ''verified_at'' (Some Sql_null), add_missing ''repositories'' ''created_at'' None,
      drop_index_if_exists ''idx_packs_sha256'', drop_index_if_exists ''idx_volume_packs_volume_id'']"

definition v4_step :: "(database \<Rightarrow> database sql) list" where
  "v4_step =
     [create_table_if_missing ''volume_events'' CREATE_VOLUME_EVENTS,
      create_index_if_missing (''idx_volume_events_volume'', ''volume_events'', ''volume_id''),
      create_index_if_missing (''idx_volume_events_type'', ''volume_events'', ''event_type''),
      add_missing ''volume_copies'' ''iso_sha256'' (Some Sql_null), add_missing ''volume_copies'' ''last_verified_at'' (Some Sql_null),
      add_missing ''volume_copies'' ''media_serial'' (Some (Sql_text []))]"

definition v5_step :: "(database \<Rightarrow> database sql) list" where
  "v5_step =
     [rename_table ''volumes'' ''volumes_old'', create_table ''volumes'' CREATE_VOLUMES,
      insert_select_all ''volumes'' ''volumes_old'', drop_table ''volumes_old'',
      create_index_if_missing (''idx_volumes_status'', ''volumes'', ''status'')]"

definition v6_step :: "(database \<Rightarrow> database sql) list" where
  "v6_step =
     [rename_table ''volume_events'' ''volume_events_old'', create_table_if_missing ''volume_events'' CREATE_VOLUME_EVENTS,
      insert_select ''volume_events'' [''event_id'', ''volume_id'', ''event_type'', ''event_date'', ''location'', ''detail'']
        ''volume_events_old'',
      drop_table ''volume_events_old'',
      create_index_if_missing (''idx_volume_events_volume'', ''volume_events'', ''volume_id''),
      create_index_if_missing (''idx_volume_events_type'', ''volume_events'', ''event_type''),
      create_index_if_missing (''idx_volume_events_date'', ''volume_events'', ''event_date'')]"

definition v7_step :: "(database \<Rightarrow> database sql) list" where
  "v7_step =
     [\<lambda>d. if \<not> has_table d ''session_volumes'' then create_table_if_missing ''session_volumes'' CREATE_SESSION_VOLUMES d
           else add_missing ''session_volumes'' ''iso_size_bytes'' (Some Sql_null) d]"

definition v8_step :: "(database \<Rightarrow> database sql) list" where
  "v8_step =
     [\<lambda>d. if \<not> has_table d ''volume_copies'' then create_table_if_missing ''volume_copies'' CREATE_VOLUME_COPIES d
           else add_missing ''volume_copies'' ''iso_size_bytes'' (Some Sql_null) d]"

definition v9_step :: "(database \<Rightarrow> database sql) list" where
  "v9_step = [create_table_if_missing ''key_escrow'' CREATE_KEY_ESCROW]"

definition v10_step :: "(database \<Rightarrow> database sql) list" where
  "v10_step =
     [\<lambda>d. if \<not> has_table d ''repositories'' then create_table_if_missing ''repositories'' CREATE_REPOSITORIES d
           else add_missing ''repositories'' ''status'' (Some (Sql_text ''active'')) d]"

text \<open>The version a step leads to, whether foreign keys are switched off around it, and its statements.\<close>

type_synonym migration = "int \<times> bool \<times> (database \<Rightarrow> database sql) list"

definition MIGRATIONS :: "migration list" where
  "MIGRATIONS = [(3, False, v3_step), (4, False, v4_step), (5, True, v5_step), (6, True, v6_step), (7, False, v7_step),
     (8, False, v8_step), (9, False, v9_step), (10, False, v10_step)]"

text \<open>A step between \<open>BEGIN IMMEDIATE\<close> and \<open>COMMIT\<close>; an exception rolls the open transaction back and switches
  the foreign keys on again.\<close>

definition step_body :: "string \<Rightarrow> migration \<Rightarrow> database \<Rightarrow> database sql" where
  "step_body now s = (case s of (n, fk, stmts) \<Rightarrow> in_turn (stmts @ [insert_version now n]))"

definition run_step :: "migration \<Rightarrow> schema_conn \<Rightarrow> unit sql \<times> schema_conn" where
  "run_step s c =
     (case s of (n, fk, stmts) \<Rightarrow>
        let on = (\<lambda>c. if fk then c\<lparr>m_foreign_keys := True\<rparr> else c);
            c = (if fk then c\<lparr>m_foreign_keys := False\<rparr> else c)
        in if m_in_tx c \<or> m_locked c then (Inl Operational, on (rollback c))
           else
             let c = c\<lparr>m_in_tx := True\<rparr> in
             case step_body (m_now c) s (m_db c) of
               Inl e \<Rightarrow> (Inl e, on (rollback c))
             | Inr d \<Rightarrow> if \<not> writable c then (Inl Operational, on (rollback c))
                       else (Inr (), on (commit (c\<lparr>m_db := d\<rparr>))))"

fun run_steps :: "migration list \<Rightarrow> schema_conn \<Rightarrow> unit sql \<times> schema_conn" where
  "run_steps [] c = (Inr (), c)"
| "run_steps (s # ss) c = (case run_step s c of (Inl e, c) \<Rightarrow> (Inl e, c) | (Inr _, c) \<Rightarrow> run_steps ss c)"

definition pending :: "int \<Rightarrow> migration list" where
  "pending current = filter (\<lambda>(n, _). current < n) MIGRATIONS"

definition migrate :: "schema_conn \<Rightarrow> int sql \<times> schema_conn" where
  "migrate c =
     (let leftovers = detect_wedged_migration (m_db c); current = get_schema_version (m_db c) in
      if leftovers \<noteq> [] then (Inl (Wedged_migration leftovers), c)
      else if current \<ge> CURRENT_SCHEMA_VERSION then (Inr current, c)
      else
        case run_steps (pending current) ((commit c)\<lparr>m_isolation := False\<rparr>) of
          (Inl e, c') \<Rightarrow> (Inl e, c'\<lparr>m_isolation := m_isolation c\<rparr>)
        | (Inr _, c') \<Rightarrow> (Inr CURRENT_SCHEMA_VERSION, c'\<lparr>m_isolation := m_isolation c\<rparr>))"

section \<open>Creation\<close>

definition CREATE_TABLES :: "(string \<times> table) list" where
  "CREATE_TABLES =
     [(''schema_version'', CREATE_SCHEMA_VERSION), (''volumes'', CREATE_VOLUMES), (''repositories'', CREATE_REPOSITORIES),
      (''packs'', CREATE_PACKS), (''volume_packs'', CREATE_VOLUME_PACKS), (''snapshots'', CREATE_SNAPSHOTS),
      (''locations'', CREATE_LOCATIONS), (''volume_copies'', CREATE_VOLUME_COPIES), (''burn_sessions'', CREATE_BURN_SESSIONS),
      (''session_volumes'', CREATE_SESSION_VOLUMES), (''volume_events'', CREATE_VOLUME_EVENTS), (''key_escrow'', CREATE_KEY_ESCROW)]"

text \<open>The insertion of the version opens a transaction in Python's implicit mode.\<close>

definition create_all :: "schema_conn \<Rightarrow> unit sql \<times> schema_conn" where
  "create_all c =
     (let leftovers = detect_wedged_migration (m_db c) in
      if leftovers \<noteq> [] then (Inl (Wedged_migration leftovers), c)
      else
        case execute_all (map (\<lambda>(t, tb). create_table_if_missing t tb) CREATE_TABLES @ map create_index_if_missing CREATE_INDICES) c of
          (Inl e, c) \<Rightarrow> (Inl e, c)
        | (Inr _, c) \<Rightarrow>
            (case (if table_rows (m_db c) ''schema_version'' = [] then
                     execute (insert_version (m_now c) CURRENT_SCHEMA_VERSION) (if m_isolation c then c\<lparr>m_in_tx := True\<rparr> else c)
                   else (Inr (), c)) of
               (Inl e, c) \<Rightarrow> (Inl e, c)
             | (Inr _, c) \<Rightarrow> (case migrate (commit c) of (Inl e, c) \<Rightarrow> (Inl e, c) | (Inr _, c) \<Rightarrow> (Inr (), c))))"

text \<open>The probe begins a transaction, tries an update of no rows, and rolls back.\<close>

definition is_readonly :: "schema_conn \<Rightarrow> bool" where
  "is_readonly c \<longleftrightarrow>
     m_query_only c \<or> (\<not> m_in_tx c \<and> (m_locked c \<or> (m_readonly c \<and> has_table (m_db c) ''schema_version'')))"

definition ensure_schema :: "schema_conn \<Rightarrow> int sql \<times> schema_conn" where
  "ensure_schema c =
     (let version = get_schema_version (m_db c) in
      if version > CURRENT_SCHEMA_VERSION then (Inl (Schema_version_error version), c)
      else if is_readonly c then (Inr version, c)
      else case create_all c of (Inl e, c) \<Rightarrow> (Inl e, c) | (Inr _, c) \<Rightarrow> (Inr CURRENT_SCHEMA_VERSION, c))"

end
