(* ===== verification/Migrate_Theorems.thy ===== *)
theory Migrate_Theorems
  imports Catalog_Migrate
begin

text \<open>
  What the migrations guarantee: the file is at every moment at the end of a whole number of version steps,
  no row is lost, the version reached is the current one; and two defects, in the steps to versions 3
  and 5.
\<close>

section \<open>Steps are atomic\<close>

definition idle :: "schema_conn \<Rightarrow> bool" where
  "idle c \<longleftrightarrow> \<not> m_in_tx c \<and> m_file c \<noteq> [] \<and> m_db c = hd (m_file c)"

lemma run_step_cases:
  assumes "idle c"
  obtains (fails) e fk where "run_step s c = (Inl e, c\<lparr>m_foreign_keys := fk\<rparr>)" "m_foreign_keys c \<longrightarrow> fk"
  | (runs) d fk where "run_step s c = (Inr (), c\<lparr>m_db := d, m_file := d # m_file c, m_foreign_keys := fk\<rparr>)"
      "m_foreign_keys c \<longrightarrow> fk" "step_body (m_now c) s (m_db c) = Inr d"
proof -
  obtain n fk stmts where s: "s = (n, fk, stmts)" by (metis prod_cases3)
  let ?fk = "m_foreign_keys c \<or> fk"
  have same: "c\<lparr>m_foreign_keys := m_foreign_keys c, m_in_tx := False\<rparr> = c" "c\<lparr>m_db := hd (m_file c), m_in_tx := False\<rparr> = c"
    "c\<lparr>m_foreign_keys := m_foreign_keys c\<rparr> = c" "c\<lparr>m_in_tx := False\<rparr> = c" "m_db c = hd (m_file c)"
    using assms by (simp_all add: idle_def)
  show ?thesis
  proof (cases "m_locked c")
    case True
    then show ?thesis using assms same by (intro fails [of Operational ?fk]) (auto simp: run_step_def s rollback_def idle_def)
  next
    case unlocked: False
    show ?thesis
    proof (cases "step_body (m_now c) s (m_db c)")
      case (Inl e)
      then show ?thesis using unlocked assms same
        by (intro fails [of e ?fk]) (auto simp: run_step_def s rollback_def idle_def Let_def)
    next
      case (Inr d)
      show ?thesis
      proof (cases "m_query_only c \<or> m_readonly c")
        case True
        then show ?thesis using unlocked Inr assms same
          by (intro fails [of Operational ?fk]) (auto simp: run_step_def s rollback_def idle_def Let_def writable_def)
      next
        case False
        then show ?thesis using unlocked Inr assms same
          by (intro runs [where d = d and fk = ?fk]) (auto simp: run_step_def s commit_def idle_def Let_def writable_def)
      qed
    qed
  qed
qed

lemma run_steps_atomic:
  assumes "idle c" "run_steps ss c = (r, c')"
  shows "\<exists>ds fk. c' = c\<lparr>m_db := hd (ds @ m_file c), m_file := ds @ m_file c, m_foreign_keys := fk\<rparr> \<and> (m_foreign_keys c \<longrightarrow> fk) \<and>
     (\<forall>i < length ds. in_turn (take (Suc i) (map (step_body (m_now c)) ss)) (m_db c) = Inr (rev ds ! i)) \<and>
     length ds \<le> length ss \<and> (r = Inr () \<longrightarrow> length ds = length ss)"
  using assms
proof (induction ss arbitrary: c)
  case Nil
  then show ?case by (intro exI [of _ "[]"] exI [of _ "m_foreign_keys c"]) (simp add: idle_def)
next
  case (Cons s ss)
  from \<open>idle c\<close> show ?case
  proof (cases rule: run_step_cases [where s = s])
    case (fails e fk)
    then show ?thesis using Cons.prems by (intro exI [of _ "[]"] exI [of _ fk]) (auto simp: idle_def)
  next
    case (runs d fk)
    let ?c = "c\<lparr>m_db := d, m_file := d # m_file c, m_foreign_keys := fk\<rparr>"
    have "idle ?c" using Cons.prems(1) by (simp add: idle_def)
    moreover have "run_steps ss ?c = (r, c')" using Cons.prems(2) runs(1) by simp
    ultimately obtain ds fk' where ds: "c' = ?c\<lparr>m_db := hd (ds @ m_file ?c), m_file := ds @ m_file ?c, m_foreign_keys := fk'\<rparr>"
      "m_foreign_keys ?c \<longrightarrow> fk'" "length ds \<le> length ss" "r = Inr () \<longrightarrow> length ds = length ss"
      "\<forall>i < length ds. in_turn (take (Suc i) (map (step_body (m_now ?c)) ss)) (m_db ?c) = Inr (rev ds ! i)"
      using Cons.IH [of ?c] by blast
    show ?thesis
    proof (intro exI [of _ "ds @ [d]"] exI [of _ fk'] conjI allI impI)
      fix i assume "i < length (ds @ [d])"
      then show "in_turn (take (Suc i) (map (step_body (m_now c)) (s # ss))) (m_db c) = Inr (rev (ds @ [d]) ! i)"
        using ds(5) runs(3) by (cases i) auto
    qed (use ds runs(2) in auto)
  qed
qed

section \<open>Statements\<close>

text \<open>The tables as a map, and what each statement makes of it.\<close>

type_synonym table_map = "string \<Rightarrow> table option"

definition lookup :: "database \<Rightarrow> table_map" where
  "lookup d = map_of (tables d)"

lemma lookup_simps:
  "has_table d t \<longleftrightarrow> lookup d t \<noteq> None" "table_info d t = (case lookup d t of None \<Rightarrow> [] | Some tb \<Rightarrow> columns tb)"
  "table_rows d t = (case lookup d t of None \<Rightarrow> [] | Some tb \<Rightarrow> rows tb)"
  by (simp_all add: lookup_def has_table_def table_info_def table_rows_def)

lemma lookup_on_table: "lookup (on_table t f d) = (case lookup d t of None \<Rightarrow> lookup d | Some tb \<Rightarrow> (lookup d)(t \<mapsto> f tb))"
proof -
  have "map_of (map (\<lambda>(m, tb). (m, if m = t then f tb else tb)) xs) = (case map_of xs t of None \<Rightarrow> map_of xs | Some tb \<Rightarrow> (map_of xs)(t \<mapsto> f tb))" for xs
    by (induction xs) (auto split: option.splits)
  then show ?thesis unfolding lookup_def on_table_def by simp
qed

lemma lookup_create: "create_table t tb d = Inr d' \<Longrightarrow> lookup d t = None \<and> lookup d' = (lookup d)(t \<mapsto> tb)"
  by (auto simp: create_table_def lookup_def has_table_def map_add_def fun_eq_iff split: if_splits option.splits)

lemma lookup_drop: "drop_table t d = Inr d' \<Longrightarrow> lookup d' = (lookup d)(t := None)"
proof -
  have "map_of (filter (\<lambda>(n, tb). n \<noteq> t) xs) = (map_of xs)(t := None)" for xs :: "(string \<times> table) list"
    by (induction xs) auto
  then show "drop_table t d = Inr d' \<Longrightarrow> ?thesis" by (auto simp: drop_table_def lookup_def split: if_splits)
qed

definition renamed :: "string \<Rightarrow> string \<Rightarrow> table \<Rightarrow> table" where
  "renamed a b tb = tb\<lparr>references := map (rename a b) (references tb)\<rparr>"

lemma lookup_rename:
  assumes "rename_table a b d = Inr d'" "a \<noteq> b"
  shows "lookup d a \<noteq> None \<and> lookup d b = None \<and>
    lookup d' = (\<lambda>n. map_option (renamed a b) (if n = b then lookup d a else if n = a then None else lookup d n))"
proof -
  have "map_of (map (\<lambda>(n, tb). (rename a b n, renamed a b tb)) xs) k =
      map_option (renamed a b) (if k = b then map_of xs a else if k = a then None else map_of xs k)" if "map_of xs b = None" for xs k
    using that
  proof (induction xs)
    case (Cons x xs)
    then show ?case using assms(2) by (cases x; cases "fst x = a"; cases "fst x = k") (simp_all add: rename_def split: if_splits)
  qed simp
  note ren = this
  have eta: "(\<lambda>(n, tb). (rename a b n, tb\<lparr>references := map (rename a b) (references tb)\<rparr>)) = (\<lambda>(n, tb). (rename a b n, renamed a b tb))"
    by (simp add: fun_eq_iff renamed_def)
  have "lookup d a \<noteq> None" "lookup d b = None" "d' = \<lparr>tables = map (\<lambda>(n, tb). (rename a b n, tb\<lparr>references := map (rename a b) (references tb)\<rparr>)) (tables d),
      indices = map (\<lambda>(i, n, col). (i, rename a b n, col)) (indices d)\<rparr>"
    using assms(1) by (simp_all add: rename_table_def lookup_def has_table_def split: if_splits)
  then show ?thesis using ren [of "tables d"] by (simp add: lookup_def eta fun_eq_iff)
qed

lemma lookup_insert:
  "insert_rows t rs d = Inr d' \<Longrightarrow>
     \<exists>tb. lookup d t = Some tb \<and> list_all (\<lambda>r. length r = length (columns tb)) rs \<and> lookup d' = (lookup d)(t \<mapsto> tb\<lparr>rows := rows tb @ rs\<rparr>)"
  by (auto simp: insert_rows_def lookup_on_table list_ex_iff list_all_iff split: option.splits if_splits simp flip: lookup_def)

lemma lookup_add_column:
  assumes "add_column t col dv d = Inr d'"
  shows "\<exists>tb v. lookup d t = Some tb \<and> col \<notin> set (columns tb) \<and> (dv \<noteq> None \<or> rows tb = []) \<and>
    lookup d' = (lookup d)(t \<mapsto> tb\<lparr>columns := columns tb @ [col], rows := map (\<lambda>r. r @ [v]) (rows tb)\<rparr>)"
  using assms by (auto simp: add_column_def lookup_on_table lookup_simps split: option.splits if_splits)

section \<open>What the statements keep\<close>

text \<open>Every row of the first table is a row of the second, which may have more columns.\<close>

definition row_kept :: "table \<Rightarrow> table \<Rightarrow> bool" where
  "row_kept tb tb' \<longleftrightarrow> (\<forall>r \<in> set (rows tb). \<exists>r' \<in> set (rows tb'). map_of (zip (columns tb) r) \<subseteq>\<^sub>m map_of (zip (columns tb') r'))"

definition dangling :: "table \<Rightarrow> bool" where
  "dangling tb \<longleftrightarrow> ''volumes_old'' \<in> set (references tb)"

definition of_volumes :: "table \<Rightarrow> bool" where
  "of_volumes tb \<longleftrightarrow> ''volumes'' \<in> set (references tb) \<or> dangling tb"

text \<open>The rows, and the foreign keys to the table of volumes under either name.\<close>

definition kept :: "string \<Rightarrow> table \<Rightarrow> table \<Rightarrow> bool" where
  "kept t tb tb' \<longleftrightarrow> row_kept tb tb' \<and> (t \<notin> {''volumes'', ''volume_events''} \<longrightarrow> (dangling tb \<longrightarrow> dangling tb') \<and> (of_volumes tb \<longrightarrow> of_volumes tb'))"

definition extends :: "table_map \<Rightarrow> table_map \<Rightarrow> bool" where
  "extends m m' \<longleftrightarrow> (\<forall>t tb. m t = Some tb \<longrightarrow> (\<exists>tb'. m' t = Some tb' \<and> kept t tb tb'))"

lemma row_kept_refl: "row_kept tb tb"
  unfolding row_kept_def using map_le_refl by blast

lemma kept_refl: "kept t tb tb"
  by (simp add: kept_def row_kept_refl)

lemma kept_trans: "kept t a b \<Longrightarrow> kept t b c \<Longrightarrow> kept t a c"
  unfolding kept_def row_kept_def using map_le_trans by (smt (verit))

lemma extends_refl: "extends m m"
  by (simp add: extends_def kept_refl)

lemma extends_trans: "extends a b \<Longrightarrow> extends b c \<Longrightarrow> extends a c"
  unfolding extends_def using kept_trans by metis

lemma extends_upd: "(\<And>tb. m t = Some tb \<Longrightarrow> kept t tb tb') \<Longrightarrow> extends m (m(t \<mapsto> tb'))"
  by (simp add: extends_def kept_refl)

text \<open>The shape of the catalogs the migrations meet: no leftovers, the table of volumes with or without its
  last column, the table of events with its columns.\<close>

definition EVENT_COLUMNS :: "string list" where
  "EVENT_COLUMNS = [''event_id'', ''volume_id'', ''event_type'', ''event_date'', ''location'', ''detail'']"

definition shaped :: "string \<Rightarrow> table \<Rightarrow> bool" where
  "shaped t tb \<longleftrightarrow> \<not> like_old t \<and> list_all (\<lambda>r. length r = length (columns tb)) (rows tb) \<and>
     (t = ''volumes'' \<longrightarrow> columns tb \<in> {columns CREATE_VOLUMES, butlast (columns CREATE_VOLUMES)}) \<and>
     (t = ''volume_events'' \<longrightarrow> columns tb = EVENT_COLUMNS)"

definition legacy :: "table_map \<Rightarrow> bool" where
  "legacy m \<longleftrightarrow> (\<forall>t tb. m t = Some tb \<longrightarrow> shaped t tb)"

lemma legacy_upd: "legacy m \<Longrightarrow> shaped t tb \<Longrightarrow> legacy (m(t \<mapsto> tb))"
  by (simp add: legacy_def)

text \<open>A statement that keeps the shape, the rows and the foreign keys, and records no version.\<close>

definition carries_on :: "database \<Rightarrow> database \<Rightarrow> bool" where
  "carries_on d d' \<longleftrightarrow> legacy (lookup d') \<and> extends (lookup d) (lookup d') \<and>
     table_rows d' ''schema_version'' = table_rows d ''schema_version''"

definition good :: "(database \<Rightarrow> database sql) \<Rightarrow> bool" where
  "good s \<longleftrightarrow> (\<forall>d d'. legacy (lookup d) \<longrightarrow> s d = Inr d' \<longrightarrow> carries_on d d')"

lemma carries_on_same: "legacy (lookup d) \<Longrightarrow> lookup d' = lookup d \<Longrightarrow> carries_on d d'"
  by (simp add: carries_on_def extends_refl lookup_simps)

lemma carries_on_trans: "carries_on a b \<Longrightarrow> carries_on b c \<Longrightarrow> carries_on a c"
  using extends_trans by (auto simp: carries_on_def)

lemma carries_on_upd:
  "legacy (lookup d) \<Longrightarrow> lookup d' = (lookup d)(t \<mapsto> tb') \<Longrightarrow> shaped t tb' \<Longrightarrow> (\<And>tb. lookup d t = Some tb \<Longrightarrow> kept t tb tb') \<Longrightarrow>
     t \<noteq> ''schema_version'' \<Longrightarrow> carries_on d d'"
  by (auto simp: carries_on_def lookup_simps intro: legacy_upd extends_upd)

lemma goodI:
  "(\<And>d d'. legacy (lookup d) \<Longrightarrow> s d = Inr d' \<Longrightarrow> carries_on d d') \<Longrightarrow> good s"
  by (simp add: good_def)

lemma goodD: "good s \<Longrightarrow> legacy (lookup d) \<Longrightarrow> s d = Inr d' \<Longrightarrow> carries_on d d'"
  unfolding good_def by blast

lemma good_in_turn: "list_all good ss \<Longrightarrow> good (in_turn ss)"
proof (induction ss)
  case (Cons s ss)
  show ?case
  proof (rule goodI)
    fix d d' assume d: "legacy (lookup d)" "in_turn (s # ss) d = Inr d'"
    then obtain d1 where d1: "s d = Inr d1" "in_turn ss d1 = Inr d'" by (auto simp: rbind_eq_Inr)
    moreover have "good s" "good (in_turn ss)" using Cons by simp_all
    ultimately show "carries_on d d'"
      using d(1) carries_on_trans unfolding good_def carries_on_def by blast
  qed
qed (simp add: good_def carries_on_same)

lemma good_cond: "good s \<Longrightarrow> good s' \<Longrightarrow> good (\<lambda>d. if P d then s d else s' d)"
proof (rule goodI)
  fix d d' assume "good s" "good s'" "legacy (lookup d)" "(if P d then s d else s' d) = Inr d'"
  then show "carries_on d d'" by (cases "P d") (auto dest: goodD)
qed

lemma good_indices: "good (create_index_if_missing ix)" "good (drop_index_if_exists i)"
proof -
  have "lookup d' = lookup d" if "create_index_if_missing ix d = Inr d'" for d d'
    using that by (auto simp: create_index_if_missing_def lookup_def split: prod.splits if_splits)
  then show "good (create_index_if_missing ix)" by (intro goodI) (simp add: carries_on_same)
  have "lookup d' = lookup d" if "drop_index_if_exists i d = Inr d'" for d d'
    using that by (auto simp: drop_index_if_exists_def lookup_def)
  then show "good (drop_index_if_exists i)" by (intro goodI) (simp add: carries_on_same)
qed

lemma good_create:
  assumes "shaped t tb" "t \<noteq> ''schema_version''"
  shows "good (create_table_if_missing t tb)"
proof (rule goodI)
  fix d d' assume d: "legacy (lookup d)" "create_table_if_missing t tb d = Inr d'"
  show "carries_on d d'"
  proof (cases "has_table d t")
    case False
    then have "lookup d t = None \<and> lookup d' = (lookup d)(t \<mapsto> tb)"
      using d(2) lookup_create [of t tb d d'] by (simp add: create_table_if_missing_def)
    then show ?thesis using d(1) assms by (intro carries_on_upd) auto
  qed (use d in \<open>simp add: create_table_if_missing_def carries_on_same\<close>)
qed

lemma good_add_missing:
  assumes "t = ''volumes'' \<longrightarrow> col = ''verified_at''" "t \<notin> {''volume_events'', ''schema_version''}"
  shows "good (add_missing t col dv)"
proof (rule goodI)
  fix d d' assume d: "legacy (lookup d)" "add_missing t col dv d = Inr d'"
  show "carries_on d d'"
  proof (cases "col \<in> set (table_info d t)")
    case False
    then obtain tb v where tb: "lookup d t = Some tb" "col \<notin> set (columns tb)"
      "lookup d' = (lookup d)(t \<mapsto> tb\<lparr>columns := columns tb @ [col], rows := map (\<lambda>r. r @ [v]) (rows tb)\<rparr>)"
      using d(2) lookup_add_column [of t col dv d d'] by (auto simp: add_missing_def)
    have sh: "shaped t tb" using d(1) tb(1) by (simp add: legacy_def)
    have "map_of (zip (columns tb) r) \<subseteq>\<^sub>m map_of (zip (columns tb @ [col]) (r @ [v]))" if "r \<in> set (rows tb)" for r
      using sh that by (auto simp: shaped_def list_all_iff zip_append map_le_def map_add_def split: option.splits)
    then have "kept t tb (tb\<lparr>columns := columns tb @ [col], rows := map (\<lambda>r. r @ [v]) (rows tb)\<rparr>)"
      using assms(2) by (auto simp: kept_def row_kept_def dangling_def of_volumes_def)
    moreover have "shaped t (tb\<lparr>columns := columns tb @ [col], rows := map (\<lambda>r. r @ [v]) (rows tb)\<rparr>)"
      using sh tb(2) assms by (auto simp: shaped_def list_all_iff CREATE_VOLUMES_def new_table_def)
    ultimately show ?thesis using d(1) tb assms(2) by (intro carries_on_upd) auto
  qed (use d in \<open>simp add: add_missing_def carries_on_same\<close>)
qed

lemmas like_old_eval = like_old_def py_lower_def lower_char_def code_def

lemma like_old_names [simp]:
  "like_old ''volumes_old''" "like_old ''volume_events_old''" "\<not> like_old ''volumes''" "\<not> like_old ''volume_events''"
  "\<not> like_old ''schema_version''" "\<not> like_old ''volume_copies''" "\<not> like_old ''session_volumes''" "\<not> like_old ''key_escrow''"
  "\<not> like_old ''repositories''"
  by (simp_all add: like_old_eval)

lemma no_old: "legacy m \<Longrightarrow> m ''volumes_old'' = None"
  using like_old_names(1) unfolding legacy_def shaped_def by (metis not_Some_eq)

section \<open>Tables made anew\<close>

lemma recreate:
  assumes "rename_table a b d = Inr d1" "lookup d2 = (lookup d1)(a \<mapsto> tb0)" "insert_rows a rs d2 = Inr d3" "drop_table b d3 = Inr d4"
    "a \<noteq> b" "rows tb0 = []"
  shows "lookup d4 = (\<lambda>n. if n = a then Some (tb0\<lparr>rows := rs\<rparr>) else if n = b then None else map_option (renamed a b) (lookup d n))"
  using lookup_rename [OF assms(1,5)] assms(2) lookup_insert [OF assms(3)] lookup_drop [OF assms(4)] assms(5,6)
  by (auto simp: fun_eq_iff)

lemma carries_on_recreated:
  assumes "legacy (lookup d)" "lookup d a = Some old" "row_kept old tb" "shaped a tb" "a \<in> {''volumes'', ''volume_events''}"
    "lookup d' = (\<lambda>n. if n = a then Some tb else if n = b then None else map_option (renamed a b) (lookup d n))"
    "like_old b" "a = ''volumes'' \<longrightarrow> b = ''volumes_old''"
  shows "carries_on d d'"
proof -
  have ren: "shaped t (renamed a b tb)" "kept t tb (renamed a b tb)" if "lookup d t = Some tb" for t tb
  proof -
    have "shaped t tb" using assms(1) that by (simp add: legacy_def)
    then show "shaped t (renamed a b tb)" by (simp add: shaped_def renamed_def)
    have "row_kept tb (renamed a b tb)" using row_kept_refl [of tb] by (simp add: row_kept_def renamed_def)
    moreover have "dangling tb \<longrightarrow> dangling (renamed a b tb)" "of_volumes tb \<longrightarrow> of_volumes (renamed a b tb)"
      using assms(5,8) by (auto simp: renamed_def dangling_def of_volumes_def rename_def image_iff)
    ultimately show "kept t tb (renamed a b tb)" by (simp add: kept_def)
  qed
  have b: "lookup d b = None" using assms(1,7) by (cases "lookup d b") (auto simp: legacy_def shaped_def)
  have "legacy (lookup d')" using ren(1) assms(4) by (auto simp: legacy_def assms(6))
  moreover have "extends (lookup d) (lookup d')"
    using ren(2) assms(2,3,5) b by (auto simp: extends_def assms(6) kept_def)
  moreover have "a \<noteq> ''schema_version''" "b \<noteq> ''schema_version''" using assms(5,7) like_old_names by auto
  then have "table_rows d' ''schema_version'' = table_rows d ''schema_version''"
    by (simp add: lookup_simps assms(6) renamed_def split: option.splits)
  ultimately show ?thesis by (simp add: carries_on_def)
qed

lemma select_by_name:
  "length r = length cols \<Longrightarrow> distinct cols \<Longrightarrow> map (\<lambda>c. the (map_of (zip cols r) c)) cols = r"
  by (rule nth_equalityI) (simp_all add: map_of_zip_nth)

lemma in_turn_append: "in_turn (xs @ ys) d = rbind (in_turn xs d) (in_turn ys)"
  by (induction xs arbitrary: d) (simp_all add: rbind_def split: sum.splits)

lemma v5_step_ok:
  assumes "legacy (lookup d)" "in_turn v5_step d = Inr d'"
  shows "carries_on d d' \<and> (\<forall>t tb. t \<noteq> ''volumes'' \<longrightarrow> lookup d t = Some tb \<longrightarrow> of_volumes tb \<longrightarrow>
    (\<exists>tb'. lookup d' t = Some tb' \<and> dangling tb'))"
proof -
  obtain d1 d2 d3 d4 where r: "rename_table ''volumes'' ''volumes_old'' d = Inr d1" "create_table ''volumes'' CREATE_VOLUMES d1 = Inr d2"
    "insert_select_all ''volumes'' ''volumes_old'' d2 = Inr d3" "drop_table ''volumes_old'' d3 = Inr d4"
    "create_index_if_missing (''idx_volumes_status'', ''volumes'', ''status'') d4 = Inr d'"
    using assms(2) by (auto simp: v5_step_def rbind_eq_Inr)
  note ren = lookup_rename [OF r(1), simplified]
  obtain old where old: "lookup d ''volumes'' = Some old" using ren by auto
  have d2: "lookup d2 = (lookup d1)(''volumes'' \<mapsto> CREATE_VOLUMES)" using lookup_create [OF r(2)] by simp
  have len: "length (columns old) = length (columns CREATE_VOLUMES)" and ins: "insert_rows ''volumes'' (rows old) d2 = Inr d3"
    using r(3) d2 ren old by (auto simp: insert_select_all_def lookup_simps renamed_def split: if_splits)
  have sh: "shaped ''volumes'' old" using assms(1) old by (simp add: legacy_def)
  then have cols: "columns old = columns CREATE_VOLUMES" using len by (auto simp: shaped_def CREATE_VOLUMES_def new_table_def)
  let ?tb = "CREATE_VOLUMES\<lparr>rows := rows old\<rparr>"
  have d4: "lookup d4 = (\<lambda>n. if n = ''volumes'' then Some ?tb else if n = ''volumes_old'' then None
      else map_option (renamed ''volumes'' ''volumes_old'') (lookup d n))"
    by (rule recreate [OF r(1) d2 ins r(4)]) (simp_all add: CREATE_VOLUMES_def new_table_def)
  have "row_kept old ?tb" using row_kept_refl [of old] cols by (simp add: row_kept_def)
  moreover have "shaped ''volumes'' ?tb" using sh cols by (simp add: shaped_def)
  ultimately have g: "carries_on d d4" by (intro carries_on_recreated [OF assms(1) old _ _ _ d4]) simp_all
  moreover have same: "lookup d' = lookup d4"
    using r(5) by (auto simp: create_index_if_missing_def lookup_def split: if_splits)
  ultimately have "carries_on d d'" using carries_on_trans carries_on_same [of d4 d'] by (auto simp: carries_on_def)
  moreover have "dangling (renamed ''volumes'' ''volumes_old'' tb)" if "of_volumes tb" for tb
    using that by (auto simp: dangling_def of_volumes_def renamed_def rename_def image_iff)
  moreover have "t \<noteq> ''volumes_old''" if "lookup d t = Some tb" for t tb
    using assms(1) that like_old_names(1) unfolding legacy_def shaped_def by blast
  ultimately show ?thesis unfolding same d4 by auto
qed

lemma v6_step_ok:
  assumes "legacy (lookup d)" "in_turn v6_step d = Inr d'"
  shows "carries_on d d'"
proof -
  let ?a = "''volume_events''" and ?b = "''volume_events_old''"
  obtain d1 d2 d3 d4 where r: "rename_table ?a ?b d = Inr d1" "create_table_if_missing ?a CREATE_VOLUME_EVENTS d1 = Inr d2"
    "insert_select ?a EVENT_COLUMNS ?b d2 = Inr d3" "drop_table ?b d3 = Inr d4"
    and ix: "in_turn [create_index_if_missing (''idx_volume_events_volume'', ''volume_events'', ''volume_id''),
      create_index_if_missing (''idx_volume_events_type'', ''volume_events'', ''event_type''),
      create_index_if_missing (''idx_volume_events_date'', ''volume_events'', ''event_date'')] d4 = Inr d'"
    using assms(2) by (auto simp: v6_step_def rbind_eq_Inr EVENT_COLUMNS_def)
  note ren = lookup_rename [OF r(1), simplified]
  obtain old where old: "lookup d ?a = Some old" using ren by auto
  have d2: "lookup d2 = (lookup d1)(?a \<mapsto> CREATE_VOLUME_EVENTS)"
    using r(2) lookup_create [of ?a CREATE_VOLUME_EVENTS d1 d2] ren by (simp add: create_table_if_missing_def lookup_simps)
  have sh: "shaped ?a old" using assms(1) old by (simp add: legacy_def)
  then have cols: "columns old = EVENT_COLUMNS" and len: "\<forall>r \<in> set (rows old). length r = length EVENT_COLUMNS"
    by (auto simp: shaped_def list_all_iff)
  have "map (\<lambda>r. map (\<lambda>c. the (map_of (zip EVENT_COLUMNS r) c)) EVENT_COLUMNS) (rows old) = rows old"
    using len by (intro map_idI select_by_name) (simp_all add: EVENT_COLUMNS_def)
  then have ins: "insert_rows ?a (rows old) d2 = Inr d3"
    using r(3) d2 ren old cols by (auto simp: insert_select_def lookup_simps renamed_def split: if_splits)
  let ?tb = "CREATE_VOLUME_EVENTS\<lparr>rows := rows old\<rparr>"
  have d4: "lookup d4 = (\<lambda>n. if n = ?a then Some ?tb else if n = ?b then None else map_option (renamed ?a ?b) (lookup d n))"
    by (rule recreate [OF r(1) d2 ins r(4)]) (simp_all add: CREATE_VOLUME_EVENTS_def new_table_def)
  have new: "columns CREATE_VOLUME_EVENTS = EVENT_COLUMNS" by (simp add: CREATE_VOLUME_EVENTS_def new_table_def EVENT_COLUMNS_def)
  have "row_kept old ?tb" using row_kept_refl [of old] cols new by (simp add: row_kept_def)
  moreover have "shaped ?a ?tb" using sh cols new by (simp add: shaped_def)
  ultimately have g: "carries_on d d4" by (intro carries_on_recreated [OF assms(1) old _ _ _ d4]) simp_all
  then have "carries_on d4 d'" using goodD [OF good_in_turn _ ix] good_indices by (simp add: carries_on_def)
  then show ?thesis using g carries_on_trans by blast
qed

section \<open>Versions\<close>

definition steps_on :: "string \<Rightarrow> migration list \<Rightarrow> database \<Rightarrow> database \<Rightarrow> bool" where
  "steps_on now ss d d' \<longleftrightarrow> legacy (lookup d') \<and> extends (lookup d) (lookup d') \<and>
     table_rows d' ''schema_version'' = table_rows d ''schema_version'' @ map (\<lambda>(n, _). [Sql_int n, Sql_text now]) ss"

lemma good_steps:
  "good (in_turn v3_step)" "good (in_turn v4_step)" "good (in_turn v7_step)" "good (in_turn v8_step)" "good (in_turn v9_step)"
  "good (in_turn v10_step)"
  by (rule good_in_turn;
      simp add: v3_step_def v4_step_def v7_step_def v8_step_def v9_step_def v10_step_def good_indices;
      intro conjI good_cond good_create good_add_missing;
      simp add: shaped_def new_table_def EVENT_COLUMNS_def CREATE_VOLUME_EVENTS_def CREATE_SESSION_VOLUMES_def
        CREATE_VOLUME_COPIES_def CREATE_KEY_ESCROW_def CREATE_REPOSITORIES_def)+

lemma step_carries_on:
  assumes "(n, fk, stmts) \<in> set MIGRATIONS" "legacy (lookup d)" "in_turn stmts d = Inr d'"
  shows "carries_on d d'"
proof -
  have "stmts \<in> {v5_step, v6_step} \<or> good (in_turn stmts)" using assms(1) good_steps by (auto simp: MIGRATIONS_def)
  then show ?thesis using assms(2,3) v5_step_ok v6_step_ok goodD by blast
qed

lemma step_body_ok:
  assumes "s \<in> set MIGRATIONS" "legacy (lookup d)" "step_body now s d = Inr d'"
  shows "steps_on now [s] d d'"
proof -
  obtain n fk stmts where s: "s = (n, fk, stmts)" by (metis prod_cases3)
  obtain d1 where d1: "in_turn stmts d = Inr d1" "insert_version now n d1 = Inr d'"
    using assms(3) by (auto simp: step_body_def s in_turn_append rbind_eq_Inr)
  have g: "carries_on d d1" using step_carries_on assms(1,2) d1(1) unfolding s by blast
  obtain tb where tb: "lookup d1 ''schema_version'' = Some tb" "length (columns tb) = 2"
    "lookup d' = (lookup d1)(''schema_version'' \<mapsto> tb\<lparr>rows := rows tb @ [[Sql_int n, Sql_text now]]\<rparr>)"
    using lookup_insert [OF d1(2) [unfolded insert_version_def]] by auto
  have "legacy (lookup d1)" using g by (simp add: carries_on_def)
  then have "shaped ''schema_version'' tb" using tb(1) by (simp add: legacy_def)
  then have "shaped ''schema_version'' (tb\<lparr>rows := rows tb @ [[Sql_int n, Sql_text now]]\<rparr>)" using tb(2) by (simp add: shaped_def)
  then have "legacy (lookup d')" using \<open>legacy (lookup d1)\<close> tb(3) legacy_upd by simp
  moreover have "row_kept tb (tb\<lparr>rows := rows tb @ [[Sql_int n, Sql_text now]]\<rparr>)"
    using row_kept_refl [of tb] by (auto simp: row_kept_def)
  then have "extends (lookup d1) (lookup d')"
    unfolding tb(3) by (intro extends_upd) (simp add: tb(1) kept_def dangling_def of_volumes_def)
  moreover have "table_rows d' ''schema_version'' = table_rows d1 ''schema_version'' @ [[Sql_int n, Sql_text now]]"
    by (simp add: lookup_simps tb)
  ultimately show ?thesis using g extends_trans by (auto simp: steps_on_def carries_on_def s)
qed

lemma steps_on_append: "steps_on now xs a b \<Longrightarrow> steps_on now ys b c \<Longrightarrow> steps_on now (xs @ ys) a c"
  using extends_trans by (auto simp: steps_on_def)

lemma steps_ok:
  assumes "set ss \<subseteq> set MIGRATIONS" "legacy (lookup d)" "in_turn (map (step_body now) ss) d = Inr d'"
  shows "steps_on now ss d d'"
  using assms
proof (induction ss arbitrary: d)
  case Nil
  then show ?case by (simp add: steps_on_def extends_refl)
next
  case (Cons s ss)
  then obtain d1 where d1: "step_body now s d = Inr d1" "in_turn (map (step_body now) ss) d1 = Inr d'"
    by (auto simp: rbind_eq_Inr)
  have "steps_on now [s] d d1" using step_body_ok Cons.prems(1,2) d1(1) by simp
  then show ?case using Cons.IH [of d1] Cons.prems(1) d1(2) steps_on_append [of now "[s]" d d1 ss d'] by (simp add: steps_on_def)
qed

lemma not_wedged: "detect_wedged_migration d = [] \<longleftrightarrow> (\<forall>t. lookup d t \<noteq> None \<longrightarrow> \<not> like_old t)"
proof -
  have "set (sort (filter like_old (map fst (tables d)))) = {t. lookup d t \<noteq> None \<and> like_old t}"
    by (auto simp: lookup_def map_of_eq_None_iff)
  then show ?thesis unfolding detect_wedged_migration_def by (metis (mono_tags, lifting) Collect_empty_eq set_empty)
qed

lemma version_rows:
  assumes "table_rows d' ''schema_version'' = table_rows d ''schema_version'' @ map (\<lambda>(n, _). [Sql_int n, Sql_text now]) ss"
    "\<forall>s \<in> set ss. fst s \<le> v" "v \<in> fst ` set ss" "get_schema_version d < v" "0 < v"
  shows "get_schema_version d' = v"
proof -
  define vs where "vs rs = concat (map (\<lambda>r. case r of Sql_int v # _ \<Rightarrow> [v] | _ \<Rightarrow> []) rs)" for rs
  let ?old = "vs (table_rows d ''schema_version'')"
  have ver: "get_schema_version e = (if vs (table_rows e ''schema_version'') = [] then 0 else Max (set (vs (table_rows e ''schema_version''))))" for e
    by (simp only: get_schema_version_def vs_def Let_def)
  have "vs (map (\<lambda>(n, _). [Sql_int n, Sql_text now]) ss) = map fst ss" by (induction ss) (auto simp: vs_def)
  then have new: "vs (table_rows d' ''schema_version'') = ?old @ map fst ss"
    using assms(1) by (simp add: vs_def)
  have "x < v" if "x \<in> set ?old" for x
    using that assms(4) Max_ge [OF finite_set that] ver [of d] by (cases "?old = []") auto
  then have "Max (set (?old @ map fst ss)) = v" using assms(2,3) by (intro Max_eqI) force+
  then show ?thesis unfolding ver [of d'] new using assms(3) by auto
qed

lemma pending_simps:
  "set (pending v) \<subseteq> set MIGRATIONS" "v < 10 \<Longrightarrow> (10, False, v10_step) \<in> set (pending v)" "\<forall>s \<in> set (pending v). fst s \<le> 10"
  by (auto simp: pending_def MIGRATIONS_def)

text \<open>A migration that returns has run every step that was pending.\<close>

lemma migrate_steps:
  assumes "idle c" "migrate c = (Inr v, c')" "get_schema_version (m_db c) < 10"
  shows "in_turn (map (step_body (m_now c)) (pending (get_schema_version (m_db c)))) (m_db c) = Inr (m_db c')"
proof -
  let ?ss = "pending (get_schema_version (m_db c))" and ?c = "c\<lparr>m_isolation := False\<rparr>"
  have c: "commit c = c" "idle ?c" using assms(1) by (simp_all add: commit_def idle_def)
  obtain c1 where c1: "run_steps ?ss ?c = (Inr (), c1)" "m_db c' = m_db c1"
    using assms(2,3) c(1) by (auto simp: migrate_def Let_def CURRENT_SCHEMA_VERSION_def split: if_splits prod.splits sum.splits)
  obtain ds where ds: "m_db c1 = hd (ds @ m_file c)" "length ds = length ?ss"
    "\<forall>i < length ds. in_turn (take (Suc i) (map (step_body (m_now c)) ?ss)) (m_db c) = Inr (rev ds ! i)"
    using run_steps_atomic [OF c(2) c1(1)] by auto
  have "?ss \<noteq> []" using pending_simps(2) [OF assms(3)] by auto
  then have ne: "ds \<noteq> []" using ds(2) by auto
  then have "rev ds ! (length ds - 1) = hd ds" by (simp add: rev_nth hd_conv_nth)
  then show ?thesis using ds ne c1(2) by (metis Suc_diff_1 diff_less hd_append2 length_greater_0_conv length_map less_numeral_extra(1) take_all_iff order_refl)
qed

section \<open>Catalogs of older versions\<close>

definition old_table :: "string list \<Rightarrow> string list \<Rightarrow> sql_value list list \<Rightarrow> table" where
  "old_table cols refs rs = \<lparr>columns = cols, references = refs, check_in = None, rows = rs\<rparr>"

text \<open>A catalog of version 4 with one volume and one event, and one of version 2 with a repository.\<close>

definition v4_catalog :: database where
  "v4_catalog = \<lparr>tables =
     [(''schema_version'', old_table [''version'', ''applied_at''] [] [[Sql_int 4, Sql_null]]),
      (''volumes'', old_table [''volume_id'', ''label'', ''uuid'', ''media_type'', ''capacity_bytes'', ''used_bytes'', ''location'', ''status'',
         ''created_at'', ''closed_at'', ''verified_at''] []
         [[Sql_int 1, Sql_text ''V'', Sql_text ''u'', Sql_text ''BD'', Sql_int 25, Sql_int 0, Sql_text ''Home'', Sql_text ''BURNED'',
           Sql_text ''t'', Sql_null, Sql_null]]),
      (''repositories'', old_table [''repo_id'', ''name'', ''mirror_path'', ''encryption_key_id'', ''created_at''] [] []),
      (''volume_packs'', old_table [''volume_id'', ''pack_id''] [''volumes'', ''packs''] []),
      (''volume_copies'', old_table [''id'', ''volume_id'', ''location'', ''status'', ''burn_date'', ''notes'', ''iso_sha256'',
         ''last_verified_at'', ''media_serial''] [''volumes'', ''locations''] []),
      (''volume_events'', old_table [''event_id'', ''volume_id'', ''event_type'', ''event_date'', ''location'', ''detail'']
         [''volumes'', ''locations''] [[Sql_int 1, Sql_int 1, Sql_text ''NOTE'', Sql_text ''t'', Sql_null, Sql_text []]])],
     indices = [(''idx_volumes_status'', ''volumes'', ''status'')]\<rparr>"

definition v2_catalog :: database where
  "v2_catalog = \<lparr>tables =
     [(''schema_version'', old_table [''version'', ''applied_at''] [] [[Sql_int 2, Sql_null]]),
      (''repositories'', old_table [''repo_id'', ''name'', ''mirror_path'', ''encryption_key_id''] []
         [[Sql_text ''r'', Sql_text ''n'', Sql_text ''m'', Sql_text []]])],
     indices = []\<rparr>"

definition opened :: "database \<Rightarrow> schema_conn" where
  "opened d = \<lparr>m_db = d, m_file = [d], m_in_tx = False, m_foreign_keys = True, m_isolation = True, m_query_only = False,
     m_readonly = False, m_locked = False, m_now = ''now''\<rparr>"

lemma idle_opened: "idle (opened d)"
  by (simp add: idle_def opened_def)

lemma v4_version: "get_schema_version (m_db (opened v4_catalog)) = 4"
  by code_simp

lemma v4_migrates: "fst (migrate (opened v4_catalog)) = Inr 10"
  by code_simp

lemma v4_legacy: "legacy (lookup (m_db (opened v4_catalog)))"
  by (auto simp: legacy_def lookup_def opened_def v4_catalog_def old_table_def shaped_def like_old_eval CREATE_VOLUMES_def new_table_def
      EVENT_COLUMNS_def split: if_splits)

section \<open>Properties\<close>

text \<open>
  C37. Migrations are atomic. Whatever happens during a migration, the states that the file has had on the
  way are, one after the other, the results of the first pending version steps, each complete; no
  transaction is left open, foreign keys are not left switched off, and when the migration returns,
  all pending steps have run.
\<close>

theorem migrate_atomic:
  assumes "idle c" "migrate c = (r, c')"
  shows "\<exists>ds. m_file c' = ds @ m_file c \<and> idle c' \<and> m_isolation c' = m_isolation c \<and> (m_foreign_keys c \<longrightarrow> m_foreign_keys c') \<and>
    (\<forall>i < length ds. in_turn (take (Suc i) (map (step_body (m_now c)) (pending (get_schema_version (m_db c))))) (m_db c) = Inr (rev ds ! i)) \<and>
    (\<forall>v. r = Inr v \<longrightarrow> length ds = length (pending (get_schema_version (m_db c))))"
proof (cases "detect_wedged_migration (m_db c) = [] \<and> get_schema_version (m_db c) < 10")
  case True
  let ?ss = "pending (get_schema_version (m_db c))" and ?c = "c\<lparr>m_isolation := False\<rparr>"
  have c: "commit c = c" "idle ?c" using assms(1) by (simp_all add: commit_def idle_def)
  obtain r1 c1 where c1: "run_steps ?ss ?c = (r1, c1)" by (metis surj_pair)
  then have c': "c' = c1\<lparr>m_isolation := m_isolation c\<rparr>" "\<forall>v. r = Inr v \<longrightarrow> r1 = Inr ()"
    using assms(2) c(1) True by (auto simp: migrate_def Let_def CURRENT_SCHEMA_VERSION_def split: sum.splits)
  from run_steps_atomic [OF c(2) c1] obtain ds fk where
    "c1 = ?c\<lparr>m_db := hd (ds @ m_file ?c), m_file := ds @ m_file ?c, m_foreign_keys := fk\<rparr>" "m_foreign_keys ?c \<longrightarrow> fk"
    "\<forall>i < length ds. in_turn (take (Suc i) (map (step_body (m_now ?c)) ?ss)) (m_db ?c) = Inr (rev ds ! i)"
    "r1 = Inr () \<longrightarrow> length ds = length ?ss" by blast
  then show ?thesis using c' assms(1) by (intro exI [of _ ds]) (auto simp: idle_def)
next
  case False
  then have "c' = c" "\<forall>v. r = Inr v \<longrightarrow> pending (get_schema_version (m_db c)) = []"
    using assms(2) by (auto simp: migrate_def CURRENT_SCHEMA_VERSION_def Let_def pending_def MIGRATIONS_def split: if_splits)
  then show ?thesis using assms(1) by (intro exI [of _ "[]"]) simp
qed

theorem migrate_atomic_witness:
  "\<exists>ds. m_file (snd (migrate (opened v4_catalog))) = ds @ [v4_catalog] \<and> length ds = 6"
  using migrate_atomic [OF idle_opened, of v4_catalog "Inr 10" "snd (migrate (opened v4_catalog))"] v4_migrates v4_version
  by (auto simp: prod_eq_iff pending_def MIGRATIONS_def opened_def)

text \<open>
  C38. Migrations lose nothing. When a catalog of the shape the older versions had is migrated, every row
  of every table is still in the table of that name with the values of its columns, the version
  recorded is the current one, and no table of an interrupted migration is left.
\<close>

theorem migrate_keeps_rows:
  assumes "idle c" "legacy (lookup (m_db c))" "get_schema_version (m_db c) < 10" "migrate c = (Inr v, c')"
  shows "v = 10 \<and> get_schema_version (m_db c') = 10 \<and> detect_wedged_migration (m_db c') = [] \<and>
    (\<forall>t tb. lookup (m_db c) t = Some tb \<longrightarrow> (\<exists>tb'. lookup (m_db c') t = Some tb' \<and> row_kept tb tb'))"
proof -
  let ?ss = "pending (get_schema_version (m_db c))"
  have on: "steps_on (m_now c) ?ss (m_db c) (m_db c')"
    using steps_ok [OF pending_simps(1) assms(2) migrate_steps [OF assms(1,4,3)]] .
  have "v = 10" using assms(3,4) by (auto simp: migrate_def CURRENT_SCHEMA_VERSION_def Let_def split: if_splits prod.splits sum.splits)
  moreover have "get_schema_version (m_db c') = 10"
    using on pending_simps(2) [OF assms(3)] pending_simps(3) assms(3)
    by (intro version_rows [of "m_db c'" "m_db c" "m_now c" ?ss]) (force simp: steps_on_def)+
  moreover have "detect_wedged_migration (m_db c') = []"
    using on by (auto simp: not_wedged steps_on_def legacy_def shaped_def)
  ultimately show ?thesis using on by (auto simp: steps_on_def extends_def kept_def)
qed

theorem migrate_keeps_rows_witness:
  "get_schema_version (m_db (snd (migrate (opened v4_catalog)))) = 10 \<and>
   (\<exists>tb'. lookup (m_db (snd (migrate (opened v4_catalog)))) ''volumes'' = Some tb' \<and> rows tb' \<noteq> [])"
proof -
  let ?c' = "snd (migrate (opened v4_catalog))"
  have all: "get_schema_version (m_db ?c') = 10 \<and>
    (\<forall>t tb. lookup (m_db (opened v4_catalog)) t = Some tb \<longrightarrow> (\<exists>tb'. lookup (m_db ?c') t = Some tb' \<and> row_kept tb tb'))"
    using migrate_keeps_rows [OF idle_opened v4_legacy, of 10 ?c'] v4_migrates v4_version by (simp add: prod_eq_iff)
  obtain tb where "lookup (m_db (opened v4_catalog)) ''volumes'' = Some tb" "rows tb \<noteq> []"
    by (simp add: lookup_def opened_def v4_catalog_def old_table_def)
  then obtain tb' where "lookup (m_db ?c') ''volumes'' = Some tb'" "row_kept tb tb'" "rows tb \<noteq> []" using all by blast
  moreover from this have "rows tb' \<noteq> []" by (cases "rows tb") (auto simp: row_kept_def)
  ultimately show ?thesis using all by blast
qed

text \<open>
  C39. The step to version 5 breaks foreign keys. After the migration of a catalog from before version 5,
  every table whose foreign keys named the table of volumes (other than the table of events, which is
  made anew) names a table that does not exist.
\<close>

theorem v5_migration_dangling:
  assumes "idle c" "legacy (lookup (m_db c))" "get_schema_version (m_db c) < 5" "migrate c = (Inr v, c')"
    "lookup (m_db c) t = Some tb" "''volumes'' \<in> set (references tb)" "t \<notin> {''volumes'', ''volume_events''}"
  shows "\<exists>tb'. lookup (m_db c') t = Some tb' \<and> ''volumes_old'' \<in> set (references tb') \<and> lookup (m_db c') ''volumes_old'' = None"
proof -
  let ?v = "get_schema_version (m_db c)" and ?s = "(5, True, v5_step) :: migration" and ?now = "m_now c"
  define pre where "pre = filter (\<lambda>(n, _). ?v < n) [(3 :: int, False, v3_step), (4, False, v4_step)]"
  define post where "post = [(6 :: int, True, v6_step), (7, False, v7_step), (8, False, v8_step), (9, False, v9_step), (10, False, v10_step)]"
  have split: "pending ?v = pre @ ?s # post" using assms(3) by (simp add: pending_def MIGRATIONS_def pre_def post_def)
  have sub: "set pre \<subseteq> set MIGRATIONS" "?s \<in> set MIGRATIONS" "set post \<subseteq> set MIGRATIONS"
    by (auto simp: pre_def post_def MIGRATIONS_def)
  have "?v < 10" using assms(3) by simp
  from migrate_steps [OF assms(1,4) this] obtain d1 d2 d3 where d: "in_turn (map (step_body ?now) pre) (m_db c) = Inr d1"
    "in_turn v5_step d1 = Inr d2" "insert_version ?now 5 d2 = Inr d3" "in_turn (map (step_body ?now) post) d3 = Inr (m_db c')"
    by (auto simp: split in_turn_append rbind_eq_Inr step_body_def)
  have on1: "steps_on ?now pre (m_db c) d1" using steps_ok [OF sub(1) assms(2) d(1)] .
  then obtain tb1 where tb1: "lookup d1 t = Some tb1" "of_volumes tb1"
    using assms(5,6,7) by (fastforce simp: steps_on_def extends_def kept_def of_volumes_def)
  have l1: "legacy (lookup d1)" using on1 by (simp add: steps_on_def)
  obtain tb2 where tb2: "lookup d2 t = Some tb2" "dangling tb2"
    using v5_step_ok [OF l1 d(2)] tb1 assms(7) by auto
  have "step_body ?now ?s d1 = Inr d3" using d(2,3) by (simp add: step_body_def in_turn_append)
  from step_body_ok [OF sub(2) l1 this] have l3: "legacy (lookup d3)" by (simp add: steps_on_def)
  obtain tb3 where tb3: "lookup d3 t = Some tb3" "dangling tb3"
    using lookup_insert [OF d(3) [unfolded insert_version_def]] tb2 by (cases "t = ''schema_version''") (auto simp: dangling_def)
  have on4: "steps_on ?now post d3 (m_db c')" using steps_ok [OF sub(3) l3 d(4)] .
  then obtain tb4 where "lookup (m_db c') t = Some tb4" "dangling tb4"
    using tb3 assms(7) by (fastforce simp: steps_on_def extends_def kept_def)
  moreover have "lookup (m_db c') ''volumes_old'' = None"
    using on4 no_old by (simp add: steps_on_def)
  ultimately show ?thesis by (auto simp: dangling_def)
qed

theorem v5_migration_dangling_witness:
  "\<exists>tb'. lookup (m_db (snd (migrate (opened v4_catalog)))) ''volume_packs'' = Some tb' \<and> ''volumes_old'' \<in> set (references tb') \<and>
     lookup (m_db (snd (migrate (opened v4_catalog)))) ''volumes_old'' = None"
  using v4_migrates v4_version
  by (intro v5_migration_dangling [OF idle_opened v4_legacy, of 10 _ _ "old_table [''volume_id'', ''pack_id''] [''volumes'', ''packs''] []"])
    (simp_all add: prod_eq_iff lookup_def opened_def v4_catalog_def old_table_def)

text \<open>
  C40. The step to version 3 refuses catalogs with repositories. A catalog from before version 3 whose
  repositories have no creation time cannot be migrated once it holds a repository: the migration
  raises, whatever else the catalog holds, and changes nothing.
\<close>

theorem v3_migration_refused:
  assumes "idle c" "detect_wedged_migration (m_db c) = []" "get_schema_version (m_db c) < 3"
    "''created_at'' \<notin> set (table_info (m_db c) ''repositories'')" "table_rows (m_db c) ''repositories'' \<noteq> []"
  shows "migrate c = (Inl Operational, c)"
proof -
  let ?d = "m_db c" and ?s = "(3, False, v3_step) :: migration"
  have "in_turn v3_step ?d = Inl Operational"
  proof (cases "add_missing ''volumes'' ''verified_at'' (Some Sql_null) ?d")
    case (Inl e)
    then show ?thesis by (auto simp: v3_step_def add_missing_def add_column_def split: if_splits)
  next
    case (Inr d1)
    have "lookup d1 ''repositories'' = lookup ?d ''repositories''"
    proof (cases "''verified_at'' \<in> set (table_info ?d ''volumes'')")
      case False
      then show ?thesis using Inr lookup_add_column [of "''volumes''" "''verified_at''" "Some Sql_null" ?d d1] by (auto simp: add_missing_def)
    qed (use Inr in \<open>simp add: add_missing_def\<close>)
    then have "add_missing ''repositories'' ''created_at'' None d1 = Inl Operational"
      using assms(4,5) by (auto simp: add_missing_def add_column_def lookup_simps split: option.splits)
    then show ?thesis using Inr by (simp add: v3_step_def)
  qed
  then have body: "step_body now ?s ?d = Inl Operational" for now by (simp add: step_body_def in_turn_append)
  have c: "commit c = c" "m_db c = hd (m_file c)" "\<not> m_in_tx c" using assms(1) by (simp_all add: commit_def idle_def)
  have "run_step ?s (c\<lparr>m_isolation := False\<rparr>) = (Inl Operational, c\<lparr>m_isolation := False\<rparr>)"
    using c body by (cases c) (simp add: run_step_def rollback_def Let_def)
  moreover have "pending (get_schema_version ?d) = ?s # tl (pending (get_schema_version ?d))"
    using assms(3) by (simp add: pending_def MIGRATIONS_def)
  ultimately have "run_steps (pending (get_schema_version ?d)) (c\<lparr>m_isolation := False\<rparr>) = (Inl Operational, c\<lparr>m_isolation := False\<rparr>)"
    by (metis (no_types, lifting) case_prod_conv run_steps.simps(2) sum.case(1))
  then show ?thesis using assms(2,3) c(1) by (simp add: migrate_def CURRENT_SCHEMA_VERSION_def)
qed

theorem v3_migration_refused_witness:
  "migrate (opened v2_catalog) = (Inl Operational, opened v2_catalog)"
  by (rule v3_migration_refused [OF idle_opened]) (code_simp+)

text \<open>A current catalog is left as it is, and so is one of a later version, which is refused.\<close>

lemma execute_all_same: "(\<And>s. s \<in> set ss \<Longrightarrow> s (m_db c) = Inr (m_db c)) \<Longrightarrow> execute_all ss c = (Inr (), c)"
proof (induction ss)
  case (Cons s ss)
  have "s (m_db c) = Inr (m_db c)" by (rule Cons.prems) simp
  then have "execute s c = (Inr (), c)" by (simp add: execute_def)
  then show ?case using Cons by simp
qed simp

lemma ensure_schema_current:
  assumes "idle c" "detect_wedged_migration (m_db c) = []" "get_schema_version (m_db c) = 10"
    "\<forall>t \<in> fst ` set CREATE_TABLES. has_table (m_db c) t" "fst ` set CREATE_INDICES \<subseteq> fst ` set (indices (m_db c))"
  shows "ensure_schema c = (Inr 10, c)"
proof -
  have "execute_all (map (\<lambda>(t, tb). create_table_if_missing t tb) CREATE_TABLES @ map create_index_if_missing CREATE_INDICES) c = (Inr (), c)"
  proof (rule execute_all_same)
    fix s assume "s \<in> set (map (\<lambda>(t, tb). create_table_if_missing t tb) CREATE_TABLES @ map create_index_if_missing CREATE_INDICES)"
    then consider t tb where "(t, tb) \<in> set CREATE_TABLES" "s = create_table_if_missing t tb"
      | ix where "ix \<in> set CREATE_INDICES" "s = create_index_if_missing ix" by auto
    then show "s (m_db c) = Inr (m_db c)"
    proof cases
      case 1
      then have "has_table (m_db c) t" using assms(4) by force
      then show ?thesis using 1 by (simp add: create_table_if_missing_def)
    next
      case 2
      then have "fst ix \<in> fst ` set (indices (m_db c))" using assms(5) by blast
      then show ?thesis using 2 by (cases ix) (simp add: create_index_if_missing_def)
    qed
  qed
  moreover have "table_rows (m_db c) ''schema_version'' \<noteq> []" using assms(3) by (auto simp: get_schema_version_def Let_def)
  moreover have "commit c = c" using assms(1) by (simp add: commit_def idle_def)
  ultimately show ?thesis using assms(2,3)
    by (simp add: ensure_schema_def create_all_def migrate_def CURRENT_SCHEMA_VERSION_def Let_def)
qed

lemma ensure_schema_refuses:
  "get_schema_version (m_db c) > 10 \<Longrightarrow> ensure_schema c = (Inl (Schema_version_error (get_schema_version (m_db c))), c)"
  "get_schema_version (m_db c) \<le> 10 \<Longrightarrow> is_readonly c \<Longrightarrow> ensure_schema c = (Inr (get_schema_version (m_db c)), c)"
  by (simp_all add: ensure_schema_def CURRENT_SCHEMA_VERSION_def)

end
