(* ===== verification/Spec2Isabelle.thy ===== *)
theory Spec2Isabelle
  imports Keyshare_Theorems Catalog_Splits Binpack Labels Restore_Plan Mirror Restore_Theorems Zstd_Lz Migrate_Theorems
begin

text \<open>
  A verification library for LCSAS, a suite that archives restic/rustic repositories on optical discs
  and restores them from the discs. All sources named here are under \<open>src/src/lcsas\<close>.

  \<^bold>\<open>The program.\<close> A repository mirror holds encrypted pack files. The suite scans the mirror
  (\<open>packs/scanner.py\<close>), registers the packs in an SQLite catalog (\<open>packs/delta.py\<close>, \<open>db/\<close>), plans which
  packs go on which volume (\<open>binpack/algorithm.py\<close>, \<open>burn/orchestrator.py\<close>), burns volumes and follows
  their discs through their life (\<open>db/volumes.py\<close>, \<open>db/volume_copies.py\<close>), merges old volumes
  (\<open>consolidate/merger.py\<close>) and plans restores from the catalog (\<open>restore/planner.py\<close>). The repository
  password can be split among people (\<open>keyshare/\<close>).

  \<^bold>\<open>Secret sharing.\<close> \<^theory_text>\<open>Gf256\<close>, \<^theory_text>\<open>Field_Interpolation\<close>, \<^theory_text>\<open>Shamir\<close>, \<^theory_text>\<open>Rs1024\<close>, \<^theory_text>\<open>Sha256\<close>,
  \<^theory_text>\<open>Feistel\<close>, \<^theory_text>\<open>Wordlist\<close>, \<^theory_text>\<open>Mnemonic_Words\<close>, \<^theory_text>\<open>Share_Format\<close>, \<^theory_text>\<open>Slip39\<close> model
  \<open>keyshare/slip39.py\<close> function by function, with the hash functions of the Python library it uses;
  \<^theory_text>\<open>Keyshare_Files\<close> models \<open>codec.py\<close> and \<open>cards.py\<close>. \<^theory_text>\<open>Slip39_Correct\<close>, \<^theory_text>\<open>Slip39_Api\<close> and
  \<^theory_text>\<open>Keyshare_Theorems\<close> show that any qualified selection of shares recovers the secret and no other
  selection does, that mnemonics, cards and framing are read back, and that the checksum and the
  interpolation meet their mathematical definitions. Random bytes are an argument (a list that is
  consumed).

  \<^bold>\<open>The catalog.\<close> \<^theory_text>\<open>Catalog_Db\<close> has the rows of \<open>db/models.py\<close>, the tables and constraints of
  \<open>db/schema.py\<close> and the SQLite connection with its transactions and savepoints. \<^theory_text>\<open>Catalog_Names\<close>
  (repositories, locations, snapshots), \<^theory_text>\<open>Catalog_Volumes\<close> (packs, volumes, discs, sessions, events),
  \<^theory_text>\<open>Catalog_Queries\<close> (\<open>db/queries.py\<close>) and \<^theory_text>\<open>Catalog_Escrow\<close> (\<open>db/key_escrow.py\<close>) hold one
  definition per function. An operation maps a connection to a result or an error and the new
  connection; every raise of the code is a value of \<open>db_error\<close>. \<^theory_text>\<open>Catalog_Order\<close> states the calculus
  of relations that operations keep as a locale; \<^theory_text>\<open>Catalog_Steps\<close> interprets it for the evolution of
  the catalog and defines the step relation of all operations; \<^theory_text>\<open>Catalog_Runs\<close> has the invariants of
  runs. \<^theory_text>\<open>Catalog_Schema\<close> to \<^theory_text>\<open>Catalog_Splits\<close> show the behaviour of the single operations and
  queries: the deprecation guard, the loss of discs, pick lists, reports, bulk operations, renaming
  and the record of password splits.

  \<^bold>\<open>Planning.\<close> \<^theory_text>\<open>Binpack\<close> models the media types and the packing of volumes, \<^theory_text>\<open>Labels\<close> the volume
  labels, \<^theory_text>\<open>Restore_Plan\<close> the two restore planners, \<^theory_text>\<open>Consolidate\<close> the merging of volumes,
  \<^theory_text>\<open>Mirror\<close> the scan of a mirror and its comparison with the catalog. Answers of the operating
  system are data of the model.

  \<^bold>\<open>Bounds.\<close> Every loop is total: structural recursion or a \<open>function\<close> with a measure; there is no fuel.
  Python integers are \<open>int\<close> or \<open>nat\<close>; bytes are 8-bit words. The expression \<open>int(x / 100)\<close> is modelled
  as truncated division, which the rounding of floats cannot change for values below \<open>2^53\<close>. Strings
  are lists of characters; characters outside the model's range, such as the arrow in status notes,
  are written in ASCII.

  \<^bold>\<open>Not modelled.\<close> The command line (\<open>cli/\<close>), the generated documents (\<open>meta/\<close>), staging trees
  (\<open>staging/\<close>), ISO mastering, error correction and burning (\<open>iso/\<close>, \<open>ecc/\<close>, \<open>burn/\<close>), which print, copy
  files or drive external programs; schema migrations. Log output is not modelled.
\<close>

end
